(* ===== verification/Prelude.thy ===== *)
theory Prelude
  imports Main "HOL-Library.Sublist" "HOL-Library.Char_ord" "HOL-Library.Word"
begin

section \<open>Shared vocabulary\<close>

text \<open>
  What every component uses: Rust's \<open>Result\<close> with a message as error, machine sizes,
  and the generic facts about lists the component proofs share. The collections declared
  here are filled by the components: \<open>node_simps\<close> (arithmetic of memory tree blocks),
  \<open>str_simps\<close> (Rust string operations), \<open>partition_intros\<close> (lists of blocks that tile
  an interval).
\<close>

named_theorems str_simps \<open>equations of the Rust string operations\<close>
named_theorems node_simps \<open>equations of memory tree nodes\<close>
named_theorems partition_intros \<open>rules for block lists that tile an interval\<close>

subsection \<open>Results and machine sizes\<close>

text \<open>\<open>Result<T, String>\<close>: \<open>Inl\<close> is \<open>Err\<close> with its message, \<open>Inr\<close> is \<open>Ok\<close>.\<close>

type_synonym 'a result = "string + 'a"

text \<open>\<open>usize\<close> and \<open>u64\<close> are 64 bits wide on every platform the program is built for.\<close>

definition u64_max :: nat where
  "u64_max = 2 ^ 64 - 1"

abbreviation usize_max :: nat where
  "usize_max \<equiv> u64_max"

definition checked_add :: "nat \<Rightarrow> nat \<Rightarrow> nat option" where
  "checked_add a b = (if a + b \<le> u64_max then Some (a + b) else None)"

definition checked_mul :: "nat \<Rightarrow> nat \<Rightarrow> nat option" where
  "checked_mul a b = (if a * b \<le> u64_max then Some (a * b) else None)"

definition saturating_add :: "nat \<Rightarrow> nat \<Rightarrow> nat" where
  "saturating_add a b = min (a + b) u64_max"

lemma checked_add_Some [simp]: "checked_add a b = Some c \<longleftrightarrow> c = a + b \<and> a + b \<le> u64_max"
  by (auto simp: checked_add_def)

lemma checked_mul_Some [simp]: "checked_mul a b = Some c \<longleftrightarrow> c = a * b \<and> a * b \<le> u64_max"
  by (auto simp: checked_mul_def)

text \<open>\<open>usize::is_power_of_two\<close>, by repeated halving.\<close>

fun is_power_of_two :: "nat \<Rightarrow> bool" where
  "is_power_of_two n = (if n \<le> 1 then n = 1 else even n \<and> is_power_of_two (n div 2))"

declare is_power_of_two.simps [simp del]

lemma is_power_of_two_iff: "is_power_of_two n \<longleftrightarrow> (\<exists>k. n = 2 ^ k)"
proof (induction n rule: is_power_of_two.induct)
  case (1 n)
  show ?case
  proof (cases "n \<le> 1")
    case True
    then show ?thesis
      by (subst is_power_of_two.simps) (auto intro: exI [of _ 0] simp: le_Suc_eq)
  next
    case False
    have "(\<exists>k. n = 2 ^ k) \<longleftrightarrow> even n \<and> (\<exists>k. n div 2 = 2 ^ k)"
    proof
      assume "\<exists>k. n = 2 ^ k"
      then obtain k where k: "n = 2 ^ k" by blast
      with False obtain j where "k = Suc j" by (cases k) auto
      with k show "even n \<and> (\<exists>k. n div 2 = 2 ^ k)" by auto
    next
      assume "even n \<and> (\<exists>k. n div 2 = 2 ^ k)"
      then obtain k where "even n" "n div 2 = 2 ^ k" by blast
      then have "n = 2 ^ Suc k" by auto
      then show "\<exists>k. n = 2 ^ k" by blast
    qed
    with False 1 show ?thesis by (subst is_power_of_two.simps) simp
  qed
qed

lemma is_power_of_two_pow [simp]: "is_power_of_two (2 ^ k)"
  by (auto simp: is_power_of_two_iff)

lemma is_power_of_two_pos: "is_power_of_two n \<Longrightarrow> 0 < n"
  by (auto simp: is_power_of_two_iff)

lemma is_power_of_two_double [simp]:
  "is_power_of_two n \<Longrightarrow> is_power_of_two (2 * n)"
  "is_power_of_two n \<Longrightarrow> is_power_of_two (n * 2)"
proof -
  have "2 * (2::nat) ^ k = 2 ^ Suc k" for k by simp
  then show "is_power_of_two n \<Longrightarrow> is_power_of_two (2 * n)"
    unfolding is_power_of_two_iff by metis
  then show "is_power_of_two n \<Longrightarrow> is_power_of_two (n * 2)" by (simp only: mult.commute)
qed

lemma is_power_of_two_half:
  assumes "is_power_of_two n" "1 < n"
  shows "even n" "is_power_of_two (n div 2)"
  using assms by (subst (asm) is_power_of_two.simps, simp)+

text \<open>\<open>usize::next_power_of_two\<close>: the least power of two that is at least \<open>n\<close>.\<close>

function next_pow2_from :: "nat \<Rightarrow> nat \<Rightarrow> nat" where
  "next_pow2_from p n = (if p < n \<and> 0 < p then next_pow2_from (2 * p) n else p)"
  by pat_completeness auto
termination
  by (relation "measure (\<lambda>(p, n). n - p)") auto

declare next_pow2_from.simps [simp del]

definition next_power_of_two :: "nat \<Rightarrow> nat" where
  "next_power_of_two n = next_pow2_from 1 n"

lemma next_pow2_from_pow: "is_power_of_two p \<Longrightarrow> is_power_of_two (next_pow2_from p n)"
proof (induction p n rule: next_pow2_from.induct)
  case (1 p n)
  from 1 show ?case by (subst next_pow2_from.simps) auto
qed

lemma next_pow2_from_ge: "0 < p \<Longrightarrow> n \<le> next_pow2_from p n"
proof (induction p n rule: next_pow2_from.induct)
  case (1 p n)
  then show ?case by (subst next_pow2_from.simps) auto
qed

lemma next_power_of_two_pow [simp]: "is_power_of_two (next_power_of_two n)"
  unfolding next_power_of_two_def
  by (rule next_pow2_from_pow) (simp add: is_power_of_two.simps)

lemma next_power_of_two_ge: "n \<le> next_power_of_two n"
  unfolding next_power_of_two_def by (rule next_pow2_from_ge) simp

subsection \<open>Lists\<close>

lemma length_dropWhile_less [termination_simp]:
  "length (dropWhile P xs) < Suc (length xs)"
  by (simp add: le_imp_less_Suc length_dropWhile_le)

lemma sum_list_pos_bound: "x \<in> set xs \<Longrightarrow> (f x :: nat) \<le> sum_list (map f xs)"
  by (induction xs) auto

text \<open>\<open>join sep parts\<close> is \<open>parts.join(sep)\<close>.\<close>

fun join :: "'a list \<Rightarrow> 'a list list \<Rightarrow> 'a list" where
  "join sep [] = []"
| "join sep [x] = x"
| "join sep (x # y # xs) = x @ sep @ join sep (y # xs)"

lemma join_Cons: "xs \<noteq> [] \<Longrightarrow> join sep (x # xs) = x @ sep @ join sep xs"
  by (cases xs) auto

lemma join_append:
  "xs \<noteq> [] \<Longrightarrow> ys \<noteq> [] \<Longrightarrow> join sep (xs @ ys) = join sep xs @ sep @ join sep ys"
proof (induction sep xs rule: join.induct)
  case (2 sep x)
  then show ?case by (simp add: join_Cons)
qed auto

text \<open>First index of an element with a property (\<open>iter().position\<close>), and the last one.\<close>

fun position :: "('a \<Rightarrow> bool) \<Rightarrow> 'a list \<Rightarrow> nat option" where
  "position P [] = None"
| "position P (x # xs) = (if P x then Some 0 else map_option Suc (position P xs))"

lemma position_None: "position P xs = None \<longleftrightarrow> (\<forall>x \<in> set xs. \<not> P x)"
  by (induction xs) auto

lemma position_Some:
  "position P xs = Some i \<Longrightarrow> i < length xs \<and> P (xs ! i) \<and> (\<forall>j < i. \<not> P (xs ! j))"
proof (induction xs arbitrary: i)
  case Nil
  then show ?case by simp
next
  case (Cons x xs)
  then show ?case by (cases i) (auto split: if_splits simp: less_Suc_eq_0_disj)
qed

lemma position_append:
  "position P (xs @ ys) =
     (case position P xs of Some i \<Rightarrow> Some i | None \<Rightarrow> map_option ((+) (length xs)) (position P ys))"
proof (induction xs)
  case Nil
  show ?case by (cases "position P ys") auto
next
  case (Cons x xs)
  then show ?case by (cases "position P xs"; cases "position P ys") auto
qed

definition rposition :: "('a \<Rightarrow> bool) \<Rightarrow> 'a list \<Rightarrow> nat option" where
  "rposition P xs = map_option (\<lambda>k. length xs - 1 - k) (position P (rev xs))"

lemma rposition_None: "rposition P xs = None \<longleftrightarrow> (\<forall>x \<in> set xs. \<not> P x)"
  by (simp add: rposition_def position_None)

lemma rposition_Some:
  assumes "rposition P xs = Some i"
  shows "i < length xs \<and> P (xs ! i) \<and> (\<forall>j. i < j \<and> j < length xs \<longrightarrow> \<not> P (xs ! j))"
proof -
  from assms obtain k where k: "position P (rev xs) = Some k" and i: "i = length xs - 1 - k"
    by (auto simp: rposition_def)
  from position_Some [OF k]
  have kl: "k < length xs" and kp: "P (rev xs ! k)" and km: "\<And>j. j < k \<Longrightarrow> \<not> P (rev xs ! j)"
    by auto
  have "P (xs ! i)" using kl kp i by (simp add: rev_nth)
  moreover have "\<not> P (xs ! j)" if "i < j" "j < length xs" for j
    using km [of "length xs - 1 - j"] that kl i by (auto simp: rev_nth)
  ultimately show ?thesis using kl i by auto
qed

text \<open>\<open>windows(2).all(p)\<close>: a property of all neighbours.\<close>

fun neighbours :: "('a \<Rightarrow> 'a \<Rightarrow> bool) \<Rightarrow> 'a list \<Rightarrow> bool" where
  "neighbours P (x # y # xs) = (P x y \<and> neighbours P (y # xs))"
| "neighbours P _ = True"

lemma neighbours_Cons:
  "neighbours P (x # xs) \<longleftrightarrow> (xs \<noteq> [] \<longrightarrow> P x (hd xs)) \<and> neighbours P xs"
  by (cases xs) auto

lemma neighbours_sorted_wrt: "transp P \<Longrightarrow> neighbours P xs = sorted_wrt P xs"
  by (induction xs rule: induct_list012) (auto dest: transpD)

lemma sorted_wrt_last: "sorted_wrt P xs \<Longrightarrow> x \<in> set xs \<Longrightarrow> x = last xs \<or> P x (last xs)"
  by (induction xs) auto

lemma last_take_nth: "0 < n \<Longrightarrow> n \<le> length xs \<Longrightarrow> last (take n xs) = xs ! (n - 1)"
  by (cases n) (simp_all add: take_Suc_conv_app_nth)

lemma neighbours_append:
  "neighbours P (xs @ ys) \<longleftrightarrow> neighbours P xs \<and> neighbours P ys \<and>
     (xs \<noteq> [] \<and> ys \<noteq> [] \<longrightarrow> P (last xs) (hd ys))"
  by (induction P xs rule: neighbours.induct) (auto simp: neq_Nil_conv neighbours_Cons)

end
