(* ===== verification/Rust_Str.thy ===== *)
theory Rust_Str
  imports Prelude
begin

section \<open>Rust strings\<close>

text \<open>
  A Rust \<open>String\<close> is its UTF-8 byte sequence, here a \<open>string\<close> whose \<open>char\<close>s are the
  bytes, so \<open>s.len()\<close> is \<open>length s\<close> and \<open>format!\<close> is concatenation. Operations on
  \<open>chars()\<close> first group the bytes into characters (a lead byte and the continuation bytes
  after it); whitespace is Unicode's White_Space property, by its UTF-8 encodings.
\<close>

subsection \<open>Characters\<close>

definition is_cont :: "char \<Rightarrow> bool" where
  "is_cont c \<longleftrightarrow> 128 \<le> (of_char c :: nat) \<and> (of_char c :: nat) < 192"

fun chars_of :: "string \<Rightarrow> string list" where
  "chars_of [] = []"
| "chars_of (c # cs) =
     (if 192 \<le> (of_char c :: nat) then (c # takeWhile is_cont cs) # chars_of (dropWhile is_cont cs)
      else [c] # chars_of cs)"

lemma concat_chars_of [simp]: "concat (chars_of s) = s"
  by (induction s rule: chars_of.induct) auto

lemma chars_of_eq_Nil [simp]: "chars_of s = [] \<longleftrightarrow> s = []"
  by (cases s) auto

lemma chars_of_nonempty: "ch \<in> set (chars_of s) \<Longrightarrow> ch \<noteq> []"
  by (induction s rule: chars_of.induct) (auto split: if_splits)

text \<open>An ASCII byte is a character of its own.\<close>

lemma chars_of_ascii:
  "ch \<in> set (chars_of s) \<Longrightarrow> c \<in> set ch \<Longrightarrow> (of_char c :: nat) < 128 \<Longrightarrow> ch = [c]"
  by (induction s rule: chars_of.induct)
    (auto split: if_splits simp: is_cont_def dest!: set_takeWhileD)

lemma chars_of_lead: "list_all (\<lambda>c. (of_char c :: nat) < 192) s \<Longrightarrow> chars_of s = map (\<lambda>c. [c]) s"
  by (induction s) auto

definition of_bytes :: "nat list \<Rightarrow> string" where
  "of_bytes = map char_of"

text \<open>\<open>char::is_whitespace\<close>: the White_Space code points, as UTF-8.\<close>

definition ws_chars :: "string list" where
  "ws_chars = map of_bytes
    ([[9], [10], [11], [12], [13], [32], [194, 133], [194, 160], [225, 154, 128]]
     @ map (\<lambda>b. [226, 128, b]) [128..<139]
     @ [[226, 128, 168], [226, 128, 169], [226, 128, 175], [226, 129, 159], [227, 128, 128]])"

definition is_ws :: "string \<Rightarrow> bool" where
  "is_ws ch \<longleftrightarrow> ch \<in> set ws_chars"

definition newline :: string where
  "newline = of_bytes [10]"

text \<open>\<open>is_ascii_digit\<close> and \<open>is_ascii_whitespace\<close> on one byte.\<close>

definition is_digit :: "char \<Rightarrow> bool" where
  "is_digit c \<longleftrightarrow> 48 \<le> (of_char c :: nat) \<and> (of_char c :: nat) \<le> 57"

definition is_ascii_ws :: "char \<Rightarrow> bool" where
  "is_ascii_ws c \<longleftrightarrow> (of_char c :: nat) \<in> {9, 10, 12, 13, 32}"

definition ascii_lower :: "char \<Rightarrow> char" where
  "ascii_lower c = (if 65 \<le> (of_char c :: nat) \<and> (of_char c :: nat) \<le> 90 then char_of (of_char c + 32 :: nat) else c)"

subsection \<open>Trimming, splitting, searching\<close>

definition trim_start :: "string \<Rightarrow> string" where
  "trim_start s = concat (dropWhile is_ws (chars_of s))"

definition trim_end :: "string \<Rightarrow> string" where
  "trim_end s = concat (rev (dropWhile is_ws (rev (chars_of s))))"

definition trim :: "string \<Rightarrow> string" where
  "trim s = trim_end (trim_start s)"

definition starts_with :: "string \<Rightarrow> string \<Rightarrow> bool" where
  "starts_with p s \<longleftrightarrow> take (length p) s = p"

definition strip_prefix :: "string \<Rightarrow> string \<Rightarrow> string option" where
  "strip_prefix p s = (if starts_with p s then Some (drop (length p) s) else None)"

definition ends_with :: "string \<Rightarrow> string \<Rightarrow> bool" where
  "ends_with p s \<longleftrightarrow> length p \<le> length s \<and> drop (length s - length p) s = p"

definition strip_suffix :: "string \<Rightarrow> string \<Rightarrow> string option" where
  "strip_suffix p s = (if ends_with p s then Some (take (length s - length p) s) else None)"

fun contains :: "string \<Rightarrow> string \<Rightarrow> bool" where
  "contains p [] = (p = [])"
| "contains p (c # cs) = (starts_with p (c # cs) \<or> contains p cs)"

text \<open>\<open>split(c)\<close> on a one-byte character: always at least one piece.\<close>

fun split_on :: "char \<Rightarrow> string \<Rightarrow> string list" where
  "split_on c [] = [[]]"
| "split_on c (x # xs) =
     (if x = c then [] # split_on c xs
      else (case split_on c xs of [] \<Rightarrow> [[x]] | w # ws \<Rightarrow> (x # w) # ws))"

text \<open>\<open>split_once(c)\<close>: the parts before and after the first \<open>c\<close>.\<close>

definition split_once :: "char \<Rightarrow> string \<Rightarrow> (string \<times> string) option" where
  "split_once c s =
     (case dropWhile (\<lambda>x. x \<noteq> c) s of [] \<Rightarrow> None
      | _ # rest \<Rightarrow> Some (takeWhile (\<lambda>x. x \<noteq> c) s, rest))"

fun ws_words :: "string list \<Rightarrow> string list \<Rightarrow> string list list" where
  "ws_words acc [] = (if acc = [] then [] else [acc])"
| "ws_words acc (ch # chs) =
     (if is_ws ch then (if acc = [] then ws_words [] chs else acc # ws_words [] chs)
      else ws_words (acc @ [ch]) chs)"

definition split_whitespace :: "string \<Rightarrow> string list" where
  "split_whitespace s = map concat (ws_words [] (chars_of s))"

text \<open>\<open>str::lines\<close>: pieces ended by a newline, an optional carriage return before it dropped.\<close>

definition strip_cr :: "string \<Rightarrow> string" where
  "strip_cr s = (if s \<noteq> [] \<and> last s = CHR 0x0D then butlast s else s)"

fun lines_from :: "string \<Rightarrow> string \<Rightarrow> string list" where
  "lines_from acc [] = (if acc = [] then [] else [acc])"
| "lines_from acc (c # cs) =
     (if c = CHR 0x0A then strip_cr acc # lines_from [] cs else lines_from (acc @ [c]) cs)"

definition lines :: "string \<Rightarrow> string list" where
  "lines s = lines_from [] s"

lemma starts_with_iff_prefix: "starts_with p s \<longleftrightarrow> prefix p s"
  by (auto simp: starts_with_def prefix_def intro: exI [of _ "drop (length p) s"])
    (metis append_take_drop_id)

lemma strip_prefix_append [simp, str_simps]: "strip_prefix p (p @ s) = Some s"
  by (simp add: strip_prefix_def starts_with_def)

lemma strip_prefix_Some: "strip_prefix p s = Some t \<longleftrightarrow> s = p @ t"
  unfolding strip_prefix_def starts_with_def
  by (auto split: if_splits) (metis append_take_drop_id)

lemma strip_suffix_append [simp]: "strip_suffix p (s @ p) = Some s"
  by (simp add: strip_suffix_def ends_with_def)

text \<open>
  \<open>is_char_boundary\<close>, and the search \<open>(0..=n).rev().find(is_char_boundary)\<close> the program
  truncates with.
\<close>

definition is_char_boundary :: "string \<Rightarrow> nat \<Rightarrow> bool" where
  "is_char_boundary s i \<longleftrightarrow> i = 0 \<or> i = length s \<or> (i < length s \<and> \<not> is_cont (s ! i))"

definition boundary_at_most :: "string \<Rightarrow> nat \<Rightarrow> nat" where
  "boundary_at_most s n = (case find (is_char_boundary s) (rev [0..<Suc n]) of Some i \<Rightarrow> i | None \<Rightarrow> 0)"

lemma boundary_at_most_le: "boundary_at_most s n \<le> n"
  by (auto simp: boundary_at_most_def find_Some_iff nth_append rev_nth split: option.splits simp del: upt_Suc)

lemma boundary_at_most_boundary: "is_char_boundary s (boundary_at_most s n)"
  by (auto simp: boundary_at_most_def find_Some_iff is_char_boundary_def split: option.splits simp del: upt_Suc)

subsubsection \<open>Whitespace-free words\<close>

definition collapse :: "string \<Rightarrow> string" where
  "collapse text = join '' '' (split_whitespace text)"

lemma ws_words_no_ws:
  "w \<in> set (ws_words acc chs) \<Longrightarrow> \<forall>ch \<in> set acc. \<not> is_ws ch \<Longrightarrow> ch \<in> set w \<Longrightarrow> \<not> is_ws ch"
  by (induction acc chs rule: ws_words.induct) (auto split: if_splits)

lemma ws_words_chars:
  "w \<in> set (ws_words acc chs) \<Longrightarrow> set w \<subseteq> set acc \<union> set chs"
  by (induction acc chs rule: ws_words.induct) (fastforce split: if_splits)+

lemma newline_char: "newline = [CHR 0x0A]"
  by code_simp

text \<open>The white space that is one byte long.\<close>

lemma is_ws_ascii: "is_ws [c] \<longleftrightarrow> c \<in> {CHR 0x09, CHR 0x0A, CHR 0x0B, CHR 0x0C, CHR 0x0D, CHR '' ''}"
proof -
  have "filter (\<lambda>ws. length ws = 1) ws_chars = [[CHR 0x09], [CHR 0x0A], [CHR 0x0B], [CHR 0x0C], [CHR 0x0D], '' '']"
    by code_simp
  moreover have "is_ws [c] \<longleftrightarrow> [c] \<in> set (filter (\<lambda>ws. length ws = 1) ws_chars)" by (simp add: is_ws_def)
  ultimately show ?thesis by auto
qed

lemma is_ws_newline: "is_ws [CHR 0x0A]" "is_ws [CHR 0x0D]"
  by (simp_all add: is_ws_ascii)

lemma set_join: "set (join sep xs) \<subseteq> set sep \<union> (\<Union>x \<in> set xs. set x)"
  by (induction sep xs rule: join.induct) auto

lemma split_whitespace_no_newline:
  assumes "w \<in> set (split_whitespace s)" "c \<in> {CHR 0x0A, CHR 0x0D}"
  shows "c \<notin> set w"
proof
  assume "c \<in> set w"
  from assms(1) obtain chs where chs: "chs \<in> set (ws_words [] (chars_of s))" "w = concat chs"
    by (auto simp: split_whitespace_def)
  with \<open>c \<in> set w\<close> obtain ch where ch: "ch \<in> set chs" "c \<in> set ch" by auto
  then have "ch \<in> set (chars_of s)" using ws_words_chars [OF chs(1)] by auto
  moreover have "(of_char c :: nat) < 128" using assms(2) by auto
  ultimately have "ch = [c]" using chars_of_ascii ch(2) by blast
  moreover have "\<not> is_ws ch" using ws_words_no_ws [OF chs(1) _ ch(1)] by simp
  ultimately show False using assms(2) is_ws_newline by auto
qed

lemma collapse_no_newline: "CHR 0x0A \<notin> set (collapse s)" "CHR 0x0D \<notin> set (collapse s)"
proof -
  have "c \<notin> set (collapse s)" if "c \<in> {CHR 0x0A, CHR 0x0D}" for c
    using set_join [of "'' ''" "split_whitespace s"] split_whitespace_no_newline [OF _ that] that
    by (auto simp: collapse_def)
  then show "CHR 0x0A \<notin> set (collapse s)" "CHR 0x0D \<notin> set (collapse s)" by auto
qed

text \<open>What trimming keeps is part of the input.\<close>

lemma trim_start_subset: "set (trim_start s) \<subseteq> set s"
proof -
  have "set (concat (dropWhile is_ws (chars_of s))) \<subseteq> set (concat (chars_of s))"
    unfolding set_concat by (blast dest: set_dropWhileD)
  then show ?thesis by (simp add: trim_start_def del: set_concat)
qed

lemma trim_end_subset: "set (trim_end s) \<subseteq> set s"
proof -
  have "set (concat (rev (dropWhile is_ws (rev (chars_of s))))) \<subseteq> set (concat (chars_of s))"
    unfolding set_concat set_rev using set_dropWhileD [of _ is_ws "rev (chars_of s)"] by fastforce
  then show ?thesis by (simp add: trim_end_def del: set_concat)
qed

lemma length_concat_dropWhile_le: "length (concat (dropWhile P xs)) \<le> length (concat xs)"
  by (induction xs) auto

lemma length_concat_rev: "length (concat (rev xs)) = length (concat xs)"
  by (induction xs) auto

lemma length_trim_end: "length (trim_end s) \<le> length s"
proof -
  have "length (trim_end s) \<le> length (concat (rev (chars_of s)))"
    unfolding trim_end_def length_concat_rev [of "dropWhile _ _"] by (rule length_concat_dropWhile_le)
  then show ?thesis by (simp add: length_concat_rev)
qed

lemma length_trim_start: "length (trim_start s) \<le> length s"
  using length_concat_dropWhile_le [of is_ws "chars_of s"] by (simp add: trim_start_def)

lemma split_on_nonempty [simp]: "split_on c s \<noteq> []"
  by (induction s) (auto split: list.splits)

lemma join_split_on: "join [c] (split_on c s) = s"
proof (induction s)
  case (Cons x xs)
  note IH = Cons.IH
  show ?case
  proof (cases "split_on c xs")
    case (Cons w ws)
    with IH show ?thesis by (cases ws) auto
  qed simp
qed simp

lemma split_on_no_sep: "c \<notin> set s \<Longrightarrow> split_on c s = [s]"
  by (induction s) auto

lemma split_on_append: "c \<notin> set s \<Longrightarrow> split_on c (s @ c # t) = s # split_on c t"
  by (induction s) auto

lemma split_once_append [str_simps]: "c \<notin> set a \<Longrightarrow> split_once c (a @ c # b) = Some (a, b)"
proof -
  assume "c \<notin> set a"
  then have "\<And>x. x \<in> set a \<Longrightarrow> x \<noteq> c" by auto
  then show ?thesis by (simp add: split_once_def dropWhile_append2 takeWhile_append2)
qed

lemma split_once_None [str_simps]: "c \<notin> set s \<Longrightarrow> split_once c s = None"
proof -
  assume "c \<notin> set s"
  then have "dropWhile (\<lambda>x. x \<noteq> c) s = []" by (auto simp: dropWhile_eq_Nil_conv)
  then show ?thesis unfolding split_once_def by (simp only: list.case)
qed

lemma split_once_Some:
  assumes "split_once c s = Some (a, b)"
  shows "s = a @ c # b \<and> c \<notin> set a"
proof -
  from assms obtain y ys where d: "dropWhile (\<lambda>x. x \<noteq> c) s = y # ys"
    and ab: "a = takeWhile (\<lambda>x. x \<noteq> c) s" "b = ys"
    by (auto simp: split_once_def split: list.splits)
  have "y = c" using hd_dropWhile [of "\<lambda>x. x \<noteq> c" s] d by auto
  moreover have "s = takeWhile (\<lambda>x. x \<noteq> c) s @ y # ys"
    using takeWhile_dropWhile_id [of "\<lambda>x. x \<noteq> c" s] d by simp
  moreover have "c \<notin> set a" using ab by (auto dest: set_takeWhileD)
  ultimately show ?thesis using ab by simp
qed

text \<open>
  \<open>str::to_lowercase\<close>, as far as a search for an ASCII pattern can tell: the ASCII letters and
  the two other characters whose lowercase form contains an ASCII letter (U+0130 and U+212A);
  every other character lowercases to non-ASCII characters and is kept.
\<close>

definition lower_char :: "string \<Rightarrow> string" where
  "lower_char ch =
     (if ch = of_bytes [196, 176] then ''i'' @ of_bytes [204, 135]
      else if ch = of_bytes [226, 132, 170] then ''k''
      else map ascii_lower ch)"

definition to_lowercase :: "string \<Rightarrow> string" where
  "to_lowercase s = concat (map lower_char (chars_of s))"

lemma trim_subset: "set (trim s) \<subseteq> set s"
  using trim_end_subset trim_start_subset by (auto simp: trim_def)

subsection \<open>Decimal numbers\<close>

definition digit_char :: "nat \<Rightarrow> char" where
  "digit_char d = char_of (48 + d)"

definition digit_val :: "char \<Rightarrow> nat" where
  "digit_val c = of_char c - 48"

text \<open>\<open>n.to_string()\<close> for an unsigned \<open>n\<close>.\<close>

fun dec :: "nat \<Rightarrow> string" where
  "dec n = (if n < 10 then [digit_char n] else dec (n div 10) @ [digit_char (n mod 10)])"

declare dec.simps [simp del]

definition digits_val :: "string \<Rightarrow> nat" where
  "digits_val s = foldl (\<lambda>a c. 10 * a + digit_val c) 0 s"

text \<open>
  \<open>s.parse::<uN>()\<close> with the type's maximum: an optional plus sign, then at least one digit,
  and the value must fit.
\<close>

definition parse_uint :: "nat \<Rightarrow> string \<Rightarrow> nat option" where
  "parse_uint m s =
     (let d = (case s of c # cs \<Rightarrow> if c = CHR ''+'' then cs else s | [] \<Rightarrow> s)
      in if d \<noteq> [] \<and> list_all is_digit d \<and> digits_val d \<le> m then Some (digits_val d) else None)"

text \<open>The check in front of most parses of the program: digits only, at least one.\<close>

definition all_digits :: "string \<Rightarrow> bool" where
  "all_digits s \<longleftrightarrow> s \<noteq> [] \<and> list_all is_digit s"

lemma is_digit_digit_char [simp]: "d < 10 \<Longrightarrow> is_digit (digit_char d)"
  by (simp add: is_digit_def digit_char_def)

lemma digit_val_digit_char [simp]: "d < 10 \<Longrightarrow> digit_val (digit_char d) = d"
  by (simp add: digit_val_def digit_char_def)

lemma digits_val_snoc: "digits_val (s @ [c]) = 10 * digits_val s + digit_val c"
  by (simp add: digits_val_def)

lemma dec_nonempty [simp]: "dec n \<noteq> []"
  by (subst dec.simps) simp

lemma dec_digits: "list_all is_digit (dec n)"
proof (induction n rule: dec.induct)
  case (1 n)
  then show ?case by (subst dec.simps) auto
qed

lemma all_digits_dec [simp]: "all_digits (dec n)"
  by (simp add: all_digits_def dec_digits)

lemma digits_val_dec [simp]: "digits_val (dec n) = n"
proof (induction n rule: dec.induct)
  case (1 n)
  show ?case
  proof (cases "n < 10")
    case True
    then show ?thesis by (subst dec.simps) (simp add: digits_val_def)
  next
    case False
    then have "digits_val (dec n) = 10 * digits_val (dec (n div 10)) + n mod 10"
      by (subst dec.simps) (simp add: digits_val_snoc)
    with False 1 show ?thesis by simp
  qed
qed

lemma is_digit_plus [simp]: "\<not> is_digit (CHR ''+'')"
  by code_simp

lemma parse_uint_digits:
  "all_digits s \<Longrightarrow> parse_uint m s = (if digits_val s \<le> m then Some (digits_val s) else None)"
  by (auto simp: parse_uint_def all_digits_def Let_def split: list.splits)

lemma parse_uint_dec [simp]: "n \<le> m \<Longrightarrow> parse_uint m (dec n) = Some n"
  by (simp add: parse_uint_digits)

lemma parse_uint_bound: "parse_uint m s = Some n \<Longrightarrow> n \<le> m"
  by (auto simp: parse_uint_def Let_def split: if_splits)

lemma not_digit_notin_dec: "\<not> is_digit c \<Longrightarrow> c \<notin> set (dec n)"
  using dec_digits [of n] by (auto simp: list_all_iff)

lemma is_digit_lead: "is_digit c \<Longrightarrow> (of_char c :: nat) < 192"
  by (simp add: is_digit_def)

lemma dec_lead: "list_all (\<lambda>c. (of_char c :: nat) < 192) (dec n)"
  using dec_digits [of n] by (auto simp: list.pred_set intro: is_digit_lead)

lemma length_dec_mono: "m \<le> n \<Longrightarrow> length (dec m) \<le> length (dec n)"
proof (induction n arbitrary: m rule: dec.induct)
  case (1 n)
  show ?case
  proof (cases "m < 10")
    case True
    then have "length (dec m) = 1" by (simp add: dec.simps [of m])
    moreover have "1 \<le> length (dec n)" by (cases "dec n") simp_all
    ultimately show ?thesis by simp
  next
    case False
    then have "length (dec (m div 10)) \<le> length (dec (n div 10))"
      using 1 by (intro 1(1)) (simp_all add: div_le_mono)
    then show ?thesis using False 1(2) by (simp add: dec.simps [of m] dec.simps [of n])
  qed
qed

lemma length_dec_Suc: "length (dec (Suc n)) \<le> Suc (length (dec n))"
proof (induction n rule: dec.induct)
  case (1 n)
  show ?case
  proof (cases "n < 10")
    case True
    then have "length (dec n) = 1" by (simp add: dec.simps [of n])
    moreover have "length (dec (Suc n)) \<le> 2"
      using True div_le_mono [of "Suc n" 10 10] by (auto simp: dec.simps [of "Suc n"] dec.simps [of "Suc n div 10"])
    ultimately show ?thesis by simp
  next
    case False
    have "Suc n div 10 = n div 10 \<or> Suc n div 10 = Suc (n div 10)" by (simp add: div_Suc)
    then have "length (dec (Suc n div 10)) \<le> Suc (length (dec (n div 10)))"
      using 1 [OF False] by auto
    then show ?thesis using False by (simp add: dec.simps [of n] dec.simps [of "Suc n"])
  qed
qed

lemma dec_inject [simp]: "dec m = dec n \<longleftrightarrow> m = n"
  by (metis digits_val_dec)

text \<open>A digit string without a leading zero is what \<open>to_string\<close> prints.\<close>

lemma digits_val_less: "list_all is_digit s \<Longrightarrow> digits_val s < 10 ^ length s"
proof (induction s rule: rev_induct)
  case Nil
  then show ?case by (simp add: digits_val_def)
next
  case (snoc c s)
  then have "digit_val c < 10" by (auto simp: digit_val_def is_digit_def)
  with snoc show ?case by (auto simp: digits_val_snoc)
qed

lemma digits_val_pos:
  "list_all is_digit s \<Longrightarrow> s \<noteq> [] \<Longrightarrow> hd s \<noteq> CHR ''0'' \<Longrightarrow> 0 < digits_val s"
proof (induction s rule: rev_induct)
  case (snoc c s)
  show ?case
  proof (cases "s = []")
    case True
    with snoc.prems have d: "is_digit c" "c \<noteq> CHR ''0''" by auto
    have "of_char c \<noteq> (48 :: nat)"
    proof
      assume h: "of_char c = (48 :: nat)"
      have "c = char_of (of_char c :: nat)" by simp
      also have "\<dots> = CHR ''0''" unfolding h by code_simp
      finally show False using d by simp
    qed
    with d True show ?thesis by (simp add: digits_val_def digit_val_def is_digit_def)
  next
    case False
    with snoc show ?thesis by (simp add: digits_val_snoc)
  qed
qed simp

subsection \<open>Trimming twice\<close>

lemma chars_of_tl: "chars_of (concat (tl (chars_of s))) = tl (chars_of s)"
  by (cases s) auto

lemma chars_of_drop: "chars_of (concat (drop n (chars_of s))) = drop n (chars_of s)"
proof (induction n arbitrary: s)
  case (Suc n)
  show ?case using Suc [of "concat (tl (chars_of s))"] by (simp add: chars_of_tl drop_Suc)
qed simp

lemma takeWhile_is_cont_append:
  "(ys = [] \<or> \<not> is_cont (hd ys)) \<Longrightarrow> takeWhile is_cont (takeWhile is_cont xs @ ys) = takeWhile is_cont xs"
  by (induction xs) (auto simp: takeWhile_eq_Nil_iff)

lemma dropWhile_is_cont_append:
  "(ys = [] \<or> \<not> is_cont (hd ys)) \<Longrightarrow> dropWhile is_cont (takeWhile is_cont xs @ ys) = ys"
  by (induction xs) (auto simp: dropWhile_eq_self_iff)

lemma chars_of_take: "chars_of (concat (take n (chars_of s))) = take n (chars_of s)"
proof (induction s arbitrary: n rule: chars_of.induct)
  case (2 c cs)
  show ?case
  proof (cases n)
    case (Suc m)
    show ?thesis
    proof (cases "192 \<le> (of_char c :: nat)")
      case True
      define rest where "rest = concat (take m (chars_of (dropWhile is_cont cs)))"
      have "rest = [] \<or> \<not> is_cont (hd rest)"
      proof (cases "dropWhile is_cont cs")
        case (Cons d ds)
        then have "\<not> is_cont d" by (metis hd_dropWhile list.sel(1) list.simps(3))
        then show ?thesis using Cons by (cases m) (auto simp: rest_def)
      next
        case Nil
        show ?thesis unfolding rest_def Nil by simp
      qed
      then have "takeWhile is_cont (takeWhile is_cont cs @ rest) = takeWhile is_cont cs"
        "dropWhile is_cont (takeWhile is_cont cs @ rest) = rest"
        by (rule takeWhile_is_cont_append, rule dropWhile_is_cont_append)
      then show ?thesis using True 2(1) [OF True, of m] Suc by (simp add: rest_def)
    next
      case False
      then show ?thesis using 2(2) [OF False, of m] Suc by simp
    qed
  qed simp
qed simp

lemma chars_of_trim_start: "chars_of (trim_start s) = dropWhile is_ws (chars_of s)"
  by (simp add: trim_start_def dropWhile_eq_drop chars_of_drop)

lemma chars_of_trim_end: "chars_of (trim_end s) = rev (dropWhile is_ws (rev (chars_of s)))"
  by (simp add: trim_end_def dropWhile_eq_drop rev_drop chars_of_take)

lemma trim_end_fixed: "chars_of s = [] \<or> \<not> is_ws (last (chars_of s)) \<Longrightarrow> trim_end s = s"
proof (cases "chars_of s" rule: rev_cases)
  case (snoc ys y)
  moreover assume "chars_of s = [] \<or> \<not> is_ws (last (chars_of s))"
  ultimately have "dropWhile is_ws (rev (chars_of s)) = rev (chars_of s)" by simp
  then show ?thesis by (simp add: trim_end_def)
qed (simp add: trim_end_def)

lemma trim_start_fixed: "chars_of s = [] \<or> \<not> is_ws (hd (chars_of s)) \<Longrightarrow> trim_start s = s"
proof -
  assume "chars_of s = [] \<or> \<not> is_ws (hd (chars_of s))"
  then have "dropWhile is_ws (chars_of s) = chars_of s" by (simp add: dropWhile_eq_self_iff)
  then show ?thesis by (simp add: trim_start_def)
qed

lemma trim_trim [simp]: "trim (trim s) = trim s"
proof -
  define a where "a = dropWhile is_ws (chars_of s)"
  have c: "chars_of (trim s) = rev (dropWhile is_ws (rev a))"
    by (simp add: trim_def chars_of_trim_end chars_of_trim_start a_def)
  define b where "b = chars_of (trim s)"
  have e: "b = [] \<or> \<not> is_ws (last b)"
  proof (cases "dropWhile is_ws (rev a)")
    case (Cons x xs)
    then have "\<not> is_ws x" by (metis hd_dropWhile list.sel(1) list.simps(3))
    then show ?thesis by (simp add: b_def c Cons)
  qed (simp add: b_def c)
  have "b = [] \<or> \<not> is_ws (hd b)"
  proof (cases a)
    case (Cons x xs)
    then have x: "\<not> is_ws x" unfolding a_def by (metis hd_dropWhile list.sel(1) list.simps(3))
    show ?thesis
    proof (cases "b = []")
      case False
      have "prefix b a" by (simp add: b_def c dropWhile_eq_drop rev_drop take_is_prefix)
      then have "hd b = x" using False Cons by (cases b) auto
      then show ?thesis using x by simp
    qed simp
  qed (simp add: b_def c)
  then show ?thesis using e unfolding trim_def [of "trim s"] b_def by (simp add: trim_start_fixed trim_end_fixed)
qed

subsection \<open>The order of strings\<close>

text \<open>\<open>str\<close> is compared byte by byte; a sort of strings, as \<open>sort\<close> and the keys of a \<open>BTreeMap\<close>.\<close>

fun bytes_le :: "string \<Rightarrow> string \<Rightarrow> bool" where
  "bytes_le [] _ = True"
| "bytes_le (_ # _) [] = False"
| "bytes_le (a # x) (b # y) = ((of_char a :: nat) < of_char b \<or> a = b \<and> bytes_le x y)"

fun insert_str :: "string \<Rightarrow> string list \<Rightarrow> string list" where
  "insert_str x [] = [x]"
| "insert_str x (y # ys) = (if bytes_le x y then x # y # ys else y # insert_str x ys)"

definition sort_strs :: "string list \<Rightarrow> string list" where
  "sort_strs xs = foldr insert_str xs []"

lemma bytes_le_linear: "bytes_le x y \<or> bytes_le y x"
  by (induction x y rule: bytes_le.induct) (auto simp: linorder_not_less order_le_less)

lemma bytes_le_trans: "bytes_le x y \<Longrightarrow> bytes_le y z \<Longrightarrow> bytes_le x z"
proof (induction x y arbitrary: z rule: bytes_le.induct)
  case (3 a x b y)
  then show ?case by (cases z) auto
qed simp_all

lemma bytes_le_antisym: "bytes_le x y \<Longrightarrow> bytes_le y x \<Longrightarrow> x = y"
  by (induction x y rule: bytes_le.induct) (auto elim: bytes_le.elims)

lemma set_insert_str [simp]: "set (insert_str x ys) = insert x (set ys)"
  by (induction ys) auto

lemma set_sort_strs [simp]: "set (sort_strs xs) = set xs"
  by (induction xs) (simp_all add: sort_strs_def)

lemma sorted_insert_str: "sorted_wrt bytes_le ys \<Longrightarrow> sorted_wrt bytes_le (insert_str x ys)"
proof (induction ys)
  case (Cons y ys)
  then show ?case using bytes_le_linear bytes_le_trans by (cases "bytes_le x y") auto
qed simp

lemma sorted_sort_strs: "sorted_wrt bytes_le (sort_strs xs)"
  by (induction xs) (simp_all add: sort_strs_def sorted_insert_str)

lemma trim_single [str_simps]: "\<not> is_ws [c] \<Longrightarrow> trim [c] = [c]"
  by (simp add: trim_def trim_start_fixed trim_end_fixed)

lemma chars_of_append: "b = [] \<or> \<not> is_cont (hd b) \<Longrightarrow> chars_of (a @ b) = chars_of a @ chars_of b"
proof (induction a rule: chars_of.induct)
  case (2 c cs)
  have "takeWhile is_cont (cs @ b) = takeWhile is_cont cs"
    using 2(3) by (cases b) (auto simp: takeWhile_append takeWhile_tail takeWhile_eq_all_conv [THEN iffD2])
  moreover have "dropWhile is_cont (cs @ b) = dropWhile is_cont cs @ b"
    using 2(3) by (cases b) (auto simp: dropWhile_append)
  ultimately show ?case using 2 by simp
qed simp

lemma chars_of_char: "ch \<in> set (chars_of s) \<Longrightarrow> chars_of ch = [ch]"
proof (induction s rule: chars_of.induct)
  case (2 c cs)
  have "takeWhile is_cont (takeWhile is_cont cs) = takeWhile is_cont cs" "dropWhile is_cont (takeWhile is_cont cs) = []"
    by (simp_all add: dropWhile_eq_Nil_conv takeWhile_eq_all_conv) (meson set_takeWhileD)+
  then show ?case using 2 by (auto split: if_splits)
qed simp

lemma chars_of_concat_map:
  "\<forall>c \<in> set cs. f c \<noteq> [] \<and> \<not> is_cont (hd (f c)) \<Longrightarrow> chars_of (concat (map f cs)) = concat (map (chars_of \<circ> f) cs)"
proof (induction cs)
  case (Cons c cs)
  have "concat (map f cs) = [] \<or> \<not> is_cont (hd (concat (map f cs)))"
    using Cons.prems by (cases cs) auto
  then show ?case using Cons by (simp add: chars_of_append)
qed simp

lemma trim_ascii [str_simps]:
  assumes "list_all (\<lambda>c. (of_char c :: nat) < 192) s" and "s \<noteq> []" and "\<not> is_ws [hd s]" and "\<not> is_ws [List.last s]"
  shows "trim s = s"
proof -
  have c: "chars_of s = map (\<lambda>c. [c]) s" by (rule chars_of_lead [OF assms(1)])
  have "trim_start s = s" by (rule trim_start_fixed) (use assms in \<open>auto simp: c hd_map\<close>)
  moreover have "trim_end s = s" by (rule trim_end_fixed) (use assms in \<open>auto simp: c last_map\<close>)
  ultimately show ?thesis by (simp add: trim_def)
qed

lemma trim_no_ws: "list_all (\<lambda>c. (of_char c :: nat) < 192 \<and> \<not> is_ws [c]) s \<Longrightarrow> trim s = s"
  by (cases "s = []") (simp add: trim_def trim_start_def trim_end_def, rule trim_ascii, auto simp: list_all_iff)

lemma is_digit_not_ws: "is_digit c \<Longrightarrow> \<not> is_ws [c]"
  by (auto simp: is_ws_ascii is_digit_def)

lemma dec_hd [simp]: "is_digit (hd (dec n))"
  using dec_digits [of n] by (cases "dec n") auto

subsection \<open>Text formats\<close>

text \<open>
  A value written as text and read back: markers on disk, ids and versions. The components interpret
  \<open>codec\<close> for their own pairs of functions; different values are then written differently.
\<close>

locale codec =
  fixes enc :: "'a \<Rightarrow> string"
    and parse :: "string \<Rightarrow> 'a option"
    and valid :: "'a \<Rightarrow> bool"
  assumes parse_enc: "valid x \<Longrightarrow> parse (enc x) = Some x"
begin

lemma enc_inj: "valid x \<Longrightarrow> valid y \<Longrightarrow> enc x = enc y \<Longrightarrow> x = y"
  using parse_enc by (metis option.inject)

lemma parse_written: "valid x \<Longrightarrow> enc x = s \<Longrightarrow> parse s = Some y \<Longrightarrow> y = x"
  using parse_enc by auto

end

end
