(* ===== verification/Bytes_LE.thy ===== *)
theory Bytes_LE
  imports Rust_Str
begin

section \<open>Byte slices and little-endian words\<close>

text \<open>
  \<open>&data[a..b]\<close>, \<open>to_le_bytes\<close>/\<open>from_le_bytes\<close> and positioned writes into a file. A word of
  \<open>k\<close> bytes is a \<open>nat\<close> below \<open>256 ^ k\<close>.
\<close>

definition slice :: "string \<Rightarrow> nat \<Rightarrow> nat \<Rightarrow> string" where
  "slice data a b = take (b - a) (drop a data)"

fun le_bytes :: "nat \<Rightarrow> nat \<Rightarrow> string" where
  "le_bytes 0 n = []"
| "le_bytes (Suc k) n = char_of (n mod 256) # le_bytes k (n div 256)"

fun le_val :: "string \<Rightarrow> nat" where
  "le_val [] = 0"
| "le_val (b # bs) = of_char b + 256 * le_val bs"

definition write_at :: "nat \<Rightarrow> string \<Rightarrow> string \<Rightarrow> string" where
  "write_at pos bs file = take pos file @ bs @ drop (pos + length bs) file"

lemma length_le_bytes [simp]: "length (le_bytes k n) = k"
  by (induction k arbitrary: n) auto

lemma le_val_le_bytes [simp]: "n < 256 ^ k \<Longrightarrow> le_val (le_bytes k n) = n"
proof (induction k arbitrary: n)
  case (Suc k)
  then have "n div 256 < 256 ^ k" by (simp add: less_mult_imp_div_less mult.commute)
  with Suc.IH show ?case by simp
qed simp

lemma le_bytes_le_val: "length bs = k \<Longrightarrow> le_bytes k (le_val bs) = bs"
proof (induction bs arbitrary: k)
  case (Cons b bs)
  then obtain j where k: "k = Suc j" "length bs = j" by (cases k) auto
  have "(of_char b :: nat) < 256" by simp
  then have "(of_char b + 256 * le_val bs) mod 256 = (of_char b :: nat)"
    "(of_char b + 256 * le_val bs) div 256 = le_val bs" by simp_all
  with Cons.IH [OF k(2)] k(1) show ?case by simp
qed simp

lemma le_bytes_inject: "m < 256 ^ k \<Longrightarrow> n < 256 ^ k \<Longrightarrow> le_bytes k m = le_bytes k n \<longleftrightarrow> m = n"
  by (metis le_val_le_bytes)

lemma length_slice: "a \<le> b \<Longrightarrow> b \<le> length data \<Longrightarrow> length (slice data a b) = b - a"
  by (simp add: slice_def)

lemma slice_drop: "c \<le> a \<Longrightarrow> slice (drop c data) (a - c) (b - c) = slice data a b"
  by (simp add: slice_def)

lemma slice_append_left: "b \<le> length xs \<Longrightarrow> slice (xs @ ys) a b = slice xs a b"
  by (cases "a \<le> b") (simp_all add: slice_def)

lemma slice_slice: "b \<le> s \<Longrightarrow> t \<le> e \<Longrightarrow> slice (slice data b e) (s - b) (t - b) = slice data s t"
  by (cases "s \<le> t") (simp_all add: slice_def drop_take min_def)

lemma take_write_at: "pos \<le> length file \<Longrightarrow> take pos (write_at pos bs file) = take pos file"
  by (simp add: write_at_def)

lemma write_at_end: "write_at (length file) bs file = file @ bs"
  by (simp add: write_at_def)

lemma write_at_start: "write_at 0 bs (xs @ rest) = bs @ rest" if "length bs = length xs"
  using that by (simp add: write_at_def)

text \<open>A write over \<open>w @ c\<close> that stops after \<open>j\<close> bytes.\<close>

lemma torn_append:
  "length w' = length w \<Longrightarrow> take j (w' @ c') @ drop j (w @ c)
     = (take j w' @ drop j w) @ take (j - length w) c' @ drop (j - length w) c"
  by (cases "j \<le> length w") simp_all

lemma word_nat_bound: "unat (w :: 64 word) < 2 ^ 64"
proof -
  have "unat w < 2 ^ LENGTH(64)" by (rule unsigned_less)
  then show ?thesis by simp
qed

lemma u64_bound: "n \<le> u64_max \<longleftrightarrow> n < 256 ^ 8"
  by (auto simp: u64_max_def)

end
