(* ===== verification/Memory_Node.thy ===== *)
theory Memory_Node
  imports Rust_Str
begin

section \<open>Nodes of the memory tree\<close>

text \<open>
  \<open>crates/core/src/chat_memory/mod.rs\<close>: a \<open>Node\<close> is a block \<open>[lo, hi)\<close> of chat entries whose
  size is a power of two that divides \<open>lo\<close>. A node is written as \<open>5\<close> (one entry) or \<open>4-7\<close>
  (first and last entry). The lemmas show that \<open>Node::new\<close> accepts exactly the aligned blocks,
  that halving stays inside them, and that \<open>parse\<close> reads back what \<open>id\<close> prints.
\<close>

record node =
  node_lo :: nat
  node_hi :: nat

definition mk_node :: "nat \<Rightarrow> nat \<Rightarrow> node" where
  "mk_node l h = \<lparr>node_lo = l, node_hi = h\<rparr>"

lemma mk_node_simps [simp]:
  "node_lo (mk_node l h) = l" "node_hi (mk_node l h) = h"
  "mk_node l h = mk_node l' h' \<longleftrightarrow> l = l' \<and> h = h'"
  by (simp_all add: mk_node_def)

lemma mk_node_collapse [simp]: "mk_node (node_lo n) (node_hi n) = n"
  by (simp add: mk_node_def)

definition node_size :: "node \<Rightarrow> nat" where
  "node_size n = node_hi n - node_lo n"

definition node_new :: "nat \<Rightarrow> nat \<Rightarrow> node result" where
  "node_new l h =
     (let size = h - l
      in if size = 0 \<or> \<not> is_power_of_two size \<or> \<not> size dvd l
         then Inl (''['' @ dec l @ '','' @ dec h @ '') is not a block: expected an aligned power-of-two range.'')
         else Inr (mk_node l h))"

definition node_leaf :: "nat \<Rightarrow> node" where
  "node_leaf i = mk_node i (i + 1)"

definition halves :: "node \<Rightarrow> node \<times> node" where
  "halves n = (let mid = (node_lo n + node_hi n) div 2
               in (mk_node (node_lo n) mid, mk_node mid (node_hi n)))"

definition node_id :: "node \<Rightarrow> string" where
  "node_id n = (if node_size n = 1 then dec (node_lo n)
                else dec (node_lo n) @ ''-'' @ dec (node_hi n - 1))"

text \<open>The closure \<open>number\<close> of \<open>parse\<close>: digits only, and the value fits a \<open>usize\<close>.\<close>

definition parse_number :: "string \<Rightarrow> string \<Rightarrow> nat result" where
  "parse_number bad p =
     (if \<not> all_digits p then Inl bad
      else case parse_uint usize_max p of None \<Rightarrow> Inl bad | Some n \<Rightarrow> Inr n)"

definition node_parse :: "string \<Rightarrow> node result" where
  "node_parse s =
     (let bad = CHR 0x27 # s @ CHR 0x27 # '' is not a node id. Use an index like 5 or a range like 4-7.'';
          not_node = s @ '' is not a node. Copy an id printed by the view, like 16-31.'';
          finish = (\<lambda>l m. case checked_add m 1 of
              None \<Rightarrow> Inl bad
            | Some h \<Rightarrow> (case node_new l h of Inl _ \<Rightarrow> Inl not_node | Inr n \<Rightarrow> Inr n))
      in case split_once (CHR ''-'') s of
           None \<Rightarrow> (case parse_number bad s of Inl e \<Rightarrow> Inl e | Inr l \<Rightarrow> finish l l)
         | Some (a, b) \<Rightarrow>
             (case parse_number bad a of Inl e \<Rightarrow> Inl e
              | Inr l \<Rightarrow> (case parse_number bad b of Inl e \<Rightarrow> Inl e | Inr m \<Rightarrow> finish l m)))"

subsection \<open>Aligned blocks\<close>

definition aligned :: "node \<Rightarrow> bool" where
  "aligned n \<longleftrightarrow> node_lo n < node_hi n \<and> is_power_of_two (node_size n) \<and> node_size n dvd node_lo n"

lemma node_new_ok: "node_new l h = Inr n \<longleftrightarrow> n = mk_node l h \<and> aligned n"
  by (auto simp: node_new_def aligned_def node_size_def Let_def)

lemma aligned_leaf [simp]: "aligned (node_leaf i)"
  by (simp add: aligned_def node_leaf_def node_size_def is_power_of_two.simps)

lemma node_leaf_simps [simp]:
  "node_lo (node_leaf i) = i" "node_hi (node_leaf i) = Suc i" "node_size (node_leaf i) = 1"
  by (simp_all add: node_leaf_def node_size_def)

lemma aligned_size_pos: "aligned n \<Longrightarrow> 0 < node_size n"
  by (simp add: aligned_def node_size_def)

lemma aligned_size_1_leaf: "aligned n \<Longrightarrow> node_size n = 1 \<Longrightarrow> n = node_leaf (node_lo n)"
  by (cases n) (auto simp: node_leaf_def node_size_def mk_node_def)

text \<open>The middle of an aligned block of at least two entries.\<close>

lemma aligned_mid:
  assumes "aligned n" "1 < node_size n"
  shows "(node_lo n + node_hi n) div 2 = node_lo n + node_size n div 2"
    and "2 * (node_size n div 2) = node_size n"
proof -
  have "even (node_size n)" using is_power_of_two_half(1) assms by (auto simp: aligned_def)
  then show "2 * (node_size n div 2) = node_size n" by simp
  have "node_lo n + node_hi n = node_size n + 2 * node_lo n"
    using assms by (simp add: node_size_def)
  then show "(node_lo n + node_hi n) div 2 = node_lo n + node_size n div 2" by simp
qed

lemma halves_aligned:
  assumes "aligned n" "1 < node_size n" "halves n = (l, r)"
  shows "aligned l" "aligned r"
    and "node_lo l = node_lo n" "node_hi l = node_lo r" "node_hi r = node_hi n"
    and "2 * node_size l = node_size n" "2 * node_size r = node_size n"
proof -
  let ?h = "node_size n div 2"
  note mid = aligned_mid [OF assms(1,2)]
  from assms(3) have l: "l = mk_node (node_lo n) (node_lo n + ?h)"
    and r: "r = mk_node (node_lo n + ?h) (node_hi n)"
    by (simp_all add: halves_def mid Let_def)
  have hi: "node_hi n = node_lo n + node_size n"
    using assms(1) by (simp add: aligned_def node_size_def)
  have sl: "node_size l = ?h" and sr: "node_size r = ?h"
    using mid(2) hi by (simp_all add: l r node_size_def [of "mk_node _ _"])
  have p: "is_power_of_two ?h" "0 < ?h"
    using is_power_of_two_half(2) assms by (auto simp: aligned_def)
  have d: "?h dvd node_lo n"
  proof -
    have "?h dvd node_size n" by (metis mid(2) dvd_triv_right)
    then show ?thesis using assms(1) by (auto simp: aligned_def intro: dvd_trans)
  qed
  show "aligned l" using sl p d by (simp add: aligned_def) (simp add: l)
  show "aligned r" using sr p d hi mid(2) by (simp add: aligned_def) (simp add: r)
  show "node_lo l = node_lo n" "node_hi l = node_lo r" "node_hi r = node_hi n"
    by (simp_all add: l r)
  show "2 * node_size l = node_size n" "2 * node_size r = node_size n"
    using sl sr mid(2) by simp_all
qed

lemma halves_cover_block:
  assumes "aligned n" "1 < node_size n" "halves n = (l, r)"
  shows "{node_lo n..<node_hi n} = {node_lo l..<node_hi l} \<union> {node_lo r..<node_hi r}"
proof -
  note h = halves_aligned [OF assms]
  have "node_lo l < node_hi l" "node_lo r < node_hi r" using h by (auto simp: aligned_def)
  then show ?thesis using h(3,4,5) ivl_disj_un_two(3) [of "node_lo l" "node_hi l" "node_hi r"] by auto
qed

subsection \<open>Reading back a printed id\<close>

lemma parse_number_dec [simp]: "n \<le> usize_max \<Longrightarrow> parse_number bad (dec n) = Inr n"
  by (simp add: parse_number_def)

lemma parse_number_ok:
  "parse_number bad p = Inr n \<longleftrightarrow> all_digits p \<and> digits_val p = n \<and> n \<le> usize_max"
  by (auto simp: parse_number_def parse_uint_digits split: option.splits if_splits)

lemma minus_notin_dec [simp]: "CHR ''-'' \<notin> set (dec n)"
  by (rule not_digit_notin_dec) code_simp

text \<open>The id the view prints for a block is read back as the same block.\<close>

theorem node_parse_id:
  assumes "aligned n" "node_hi n \<le> usize_max"
  shows "node_parse (node_id n) = Inr n"
proof (cases "node_size n = 1")
  case True
  with assms have n: "n = node_leaf (node_lo n)" by (auto intro: aligned_size_1_leaf)
  have "node_new (node_lo n) (Suc (node_lo n)) = Inr n"
    using n assms(1) by (simp add: node_new_ok node_leaf_def)
  moreover have "Suc (node_lo n) \<le> usize_max"
    using assms(2) n by (metis node_leaf_simps(2))
  ultimately show ?thesis
    using True
    by (simp add: node_parse_def node_id_def Let_def split_once_None checked_add_def)
next
  case False
  from assms(1) have lt: "node_lo n < node_hi n" by (simp add: aligned_def)
  have "node_new (node_lo n) (node_hi n) = Inr n"
    using assms(1) by (simp add: node_new_ok)
  with False lt assms(2) show ?thesis
    by (simp add: node_parse_def node_id_def Let_def split_once_append checked_add_def)
qed

theorem node_parse_id_witness:
  "aligned (mk_node 16 32) \<and> node_hi (mk_node 16 32) \<le> usize_max
   \<and> node_parse (node_id (mk_node 16 32)) = Inr (mk_node 16 32)"
proof -
  have a: "aligned (mk_node 16 32)"
    by (simp add: aligned_def node_size_def is_power_of_two.simps)
  have u: "node_hi (mk_node 16 32) \<le> usize_max"
    by (simp add: u64_max_def)
  show ?thesis using a u node_parse_id [OF a u] by simp
qed

text \<open>Whatever \<open>parse\<close> accepts is an aligned block within \<open>usize\<close>.\<close>

lemma node_parse_aligned: "node_parse s = Inr n \<Longrightarrow> aligned n \<and> node_hi n \<le> usize_max"
  by (auto simp: node_parse_def Let_def node_new_ok split: option.splits sum.splits prod.splits)

end
