(* ===== verification/Memory_Cover.thy ===== *)
theory Memory_Cover
  imports Memory_Node Complex_Main "HOL-Library.Product_Lexorder"
begin

section \<open>The cover of the chat by blocks\<close>

text \<open>
  \<open>cover_at\<close> and \<open>cover\<close> of \<open>crates/core/src/chat_memory/tree.rs\<close>: which blocks of the
  memory tree the model's view shows. \<open>cover_at t alpha\<close> walks the tree over \<open>t\<close> entries
  with an explicit stack and splits a block while it is larger than \<open>alpha\<close> times its
  distance from the end; \<open>cover\<close> bisects \<open>alpha\<close> sixty times so that the number of blocks
  meets the budget, then splits the last splittable block until the budget is used up.

  \<open>f64\<close> is modelled as the rationals with every operation rounded to 53 significant bits,
  ties to even. The values here lie between \<open>2^-60\<close> and \<open>2^64\<close>, so neither overflow nor
  subnormal numbers occur.
\<close>

subsection \<open>Floating point\<close>

definition round_half_even :: "rat \<Rightarrow> int" where
  "round_half_even r =
     (let f = \<lfloor>r\<rfloor>; d = r - of_int f
      in if d < 1/2 \<or> (d = 1/2 \<and> even f) then f else f + 1)"

fun ilog2 :: "int \<Rightarrow> int" where
  "ilog2 p = (if p \<le> 1 then 0 else 1 + ilog2 (p div 2))"

declare ilog2.simps [simp del]

text \<open>The exponent \<open>k\<close> with \<open>2^k \<le> r < 2^(k+1)\<close> for a positive rational.\<close>

definition rat_exponent :: "rat \<Rightarrow> int" where
  "rat_exponent r =
     (let (p, q) = quotient_of r; k = ilog2 p - ilog2 q
      in if 2 powi k \<le> r then k else k - 1)"

definition f64_round :: "rat \<Rightarrow> rat" where
  "f64_round r =
     (if r = 0 then 0
      else let e = rat_exponent r - 52 in of_int (round_half_even (r * 2 powi (- e))) * 2 powi e)"

definition f64_of_usize :: "nat \<Rightarrow> rat" where
  "f64_of_usize n = f64_round (of_nat n)"

definition f64_add :: "rat \<Rightarrow> rat \<Rightarrow> rat" where
  "f64_add a b = f64_round (a + b)"

definition f64_mul :: "rat \<Rightarrow> rat \<Rightarrow> rat" where
  "f64_mul a b = f64_round (a * b)"

definition f64_half :: "rat \<Rightarrow> rat" where
  "f64_half a = f64_round (a / 2)"

subsection \<open>The operations\<close>

text \<open>
  The stack of \<open>cover_at\<close>, its top first. \<open>splits t alpha (lo, hi)\<close> is the condition of
  the inner \<open>if\<close>.
\<close>

definition splits :: "nat \<Rightarrow> rat \<Rightarrow> nat \<Rightarrow> nat \<Rightarrow> bool" where
  "splits t alpha l h \<longleftrightarrow>
     1 < h - l \<and>
     (t < h \<or> f64_mul alpha (f64_of_usize (t - h + 1)) < f64_of_usize (h - l))"

lemma split_measure:
  assumes "1 < (h::nat) - l"
  shows "max 1 (2 * ((l + h) div 2 - l) - 1) + max 1 (2 * (h - (l + h) div 2) - 1)
    < max 1 (2 * (h - l) - 1)"
proof -
  define m where "m = (l + h) div 2"
  have "l < m" "m < h" using assms by (auto simp: m_def)
  then have "max 1 (2 * (m - l) - 1) = 2 * (m - l) - 1" "max 1 (2 * (h - m) - 1) = 2 * (h - m) - 1"
    "max 1 (2 * (h - l) - 1) = 2 * (h - l) - 1"
    by (simp_all add: max_def)
  with \<open>l < m\<close> \<open>m < h\<close> show ?thesis unfolding m_def [symmetric] by linarith
qed

function cover_loop ::
  "nat \<Rightarrow> rat \<Rightarrow> (nat \<times> nat) list \<Rightarrow> (nat \<times> nat) list \<Rightarrow> (nat \<times> nat) list" where
  "cover_loop t alpha [] out = out"
| "cover_loop t alpha ((l, h) # stack) out =
     (if t \<le> l then cover_loop t alpha stack out
      else if splits t alpha l h
      then (let mid = (l + h) div 2 in cover_loop t alpha ((l, mid) # (mid, h) # stack) out)
      else cover_loop t alpha stack (out @ [(l, h)]))"
  by pat_completeness auto
termination
  by (relation "measure (\<lambda>(t, alpha, stack, out). \<Sum>(l, h)\<leftarrow>stack. max 1 (2 * (h - l) - 1))")
    (auto simp: splits_def add.assoc [symmetric] intro!: add_less_mono1 split_measure [simplified])

definition cover_at :: "nat \<Rightarrow> rat \<Rightarrow> (nat \<times> nat) list" where
  "cover_at t alpha = sort (cover_loop t alpha [(0, next_power_of_two t)] [])"

text \<open>The bisection: \<open>n\<close> more rounds on the interval \<open>(lo, hi)\<close>; the result is \<open>hi\<close>.\<close>

fun bisect :: "nat \<Rightarrow> nat \<Rightarrow> nat \<Rightarrow> rat \<Rightarrow> rat \<Rightarrow> rat" where
  "bisect t budget 0 l h = h"
| "bisect t budget (Suc n) l h =
     (let mid = f64_half (f64_add l h)
      in if budget < length (cover_at t mid) then bisect t budget n mid h
         else bisect t budget n l mid)"

text \<open>The final loop: replace the last block of more than one entry by its two halves.\<close>

function cover_grow :: "nat \<Rightarrow> (nat \<times> nat) list \<Rightarrow> (nat \<times> nat) list" where
  "cover_grow budget out =
     (if length out < budget
      then (case rposition (\<lambda>(l, h). 1 < h - l) out of
              None \<Rightarrow> out
            | Some i \<Rightarrow>
                (let (l, h) = out ! i; mid = (l + h) div 2
                 in cover_grow budget (take i out @ [(l, mid), (mid, h)] @ drop (Suc i) out)))
      else out)"
  by pat_completeness auto
termination
  by (relation "measure (\<lambda>(budget, out). budget - length out)") (auto dest: rposition_Some)

declare cover_loop.simps(2) [simp del]
declare cover_grow.simps [simp del]

definition cover :: "nat \<Rightarrow> nat \<Rightarrow> node list" where
  "cover t budget =
     (if t = 0 then []
      else if t \<le> budget then map node_leaf [0..<t]
      else map (\<lambda>(l, h). mk_node l h)
             (cover_grow budget (cover_at t (bisect t budget 60 0 1))))"

subsection \<open>Lists of blocks that tile an interval\<close>

fun tiles :: "nat \<Rightarrow> nat \<Rightarrow> (nat \<times> nat) list \<Rightarrow> bool" where
  "tiles a b [] = (a = b)"
| "tiles a b ((l, h) # xs) = (l = a \<and> l < h \<and> tiles h b xs)"

definition blocks :: "(nat \<times> nat) list \<Rightarrow> bool" where
  "blocks xs \<longleftrightarrow> list_all (\<lambda>(l, h). aligned (mk_node l h)) xs"

lemma blocks_simps [simp]:
  "blocks []"
  "blocks ((l, h) # xs) \<longleftrightarrow> aligned (mk_node l h) \<and> blocks xs"
  "blocks (xs @ ys) \<longleftrightarrow> blocks xs \<and> blocks ys"
  by (simp_all add: blocks_def)

lemma tiles_le: "tiles a b xs \<Longrightarrow> a \<le> b"
  by (induction a b xs rule: tiles.induct) auto

lemma tiles_append: "tiles a c (xs @ ys) \<longleftrightarrow> (\<exists>b. tiles a b xs \<and> tiles b c ys)"
  by (induction xs arbitrary: a) auto

lemma tiles_bounds: "tiles a b xs \<Longrightarrow> (l, h) \<in> set xs \<Longrightarrow> a \<le> l \<and> l < h \<and> h \<le> b"
  by (induction a b xs rule: tiles.induct) (auto dest: tiles_le)

lemma tiles_sorted: "tiles a b xs \<Longrightarrow> sorted xs"
proof (induction a b xs rule: tiles.induct)
  case (2 a b l h xs)
  then show ?case by (auto simp: less_eq_prod_def dest: tiles_bounds)
qed simp

lemma tiles_length: "tiles a b xs \<Longrightarrow> length xs \<le> b - a"
proof (induction a b xs rule: tiles.induct)
  case (2 a b l h xs)
  then show ?case using tiles_le [of h b xs] by auto
qed simp

lemma tiles_all_leaves:
  "tiles a b xs \<Longrightarrow> \<forall>(l, h) \<in> set xs. \<not> 1 < h - l \<Longrightarrow> length xs = b - a"
proof (induction a b xs rule: tiles.induct)
  case (2 a b l h xs)
  then have "h = Suc a" by auto
  with 2 show ?case using tiles_le [of h b xs] by auto
qed simp

text \<open>Every entry is in exactly one block.\<close>

lemma tiles_unique_block:
  assumes "tiles a b xs" "a \<le> i" "i < b"
  shows "\<exists>!k. k < length xs \<and> fst (xs ! k) \<le> i \<and> i < snd (xs ! k)"
  using assms
proof (induction a b xs rule: tiles.induct)
  case (2 a b l h xs)
  let ?P = "\<lambda>ys k. k < length ys \<and> fst (ys ! k) \<le> i \<and> i < snd (ys ! k)"
  show ?case
  proof (cases "i < h")
    case True
    have no: "\<not> ?P xs k" for k
      using "2.prems"(1) True tiles_bounds [of h b xs "fst (xs ! k)" "snd (xs ! k)"] nth_mem [of k xs]
      by fastforce
    have "?P ((l, h) # xs) 0" using 2 True by simp
    moreover have "k = 0" if "?P ((l, h) # xs) k" for k
      using that no by (cases k) auto
    ultimately show ?thesis by blast
  next
    case False
    with 2 have "\<exists>!k. ?P xs k" by auto
    then obtain k where k: "?P xs k" and u: "\<And>j. ?P xs j \<Longrightarrow> j = k" by blast
    have "?P ((l, h) # xs) (Suc k)" using k by simp
    moreover have "j = Suc k" if "?P ((l, h) # xs) j" for j
      using that u False by (cases j) auto
    ultimately show ?thesis by blast
  qed
qed simp

lemma split_block_facts:
  assumes "aligned (mk_node l h)" "1 < h - l"
  shows "aligned (mk_node l ((l + h) div 2))" "aligned (mk_node ((l + h) div 2) h)"
    and "l < (l + h) div 2" "(l + h) div 2 < h"
proof -
  have s: "1 < node_size (mk_node l h)" using assms(2) by (simp add: node_size_def)
  have h: "halves (mk_node l h) = (mk_node l ((l + h) div 2), mk_node ((l + h) div 2) h)"
    by (simp add: halves_def Let_def)
  show a: "aligned (mk_node l ((l + h) div 2))" "aligned (mk_node ((l + h) div 2) h)"
    using halves_aligned(1,2) [OF assms(1) s h] by auto
  show "l < (l + h) div 2" "(l + h) div 2 < h" using a by (auto simp: aligned_def)
qed

subsection \<open>The walk tiles the chat\<close>

lemma cover_loop_tiles:
  assumes "tiles a R stack" "blocks stack" "tiles 0 (min a t) out" "blocks out" "t \<le> R"
  shows "tiles 0 t (cover_loop t alpha stack out) \<and> blocks (cover_loop t alpha stack out)"
  using assms
proof (induction t alpha stack out arbitrary: a rule: cover_loop.induct)
  case (1 t alpha out)
  then show ?case by (simp add: min_def split: if_splits)
next
  case (2 t alpha l h stack out)
  note step = cover_loop.simps(2) [of t alpha l h stack out, unfolded Let_def]
  from "2.prems" have l: "l = a" "l < h" and st: "tiles h R stack" "blocks stack"
    and al: "aligned (mk_node l h)" by auto
  consider (skip) "t \<le> l" | (split) "l < t" "splits t alpha l h" | (emit) "l < t" "\<not> splits t alpha l h"
    by fastforce
  then show ?case
  proof cases
    case skip
    with l have "min a t = t" "min h t = t" by auto
    with skip 2 st show ?thesis unfolding step by simp
  next
    case split
    then have "1 < h - l" by (simp add: splits_def)
    note f = split_block_facts [OF al this]
    have "tiles 0 t (cover_loop t alpha ((l, (l + h) div 2) # ((l + h) div 2, h) # stack) out)
      \<and> blocks (cover_loop t alpha ((l, (l + h) div 2) # ((l + h) div 2, h) # stack) out)"
      by (rule "2.IH"(2) [OF _ _ refl, where a = a]) (use split f l st "2.prems" in auto)
    with split show ?thesis unfolding step by simp
  next
    case emit
    then have "h \<le> t" using l by (auto simp: splits_def)
    then have "tiles 0 (min h t) (out @ [(l, h)])"
      using "2.prems"(3) l emit(1) by (auto simp: tiles_append min_def split: if_splits)
    with emit 2 st al show ?thesis unfolding step by simp
  qed
qed

lemma aligned_root: "aligned (mk_node 0 (next_power_of_two t))"
  using is_power_of_two_pos [OF next_power_of_two_pow, of t]
  by (simp add: aligned_def node_size_def)

lemma cover_at_tiles: "tiles 0 t (cover_at t alpha)" "blocks (cover_at t alpha)"
proof -
  have "tiles 0 t (cover_loop t alpha [(0, next_power_of_two t)] [])
    \<and> blocks (cover_loop t alpha [(0, next_power_of_two t)] [])"
    by (rule cover_loop_tiles [where a = 0 and R = "next_power_of_two t"])
      (use aligned_root next_power_of_two_ge is_power_of_two_pos [OF next_power_of_two_pow, of t]
       in auto)
  moreover from this have "cover_at t alpha = cover_loop t alpha [(0, next_power_of_two t)] []"
    unfolding cover_at_def by (metis sorted_sort_id tiles_sorted)
  ultimately show "tiles 0 t (cover_at t alpha)" "blocks (cover_at t alpha)" by auto
qed

subsection \<open>Growing to the budget\<close>

lemma split_at_tiles:
  assumes "tiles a b xs" "blocks xs" "i < length xs" "xs ! i = (l, h)" "1 < h - l"
  shows "tiles a b (take i xs @ [(l, (l + h) div 2), ((l + h) div 2, h)] @ drop (Suc i) xs)"
    and "blocks (take i xs @ [(l, (l + h) div 2), ((l + h) div 2, h)] @ drop (Suc i) xs)"
proof -
  have xs: "xs = take i xs @ (l, h) # drop (Suc i) xs"
    using assms(3,4) id_take_nth_drop [of i xs] by simp
  then have al: "aligned (mk_node l h)" and bl: "blocks (take i xs)" "blocks (drop (Suc i) xs)"
    using assms(2) by (metis blocks_simps(2,3))+
  note f = split_block_facts [OF al assms(5)]
  from assms(1) xs obtain c where "tiles a c (take i xs)" "tiles c b ((l, h) # drop (Suc i) xs)"
    by (metis tiles_append)
  with f show "tiles a b (take i xs @ [(l, (l + h) div 2), ((l + h) div 2, h)] @ drop (Suc i) xs)"
    by (auto simp: tiles_append)
  from f bl show "blocks (take i xs @ [(l, (l + h) div 2), ((l + h) div 2, h)] @ drop (Suc i) xs)"
    by simp
qed

lemma cover_grow_tiles:
  assumes "tiles a b out" "blocks out"
  shows "tiles a b (cover_grow budget out) \<and> blocks (cover_grow budget out)
    \<and> length (cover_grow budget out) = max (length out) (min budget (b - a))"
  using assms
proof (induction budget out rule: cover_grow.induct)
  case (1 budget out)
  note len = tiles_length [OF "1.prems"(1)]
  show ?case
  proof (cases "length out < budget")
    case False
    then show ?thesis using 1 len by (subst (1 2 3) cover_grow.simps) (auto simp: max_def)
  next
    case True
    show ?thesis
    proof (cases "rposition (\<lambda>(l, h). 1 < h - l) out")
      case None
      then have "length out = b - a"
        using tiles_all_leaves [OF "1.prems"(1)] by (auto simp: rposition_None)
      with True None 1 show ?thesis by (subst (1 2 3) cover_grow.simps) (auto simp: max_def min_def)
    next
      case (Some i)
      obtain l h where lh: "out ! i = (l, h)" by fastforce
      from rposition_Some [OF Some] lh have i: "i < length out" "1 < h - l" by auto
      let ?out = "take i out @ [(l, (l + h) div 2), ((l + h) div 2, h)] @ drop (Suc i) out"
      note t = split_at_tiles [OF "1.prems" i(1) lh i(2)]
      have eq: "cover_grow budget out = cover_grow budget ?out"
        using True Some lh by (subst cover_grow.simps) (simp add: Let_def)
      have "tiles a b (cover_grow budget ?out) \<and> blocks (cover_grow budget ?out)
        \<and> length (cover_grow budget ?out) = max (length ?out) (min budget (b - a))"
        using "1.IH" [OF True Some lh [symmetric] refl refl] t by auto
      moreover have "length ?out = Suc (length out)" using i by simp
      moreover have "Suc (length out) \<le> b - a" using tiles_length [OF t(1)] i by simp
      ultimately show ?thesis using eq True len by (simp add: max_def min_def)
    qed
  qed
qed

text \<open>The bisection keeps a bound that meets the budget, when the coarsest one does.\<close>

lemma bisect_within_budget:
  "length (cover_at t h) \<le> budget \<Longrightarrow> length (cover_at t (bisect t budget n l h)) \<le> budget"
  by (induction t budget n l h rule: bisect.induct) (auto simp: Let_def)

subsection \<open>What the cover promises\<close>

definition node_pair :: "node \<Rightarrow> nat \<times> nat" where
  "node_pair n = (node_lo n, node_hi n)"

definition tiling :: "nat \<Rightarrow> nat \<Rightarrow> node list \<Rightarrow> bool" where
  "tiling a b ns \<longleftrightarrow> tiles a b (map node_pair ns) \<and> list_all aligned ns"

lemma tiles_leaves: "a \<le> b \<Longrightarrow> tiles a b (map (\<lambda>i. (i, Suc i)) [a..<b])"
proof (induction "b - a" arbitrary: a)
  case (Suc d)
  then have "[a..<b] = a # [Suc a..<b]" by (simp add: upt_conv_Cons)
  with Suc show ?case by simp
qed simp

lemma tiling_leaves: "a \<le> b \<Longrightarrow> tiling a b (map node_leaf [a..<b])"
  by (auto simp: tiling_def node_pair_def comp_def tiles_leaves list_all_iff)

lemma node_pairs_of [simp]: "map node_pair (map (\<lambda>(l, h). mk_node l h) xs) = xs"
  by (induction xs) (auto simp: node_pair_def)

lemma cover_tiling: "tiling 0 t (cover t budget)"
proof -
  have "blocks xs \<Longrightarrow> list_all aligned (map (\<lambda>(l, h). mk_node l h) xs)" for xs
    by (induction xs) auto
  moreover have "tiles 0 t (cover_grow budget (cover_at t alpha))"
    "blocks (cover_grow budget (cover_at t alpha))" for alpha
    using cover_grow_tiles [OF cover_at_tiles] by auto
  ultimately show ?thesis
    using tiling_leaves [of 0 t] by (auto simp: cover_def tiling_def simp del: map_map)
qed

lemma cover_length:
  assumes "length (cover_at t 1) \<le> budget"
  shows "length (cover t budget) = min t budget"
proof -
  have "length (cover_at t (bisect t budget 60 0 1)) \<le> budget"
    by (rule bisect_within_budget [OF assms])
  moreover have "length (cover_grow budget (cover_at t alpha))
      = max (length (cover_at t alpha)) (min budget t)" for alpha
    using cover_grow_tiles [OF cover_at_tiles] by auto
  ultimately show ?thesis by (auto simp: cover_def min_def max_def)
qed

end
