(* ===== verification/Memory_Lines.thy ===== *)
theory Memory_Lines
  imports Memory_Cover
begin

section \<open>Entries and the lines that show them\<close>

text \<open>
  The chat log's entries (\<open>chat_memory/mod.rs\<close>), the printed lines of entries and blocks
  (\<open>tree.rs\<close>), the raw fallback excerpt (\<open>nap.rs\<close>) and the merging of neighbouring notices
  for unreadable entries (\<open>notice.rs\<close>). The tree of summaries is a map from nodes to text.
\<close>

datatype role = RoleUser | RoleAssistant | RoleWorker

fun role_str :: "role \<Rightarrow> string" where
  "role_str RoleUser = ''user''"
| "role_str RoleAssistant = ''assistant''"
| "role_str RoleWorker = ''worker''"

record entry =
  e_role :: role
  e_at :: string
  e_text :: string
  e_corrupt :: bool

type_synonym tree = "node \<rightharpoonup> string"

definition SUMMARY_BYTES :: nat where
  "SUMMARY_BYTES = 512"

definition UNAVAILABLE_MARK :: string where
  "UNAVAILABLE_MARK = ''[not summarized] ''"

definition FALLBACK_MARK :: string where
  "FALLBACK_MARK = ''[raw excerpt] ''"

definition CORRUPT_TEXT :: string where
  "CORRUPT_TEXT = ''[corrupt entry]''"

definition corrupt_entry :: entry where
  "corrupt_entry = \<lparr>e_role = RoleWorker, e_at = '''', e_text = CORRUPT_TEXT, e_corrupt = True\<rparr>"

subsection \<open>Lines\<close>

definition is_long :: "entry \<Rightarrow> bool" where
  "is_long e \<longleftrightarrow> SUMMARY_BYTES < length (e_text e)"

definition entry_line :: "nat \<Rightarrow> entry \<Rightarrow> string \<Rightarrow> string" where
  "entry_line i e body = ''#'' @ dec i @ '' '' @ role_str (e_role e) @ '' '' @ e_at e @ '' '' @ body"

definition leaf_line :: "nat \<Rightarrow> entry \<Rightarrow> tree \<Rightarrow> string option" where
  "leaf_line i e tree =
     (if is_long e then map_option (entry_line i e) (tree (node_leaf i))
      else Some (entry_line i e (collapse (e_text e))))"

definition block_line :: "tree \<Rightarrow> node \<Rightarrow> string option" where
  "block_line tree n = map_option (\<lambda>s. ''#'' @ node_id n @ '' '' @ s) (tree n)"

definition node_line :: "entry list \<Rightarrow> tree \<Rightarrow> node \<Rightarrow> string option" where
  "node_line entries tree n =
     (if node_size n = 1 then leaf_line (node_lo n) (entries ! node_lo n) tree
      else block_line tree n)"

definition fallback_summary :: "string \<Rightarrow> string" where
  "fallback_summary source =
     (let flat = collapse source;
          room = SUMMARY_BYTES - length FALLBACK_MARK;
          cut = boundary_at_most flat (min room (length flat))
      in FALLBACK_MARK @ trim_end (take cut flat))"

definition display_line :: "entry list \<Rightarrow> tree \<Rightarrow> node \<Rightarrow> string" where
  "display_line entries tree n =
     (case node_line entries tree n of
        Some line \<Rightarrow> line
      | None \<Rightarrow>
          (if node_size n = 1
           then (let e = entries ! node_lo n in entry_line (node_lo n) e (fallback_summary (e_text e)))
           else ''#'' @ node_id n @ '' '' @ UNAVAILABLE_MARK @ ''zoom '' @ node_id n @ '' for its parts''))"

text \<open>A line to show, or an unreadable entry of the given id.\<close>

datatype shown = Line string | Unreadable nat

definition shown_node :: "entry list \<Rightarrow> tree \<Rightarrow> node \<Rightarrow> shown" where
  "shown_node entries tree n =
     (if node_size n = 1 \<and> e_corrupt (entries ! node_lo n) then Unreadable (node_lo n)
      else Line (display_line entries tree n))"

subsection \<open>Notices\<close>

definition notice :: "nat \<Rightarrow> nat \<Rightarrow> string" where
  "notice a b =
     (if a = b then ''[#'' @ dec a @ '': unreadable log line, skipped]''
      else ''[#'' @ dec a @ ''-'' @ dec b @ '': unreadable log lines, skipped]'')"

text \<open>The loop of \<open>merge_notices\<close>; its state is the run of unreadable ids being merged.\<close>

fun merge_loop :: "(nat \<times> nat) option \<Rightarrow> shown list \<Rightarrow> string list" where
  "merge_loop None [] = []"
| "merge_loop (Some (a, b)) [] = [notice a b]"
| "merge_loop None (Unreadable i # xs) = merge_loop (Some (i, i)) xs"
| "merge_loop (Some (a, b)) (Unreadable i # xs) =
     (if b + 1 = i then merge_loop (Some (a, i)) xs
      else notice a b # merge_loop (Some (i, i)) xs)"
| "merge_loop None (Line l # xs) = l # merge_loop None xs"
| "merge_loop (Some (a, b)) (Line l # xs) = notice a b # l # merge_loop None xs"

definition merge_notices :: "shown list \<Rightarrow> string list" where
  "merge_notices xs = merge_loop None xs"

subsection \<open>Facts\<close>

text \<open>What a sequence of items means to a reader: each line, and each unreadable id.\<close>

definition run_ids :: "(nat \<times> nat) option \<Rightarrow> shown list" where
  "run_ids r = (case r of None \<Rightarrow> [] | Some (a, b) \<Rightarrow> map Unreadable [a..<Suc b])"

text \<open>
  A printed notice read back as the ids it stands for: \<open>lines_of ns\<close> prints a list whose
  notices are spelled \<open>Inr (first, last)\<close>, \<open>ids_of ns\<close> expands it.
\<close>

definition lines_of :: "(string + nat \<times> nat) list \<Rightarrow> string list" where
  "lines_of = map (\<lambda>x. case x of Inl l \<Rightarrow> l | Inr (a, b) \<Rightarrow> notice a b)"

definition ids_of :: "(string + nat \<times> nat) list \<Rightarrow> shown list" where
  "ids_of xs = concat (map (\<lambda>x. case x of Inl l \<Rightarrow> [Line l] | Inr (a, b) \<Rightarrow> map Unreadable [a..<Suc b]) xs)"

text \<open>No two neighbouring notices could have been one.\<close>

definition maximal_runs :: "(string + nat \<times> nat) list \<Rightarrow> bool" where
  "maximal_runs xs \<longleftrightarrow>
     neighbours (\<lambda>x y. case (x, y) of (Inr (a, b), Inr (c, d)) \<Rightarrow> c \<noteq> b + 1 | _ \<Rightarrow> True) xs
     \<and> (\<forall>a b. Inr (a, b) \<in> set xs \<longrightarrow> a \<le> b)"

lemma merge_loop_spec:
  assumes "\<And>a b. r = Some (a, b) \<Longrightarrow> a \<le> b"
  shows "\<exists>out. merge_loop r xs = lines_of out \<and> ids_of out = run_ids r @ xs \<and> maximal_runs out
    \<and> (\<forall>a b. r = Some (a, b) \<longrightarrow> (\<exists>c rest. out = Inr (a, c) # rest))"
  using assms
proof (induction r xs rule: merge_loop.induct)
  case 1
  show ?case by (rule exI [of _ "[]"]) (auto simp: lines_of_def ids_of_def run_ids_def maximal_runs_def)
next
  case (2 a b)
  then show ?case
    by (intro exI [of _ "[Inr (a, b)]"])
      (auto simp: lines_of_def ids_of_def run_ids_def maximal_runs_def)
next
  case (3 i xs)
  then obtain out where "merge_loop (Some (i, i)) xs = lines_of out"
    "ids_of out = run_ids (Some (i, i)) @ xs" "maximal_runs out" by auto
  then show ?case by (intro exI [of _ out]) (auto simp: run_ids_def)
next
  case (4 a b i xs)
  show ?case
  proof (cases "b + 1 = i")
    case True
    with 4 have "a \<le> i" by auto
    with 4 True obtain out c rest where out: "merge_loop (Some (a, i)) xs = lines_of out"
      "ids_of out = run_ids (Some (a, i)) @ xs" "maximal_runs out" "out = Inr (a, c) # rest" by auto
    have "run_ids (Some (a, i)) = run_ids (Some (a, b)) @ [Unreadable i]"
      using True "4.prems" by (auto simp: run_ids_def)
    with out True show ?thesis by (intro exI [of _ out]) auto
  next
    case False
    with 4 obtain out c rest where out: "merge_loop (Some (i, i)) xs = lines_of out"
      "ids_of out = run_ids (Some (i, i)) @ xs" "maximal_runs out" "out = Inr (i, c) # rest" by auto
    with False "4.prems" show ?thesis
      by (intro exI [of _ "Inr (a, b) # out"])
        (auto simp: lines_of_def ids_of_def run_ids_def maximal_runs_def)
  qed
next
  case (5 l xs)
  then obtain out where "merge_loop None xs = lines_of out" "ids_of out = xs" "maximal_runs out"
    by (auto simp: run_ids_def)
  then show ?case
    by (intro exI [of _ "Inl l # out"])
      (auto simp: lines_of_def ids_of_def run_ids_def maximal_runs_def neighbours_Cons)
next
  case (6 a b l xs)
  then obtain out where "merge_loop None xs = lines_of out" "ids_of out = xs" "maximal_runs out"
    by (auto simp: run_ids_def)
  with "6.prems" show ?case
    by (intro exI [of _ "Inr (a, b) # Inl l # out"])
      (auto simp: lines_of_def ids_of_def run_ids_def maximal_runs_def neighbours_Cons)
qed

text \<open>The printed lines are the items in order, each maximal run of consecutive unreadable
  ids printed as one notice; nothing is lost, repeated or reordered.\<close>

theorem merge_notices_spec:
  "\<exists>out. merge_notices xs = lines_of out \<and> ids_of out = xs \<and> maximal_runs out"
  using merge_loop_spec [of None xs] by (auto simp: merge_notices_def run_ids_def)

lemma fallback_summary_bound: "length (fallback_summary s) \<le> SUMMARY_BYTES"
proof -
  let ?f = "collapse s"
  let ?room = "SUMMARY_BYTES - length FALLBACK_MARK"
  let ?c = "boundary_at_most ?f (min ?room (length ?f))"
  have "length (trim_end (take ?c ?f)) \<le> ?c"
    using length_trim_end [of "take ?c ?f"] by simp
  also have "\<dots> \<le> ?room" using boundary_at_most_le [of ?f "min ?room (length ?f)"] by simp
  finally show ?thesis
    by (simp add: fallback_summary_def Let_def SUMMARY_BYTES_def FALLBACK_MARK_def)
qed

lemma fallback_summary_one_line:
  "CHR 0x0A \<notin> set (fallback_summary s)" "CHR 0x0D \<notin> set (fallback_summary s)"
proof -
  have "c \<notin> set (fallback_summary s)" if c: "c \<in> {CHR 0x0A, CHR 0x0D}" for c
  proof -
    have "c \<notin> set (trim_end (take n (collapse s)))" for n
      using c collapse_no_newline [of s] trim_end_subset [of "take n (collapse s)"]
      by (auto dest: in_set_takeD)
    with c show ?thesis by (auto simp: fallback_summary_def Let_def FALLBACK_MARK_def)
  qed
  then show "CHR 0x0A \<notin> set (fallback_summary s)" "CHR 0x0D \<notin> set (fallback_summary s)" by auto
qed

end
