(* ===== verification/Memory_Index.thy ===== *)
theory Memory_Index
  imports Bytes_LE Memory_Lines
begin

section \<open>Indexes over the JSONL files\<close>

text \<open>
  \<open>crates/core/src/chat_memory/index.rs\<close>, the line scanner it shares with \<open>log.rs\<close>, and
  \<open>refresh\<close>, \<open>rebuild\<close> and \<open>write_plan\<close> of \<open>archive.rs\<close> with \<open>persist\<close> of
  \<open>crates/ralph/src/chat/index_files.rs\<close>. The trait \<open>Slot\<close> is a record of its methods
  (\<open>slot_impl\<close>), passed to every operation; its contract is the locale \<open>slot\<close>, which both
  implementations interpret. File contents are byte strings; I/O errors are not modelled.
\<close>

subsection \<open>Lines\<close>

record line =
  line_start :: nat
  line_end :: nat

text \<open>The loop of \<open>scan_lines\<close> at byte \<open>i\<close>; \<open>cur\<close> is \<open>data[start..i]\<close>.\<close>

fun scan_loop :: "nat \<Rightarrow> nat \<Rightarrow> nat \<Rightarrow> string \<Rightarrow> string \<Rightarrow> line list" where
  "scan_loop base start i cur [] = []"
| "scan_loop base start i cur (b # bs) =
     (if b \<noteq> CHR 0x0A then scan_loop base start (i + 1) (cur @ [b]) bs
      else (if list_all is_ascii_ws cur then []
            else [\<lparr>line_start = base + start, line_end = base + i\<rparr>])
           @ scan_loop base (i + 1) (i + 1) [] bs)"

definition scan_lines :: "string \<Rightarrow> nat \<Rightarrow> line list" where
  "scan_lines data base = scan_loop base 0 0 [] data"

subsection \<open>Slots\<close>

record 's slot_impl =
  si_magic :: string
  si_bytes :: nat
  si_scan :: "string \<Rightarrow> line \<Rightarrow> 's option"
  si_start :: "'s \<Rightarrow> nat"
  si_write :: "'s \<Rightarrow> string"
  si_read :: "string \<Rightarrow> 's option"

definition log_slot :: "nat slot_impl" where
  "log_slot =
     \<lparr>si_magic = ''RLPHLOGX'', si_bytes = 8,
      si_scan = (\<lambda>bytes line. Some (line_start line)),
      si_start = (\<lambda>s. s),
      si_write = (\<lambda>s. le_bytes 8 s),
      si_read = (\<lambda>bytes. Some (le_val (take 8 bytes)))\<rparr>"

record node_slot =
  ns_node :: node
  ns_start :: nat
  ns_end :: nat

text \<open>
  \<open>serde_json::from_slice::<Record>\<close> is a parameter: the record's \<open>lo\<close> and \<open>hi\<close>, which are
  \<open>u64\<close> fields, and its text, or the parser's error message.
\<close>

type_synonym record_parser = "string \<Rightarrow> (64 word \<times> 64 word \<times> string) result"

definition node_slot_scan :: "record_parser \<Rightarrow> string \<Rightarrow> line \<Rightarrow> node_slot option" where
  "node_slot_scan from_json bytes line =
     (case from_json bytes of
        Inl e \<Rightarrow> None
      | Inr (l, h, text) \<Rightarrow> (case node_new (unat l) (unat h) of
            Inl e \<Rightarrow> None
          | Inr n \<Rightarrow> Some \<lparr>ns_node = n, ns_start = line_start line, ns_end = line_end line\<rparr>))"

definition node_slot_write :: "node_slot \<Rightarrow> string" where
  "node_slot_write s =
     concat (map (le_bytes 8) [node_lo (ns_node s), node_hi (ns_node s), ns_start s, ns_end s])"

definition node_slot_read :: "string \<Rightarrow> node_slot option" where
  "node_slot_read bytes =
     (let word = (\<lambda>k. le_val (take 8 (drop (8 * k) bytes)));
          l = word 0; h = word 1; start = word 2; fin = word 3
      in if \<not> start < fin then None
         else case node_new l h of
           Inl e \<Rightarrow> None
         | Inr n \<Rightarrow> Some \<lparr>ns_node = n, ns_start = start, ns_end = fin\<rparr>)"

definition tree_slot :: "record_parser \<Rightarrow> node_slot slot_impl" where
  "tree_slot from_json =
     \<lparr>si_magic = ''RLPHTREX'', si_bytes = 32,
      si_scan = node_slot_scan from_json, si_start = ns_start,
      si_write = node_slot_write, si_read = node_slot_read\<rparr>"

subsection \<open>The index\<close>

record 's index =
  ix_slots :: "'s list"
  ix_covered :: nat
  ix_tail :: nat
  ix_hash :: nat
  ix_skipped :: nat

definition VERSION :: nat where
  "VERSION = 3"

definition HEADER_BYTES :: nat where
  "HEADER_BYTES = 52"

definition fnv1a :: "string \<Rightarrow> nat" where
  "fnv1a bytes =
     foldl (\<lambda>h b. (xor h (of_char b) * 0x100000001b3) mod 2 ^ 64) 0xcbf29ce484222325 bytes"

definition index_default :: "'s index" where
  "index_default =
     \<lparr>ix_slots = [], ix_covered = 0, ix_tail = 0, ix_hash = fnv1a [], ix_skipped = 0\<rparr>"

text \<open>The body of the loop of \<open>extend\<close>, on the slots and the count of skipped lines.\<close>

definition scan_step ::
  "'s slot_impl \<Rightarrow> string \<Rightarrow> nat \<Rightarrow> 's list \<times> nat \<Rightarrow> line \<Rightarrow> 's list \<times> nat" where
  "scan_step impl data base st line =
     (case si_scan impl (slice data (line_start line - base) (line_end line - base)) line of
        Some s \<Rightarrow> (fst st @ [s], snd st)
      | None \<Rightarrow> (fst st, snd st + 1))"

definition index_extend :: "'s slot_impl \<Rightarrow> 's index \<Rightarrow> string \<Rightarrow> 's index" where
  "index_extend impl ix data =
     (let base = ix_covered ix;
          ls = scan_lines data base;
          (slots, skipped) = foldl (scan_step impl data base) (ix_slots ix, ix_skipped ix) ls;
          ix' = ix\<lparr>ix_slots := slots, ix_skipped := skipped\<rparr>
      in if ls = [] then ix'
         else (let l = last ls; covered = line_end l + 1
               in ix'\<lparr>ix_tail := line_start l, ix_covered := covered,
                      ix_hash := fnv1a (slice data (line_start l - base) (covered - base))\<rparr>))"

datatype freshness = Fresh | Extend | Rebuild

definition index_freshness :: "'s index \<Rightarrow> nat \<Rightarrow> string \<Rightarrow> freshness" where
  "index_freshness ix len tail =
     (if len < ix_covered ix \<or> fnv1a tail \<noteq> ix_hash ix then Rebuild
      else if len = ix_covered ix then Fresh else Extend)"

subsection \<open>Encoding\<close>

definition encode_header :: "'s slot_impl \<Rightarrow> 's index \<Rightarrow> string" where
  "encode_header impl ix =
     si_magic impl @ le_bytes 4 VERSION
     @ concat (map (le_bytes 8)
         [ix_covered ix, ix_tail ix, ix_hash ix, ix_skipped ix, length (ix_slots ix)])"

definition encode_slots :: "'s slot_impl \<Rightarrow> 's index \<Rightarrow> nat \<Rightarrow> string" where
  "encode_slots impl ix from = concat (map (si_write impl) (drop from (ix_slots ix)))"

definition index_encode :: "'s slot_impl \<Rightarrow> 's index \<Rightarrow> string" where
  "index_encode impl ix = encode_header impl ix @ encode_slots impl ix 0"

definition slot_offset :: "'s slot_impl \<Rightarrow> nat \<Rightarrow> nat" where
  "slot_offset impl n = HEADER_BYTES + n * si_bytes impl"

fun chunks :: "nat \<Rightarrow> nat \<Rightarrow> string \<Rightarrow> string list" where
  "chunks w 0 s = []"
| "chunks w (Suc n) s = take w s # chunks w n (drop w s)"

text \<open>\<open>collect::<Option<Vec<_>>>()\<close>.\<close>

fun collect_options :: "'a option list \<Rightarrow> 'a list option" where
  "collect_options [] = Some []"
| "collect_options (None # xs) = None"
| "collect_options (Some x # xs) = map_option ((#) x) (collect_options xs)"

definition index_decode :: "'s slot_impl \<Rightarrow> string \<Rightarrow> 's index option" where
  "index_decode impl bytes =
     (if length bytes < HEADER_BYTES \<or> take 8 bytes \<noteq> si_magic impl then None
      else if le_val (take 4 (drop 8 bytes)) \<noteq> VERSION then None
      else
        (let word = (\<lambda>k. le_val (take 8 (drop (12 + 8 * k) bytes)));
             covered = word 0; tail = word 1; hash = word 2; skipped = word 3; count = word 4;
             body = drop HEADER_BYTES bytes
         in case checked_mul count (si_bytes impl) of
              None \<Rightarrow> None
            | Some need \<Rightarrow>
                if length body \<noteq> need then None
                else (case collect_options (map (si_read impl)
                        (chunks (si_bytes impl) (length body div si_bytes impl) body)) of
                    None \<Rightarrow> None
                  | Some slots \<Rightarrow>
                      (let ordered = neighbours (\<lambda>a b. si_start impl a < si_start impl b) slots;
                           inside = (slots = [] \<or> si_start impl (last slots) \<le> tail);
                           tail_ok = (tail < covered \<or> (tail, covered) = (0, 0))
                       in if ordered \<and> inside \<and> tail_ok
                          then Some \<lparr>ix_slots = slots, ix_covered = covered, ix_tail = tail,
                                     ix_hash = hash, ix_skipped = skipped\<rparr>
                          else None))))"

subsection \<open>Refreshing and writing\<close>

datatype refresh = RFresh | Extended nat | Rebuilt

definition index_rebuild :: "'s slot_impl \<Rightarrow> string \<Rightarrow> 's index \<times> refresh" where
  "index_rebuild impl file = (index_extend impl index_default file, Rebuilt)"

definition index_refresh :: "'s slot_impl \<Rightarrow> 's index option \<Rightarrow> string \<Rightarrow> 's index \<times> refresh" where
  "index_refresh impl stored file =
     (let size = length file
      in case stored of
           None \<Rightarrow> index_rebuild impl file
         | Some ix \<Rightarrow>
             (let fin = min (ix_covered ix) size;
                  tail = slice file (min (ix_tail ix) fin) fin
              in case index_freshness ix size tail of
                   Fresh \<Rightarrow> (ix, RFresh)
                 | Rebuild \<Rightarrow> index_rebuild impl file
                 | Extend \<Rightarrow>
                     (let ix' = index_extend impl ix (slice file (ix_covered ix) size)
                      in (ix', if encode_header impl ix' \<noteq> encode_header impl ix
                               then Extended (length (ix_slots ix)) else RFresh))))"

datatype index_write = Keep | InPlace nat string string | Replace string

definition write_plan :: "'s slot_impl \<Rightarrow> 's index \<Rightarrow> refresh \<Rightarrow> index_write" where
  "write_plan impl ix how =
     (case how of
        RFresh \<Rightarrow> Keep
      | Extended from \<Rightarrow> InPlace (slot_offset impl from) (encode_slots impl ix from) (encode_header impl ix)
      | Rebuilt \<Rightarrow> Replace (index_encode impl ix))"

text \<open>\<open>persist\<close>: what the index file holds after the write.\<close>

definition persist :: "index_write \<Rightarrow> string \<Rightarrow> string" where
  "persist w disk =
     (case w of
        Keep \<Rightarrow> disk
      | InPlace pos body header \<Rightarrow> write_at 0 header (write_at pos body disk)
      | Replace bytes \<Rightarrow> bytes)"

subsection \<open>Lookups\<close>

definition log_span :: "nat index \<Rightarrow> nat \<Rightarrow> nat \<Rightarrow> (nat \<times> nat) option" where
  "log_span ix from to =
     (if to \<le> from \<or> length (ix_slots ix) < to then None
      else Some (ix_slots ix ! from,
                 if to < length (ix_slots ix) then ix_slots ix ! to else ix_covered ix))"

definition tree_warning :: "node_slot index \<Rightarrow> string option" where
  "tree_warning ix =
     (if 0 < ix_skipped ix then Some (''chat tree: '' @ dec (ix_skipped ix) @ '' records skipped'')
      else None)"

text \<open>The loop of \<open>find\<close>; \<open>left\<close> is the set of nodes still wanted.\<close>

fun find_slots :: "node set \<Rightarrow> node_slot list \<Rightarrow> node_slot list" where
  "find_slots left [] = []"
| "find_slots left (s # ss) =
     (if left = {} then []
      else if ns_node s \<in> left then s # find_slots (left - {ns_node s}) ss
      else find_slots left ss)"

definition index_find :: "node_slot index \<Rightarrow> node list \<Rightarrow> node_slot list" where
  "index_find ix wanted = find_slots (set wanted) (ix_slots ix)"

end
