(* ===== verification/Memory_Index_Facts.thy ===== *)
theory Memory_Index_Facts
  imports Memory_Index
begin

section \<open>The index describes its file\<close>

text \<open>
  The contract of the \<open>Slot\<close> trait is the locale \<open>slot\<close>; inside it: extending an index of a
  prefix gives the index of the whole file, a saved index is read back unchanged, a refreshed
  index is the index of the file, and a crash while it is written in place never leaves a file
  that decodes to anything but the old or the new index. Both implementations interpret it.
\<close>

subsection \<open>Scanning lines\<close>

lemma scan_loop_shift:
  "scan_loop base (start + d) (i + d) cur bs = scan_loop (base + d) start i cur bs"
proof (induction base start i cur bs arbitrary: rule: scan_loop.induct)
  case (2 base start i cur b bs)
  have "scan_loop base (i + d + 1) (i + d + 1) [] bs = scan_loop (base + d) (i + 1) (i + 1) [] bs"
    if "b = CHR 0x0A"
    using 2(2) that by (simp add: ac_simps)
  with 2(1) show ?case by (simp add: ac_simps)
qed simp

lemma scan_loop_append:
  assumes "xs = [] \<Longrightarrow> cur = []" "xs \<noteq> [] \<Longrightarrow> last xs = CHR 0x0A" "i = start + length cur"
  shows "scan_loop base start i cur (xs @ ys)
    = scan_loop base start i cur xs @ scan_loop base (i + length xs) (i + length xs) [] ys"
  using assms
proof (induction xs arbitrary: start i cur)
  case (Cons b xs)
  show ?case
  proof (cases "b = CHR 0x0A")
    case True
    have "scan_loop base (i + 1) (i + 1) [] (xs @ ys) = scan_loop base (i + 1) (i + 1) [] xs
        @ scan_loop base (i + 1 + length xs) (i + 1 + length xs) [] ys"
      by (rule Cons.IH) (use Cons.prems in auto)
    then show ?thesis using True by simp
  next
    case False
    then have ne: "xs \<noteq> []" using Cons.prems(2) by auto
    have "scan_loop base start (i + 1) (cur @ [b]) (xs @ ys) = scan_loop base start (i + 1) (cur @ [b]) xs
        @ scan_loop base (i + 1 + length xs) (i + 1 + length xs) [] ys"
      by (rule Cons.IH) (use ne Cons.prems in auto)
    then show ?thesis using False by simp
  qed
qed simp

lemma scan_lines_append:
  assumes "xs = [] \<or> last xs = CHR 0x0A"
  shows "scan_lines (xs @ ys) base = scan_lines xs base @ scan_lines ys (base + length xs)"
  using scan_loop_append [of xs "[]" 0 0 base ys] assms scan_loop_shift [of base 0 "length xs" 0 "[]" ys]
  by (auto simp: scan_lines_def)

lemma scan_loop_bounds:
  assumes "l \<in> set (scan_loop base start i cur bs)" "i = start + length cur"
  shows "base + start \<le> line_start l \<and> line_start l < line_end l
    \<and> base + i \<le> line_end l \<and> line_end l < base + i + length bs
    \<and> bs ! (line_end l - base - i) = CHR 0x0A"
  using assms
proof (induction base start i cur bs rule: scan_loop.induct)
  case (2 base start i cur b bs)
  show ?case
  proof (cases "b = CHR 0x0A")
    case True
    then consider (here) "\<not> list_all is_ascii_ws cur" "l = \<lparr>line_start = base + start, line_end = base + i\<rparr>"
      | (later) "l \<in> set (scan_loop base (i + 1) (i + 1) [] bs)"
      using "2.prems"(1) by (auto split: if_splits)
    then show ?thesis
    proof cases
      case here
      then have "cur \<noteq> []" by auto
      with here True "2.prems"(2) show ?thesis by simp
    next
      case later
      from "2.IH"(2) [OF _ later] True have l: "base + (i + 1) \<le> line_start l" "line_start l < line_end l"
        "base + (i + 1) \<le> line_end l" "line_end l < base + (i + 1) + length bs"
        "bs ! (line_end l - base - (i + 1)) = CHR 0x0A" by auto
      then have "line_end l - base - i = Suc (line_end l - base - (i + 1))" by simp
      with l "2.prems"(2) show ?thesis by simp
    qed
  next
    case False
    then have "l \<in> set (scan_loop base start (i + 1) (cur @ [b]) bs)" using "2.prems" by simp
    from "2.IH"(1) [OF False this] "2.prems"(2) have l: "base + start \<le> line_start l" "line_start l < line_end l"
      "base + (i + 1) \<le> line_end l" "line_end l < base + (i + 1) + length bs"
      "bs ! (line_end l - base - (i + 1)) = CHR 0x0A" by auto
    then have "line_end l - base - i = Suc (line_end l - base - (i + 1))" by simp
    with l show ?thesis by simp
  qed
qed simp

lemma scan_lines_bounds:
  assumes "l \<in> set (scan_lines data base)"
  shows "base \<le> line_start l" "line_start l < line_end l" "line_end l < base + length data"
    and "data ! (line_end l - base) = CHR 0x0A"
  using scan_loop_bounds [OF assms [unfolded scan_lines_def]] by auto

lemma scan_loop_ordered:
  "i = start + length cur \<Longrightarrow> neighbours (\<lambda>a b. line_end a < line_start b) (scan_loop base start i cur bs)"
proof (induction base start i cur bs rule: scan_loop.induct)
  case (2 base start i cur b bs)
  have "\<lbrakk>l \<in> set (scan_loop base (i + 1) (i + 1) [] bs)\<rbrakk> \<Longrightarrow> base + i < line_start l" for l
    using scan_loop_bounds [of l base "i + 1" "i + 1" "[]" bs] by auto
  with 2 show ?case by (auto simp: neighbours_Cons)
qed simp

lemma scan_lines_ordered: "neighbours (\<lambda>a b. line_end a < line_start b) (scan_lines data base)"
  by (simp add: scan_lines_def scan_loop_ordered)

text \<open>Past the end of the last line of \<open>a\<close> there is no line of \<open>a\<close>; what is appended is scanned anew.\<close>

lemma scan_lines_resume:
  assumes "scan_lines a 0 \<noteq> []"
  defines "c \<equiv> line_end (last (scan_lines a 0)) + 1"
  shows "c \<le> length a" "scan_lines (a @ b) 0 = scan_lines a 0 @ scan_lines (drop c (a @ b)) c"
proof -
  let ?l = "last (scan_lines a 0)"
  have in_a: "?l \<in> set (scan_lines a 0)" using assms(1) by simp
  note bd = scan_lines_bounds [OF in_a]
  then show c: "c \<le> length a" by (simp add: c_def)
  have "last (take c a) = CHR 0x0A"
    using bd c by (simp add: c_def last_conv_nth take_Suc_conv_app_nth)
  then have split: "scan_lines (take c a @ ys) 0 = scan_lines (take c a) 0 @ scan_lines ys c" for ys
    using scan_lines_append [of "take c a" ys 0] c by (simp add: min_def)
  have "scan_lines (drop c a) c = []"
  proof (rule ccontr)
    assume ne: "scan_lines (drop c a) c \<noteq> []"
    then have "?l \<in> set (scan_lines (drop c a) c)"
      using split [of "drop c a"] by (simp add: last_in_set)
    then have "c \<le> line_start ?l" by (rule scan_lines_bounds(1))
    with bd(2) show False by (simp add: c_def)
  qed
  then have "scan_lines (take c a) 0 = scan_lines a 0" using split [of "drop c a"] by simp
  moreover have "a @ b = take c a @ drop c (a @ b)" using c by simp
  ultimately show "scan_lines (a @ b) 0 = scan_lines a 0 @ scan_lines (drop c (a @ b)) c"
    using split by metis
qed

subsection \<open>The index of a file\<close>

definition index_of :: "'s slot_impl \<Rightarrow> string \<Rightarrow> 's index" where
  "index_of impl file = index_extend impl index_default file"

text \<open>The slots and the skip count after scanning lines of a file, by file offsets.\<close>

lemma scan_step_offset:
  assumes "c \<le> line_start l"
  shows "scan_step impl (drop c file) c st l = scan_step impl file 0 st l"
  using assms by (simp add: scan_step_def slice_drop)

lemma foldl_scan_step_offset:
  assumes "\<And>l. l \<in> set ls \<Longrightarrow> c \<le> line_start l"
  shows "foldl (scan_step impl (drop c file) c) st ls = foldl (scan_step impl file 0) st ls"
  using assms by (induction ls arbitrary: st) (simp_all add: scan_step_offset)

lemma foldl_scan_step_prefix:
  assumes "\<And>l. l \<in> set ls \<Longrightarrow> line_end l \<le> length a"
  shows "foldl (scan_step impl (a @ b) 0) st ls = foldl (scan_step impl a 0) st ls"
  using assms by (induction ls arbitrary: st) (simp_all add: scan_step_def slice_append_left)

text \<open>\<open>extend\<close> on an index that starts at \<open>covered\<close>, with the last line read off.\<close>

lemma index_extend_Nil:
  "scan_lines data (ix_covered ix) = [] \<Longrightarrow> index_extend impl ix data = ix"
  by (simp add: index_extend_def)

lemma index_extend_Cons:
  assumes "scan_lines (drop (ix_covered ix) file) (ix_covered ix) = ls" "ls \<noteq> []"
  shows "index_extend impl ix (drop (ix_covered ix) file) =
    \<lparr>ix_slots = fst (foldl (scan_step impl file 0) (ix_slots ix, ix_skipped ix) ls),
     ix_covered = line_end (last ls) + 1, ix_tail = line_start (last ls),
     ix_hash = fnv1a (slice file (line_start (last ls)) (line_end (last ls) + 1)),
     ix_skipped = snd (foldl (scan_step impl file 0) (ix_slots ix, ix_skipped ix) ls)\<rparr>"
proof -
  have c: "ix_covered ix \<le> line_start l" if "l \<in> set ls" for l
    using that assms(1) scan_lines_bounds(1) by blast
  then have "foldl (scan_step impl (drop (ix_covered ix) file) (ix_covered ix)) st ls
      = foldl (scan_step impl file 0) st ls" for st
    by (rule foldl_scan_step_offset)
  moreover have "slice (drop (ix_covered ix) file) (line_start (last ls) - ix_covered ix)
      (line_end (last ls) + 1 - ix_covered ix) = slice file (line_start (last ls)) (line_end (last ls) + 1)"
    using c [of "last ls"] assms(2) by (simp add: slice_drop)
  ultimately show ?thesis
    using assms by (simp add: index_extend_def Let_def split: prod.splits)
qed

lemma index_of_eq:
  fixes impl :: "'s slot_impl"
  shows "index_of impl file =
    (let ls = scan_lines file 0 in
     if ls = [] then index_default
     else \<lparr>ix_slots = fst (foldl (scan_step impl file 0) ([], 0) ls),
       ix_covered = line_end (last ls) + 1, ix_tail = line_start (last ls),
       ix_hash = fnv1a (slice file (line_start (last ls)) (line_end (last ls) + 1)),
       ix_skipped = snd (foldl (scan_step impl file 0) ([], 0) ls)\<rparr>)"
proof -
  let ?ix = "index_default :: 's index"
  have "drop (ix_covered ?ix) file = file" "ix_covered ?ix = 0" "ix_slots ?ix = []" "ix_skipped ?ix = 0"
    by (simp_all add: index_default_def)
  with index_extend_Cons [of ?ix "file" "scan_lines file 0" impl] index_extend_Nil [of "file" ?ix impl]
  show ?thesis by (auto simp: index_of_def Let_def)
qed

lemma index_of_covered: "ix_covered (index_of impl a) \<le> length a"
  using scan_lines_resume(1) [of a] by (auto simp: index_of_eq Let_def index_default_def)

lemma index_extend_prefix:
  "index_extend impl (index_of impl a) (drop (ix_covered (index_of impl a)) (a @ b))
   = index_of impl (a @ b)"
proof (cases "scan_lines a 0 = []")
  case True
  then have "index_of impl a = index_default" by (simp add: index_of_eq Let_def)
  then show ?thesis by (simp add: index_of_def index_default_def)
next
  case False
  let ?ls = "scan_lines a 0" and ?ix = "index_of impl a"
  have c: "ix_covered ?ix = line_end (last ?ls) + 1"
    using False by (simp add: index_of_eq Let_def)
  note res = scan_lines_resume(2) [OF False, of b, folded c]
  have pre: "foldl (scan_step impl (a @ b) 0) st ?ls = foldl (scan_step impl a 0) st ?ls" for st
    by (rule foldl_scan_step_prefix) (use scan_lines_bounds(3) [of _ a 0] in fastforce)
  let ?new = "scan_lines (drop (ix_covered ?ix) (a @ b)) (ix_covered ?ix)"
  show ?thesis
  proof (cases "?new = []")
    case True
    then have eq: "scan_lines (a @ b) 0 = ?ls" using res by simp
    have "slice (a @ b) (line_start (last ?ls)) (line_end (last ?ls) + 1)
        = slice a (line_start (last ?ls)) (line_end (last ?ls) + 1)"
      using scan_lines_resume(1) [OF False] by (intro slice_append_left) simp
    with True pre False show ?thesis
      by (simp add: index_extend_Nil) (simp add: index_of_eq eq Let_def)
  next
    case ne: False
    have st: "(ix_slots ?ix, ix_skipped ?ix) = foldl (scan_step impl (a @ b) 0) ([], 0) ?ls"
      using False pre by (simp add: index_of_eq Let_def)
    show ?thesis
      unfolding index_extend_Cons [OF refl ne] st index_of_eq [of impl "a @ b"] res
      using ne by (simp add: Let_def foldl_append)
  qed
qed

subsection \<open>Well-formed indexes\<close>

definition index_wf :: "'s slot_impl \<Rightarrow> ('s \<Rightarrow> bool) \<Rightarrow> 's index \<Rightarrow> bool" where
  "index_wf impl valid ix \<longleftrightarrow>
     list_all valid (ix_slots ix)
     \<and> sorted_wrt (\<lambda>a b. si_start impl a < si_start impl b) (ix_slots ix)
     \<and> (ix_slots ix = [] \<or> si_start impl (last (ix_slots ix)) \<le> ix_tail ix)
     \<and> (ix_tail ix < ix_covered ix \<or> (ix_tail ix, ix_covered ix) = (0, 0))
     \<and> ix_covered ix \<le> u64_max \<and> ix_tail ix \<le> u64_max \<and> ix_hash ix \<le> u64_max
     \<and> ix_skipped ix \<le> u64_max \<and> length (ix_slots ix) * si_bytes impl \<le> u64_max"

lemma foldl_scan_step:
  "foldl (scan_step impl data base) (ss, k) ls =
     (ss @ List.map_filter (\<lambda>l. si_scan impl (slice data (line_start l - base) (line_end l - base)) l) ls,
      k + length (filter (\<lambda>l. si_scan impl (slice data (line_start l - base) (line_end l - base)) l = None) ls))"
  by (induction ls arbitrary: ss k) (auto simp: scan_step_def List.map_filter_simps split: option.splits)

lemma map_filter_sorted:
  assumes "sorted_wrt (\<lambda>a b. p a < (p b :: nat)) xs"
    and "\<And>x y. x \<in> set xs \<Longrightarrow> f x = Some y \<Longrightarrow> q y = p x"
  shows "sorted_wrt (\<lambda>a b. q a < q b) (List.map_filter f xs)"
  using assms
proof (induction xs)
  case (Cons x xs)
  have mem: "\<exists>x\<in>set xs. f x = Some y" if "y \<in> set (List.map_filter f xs)" for y
    using that by (auto simp: List.map_filter_def)
  have "sorted_wrt (\<lambda>a b. q a < q b) (List.map_filter f xs)" using Cons by simp
  moreover have "q z < q y" if fz: "f x = Some z" and y: "y \<in> set (List.map_filter f xs)" for y z
  proof -
    obtain x' where x': "x' \<in> set xs" "f x' = Some y" using mem [OF y] by blast
    then have "q y = p x'" "q z = p x" using fz Cons.prems(2) by simp_all
    with x' Cons.prems(1) show ?thesis by simp
  qed
  ultimately show ?case by (auto simp: List.map_filter_simps split: option.splits)
qed (simp add: List.map_filter_simps)

lemma scan_lines_sorted: "sorted_wrt (\<lambda>a b. line_start a < line_start b) (scan_lines data base)"
proof -
  have "neighbours (\<lambda>a b. line_start a < line_start b) ls"
    if "neighbours (\<lambda>a b. line_end a < line_start b) ls" "\<forall>l\<in>set ls. line_start l < line_end l" for ls
    using that by (induction ls rule: induct_list012) (auto simp: neighbours_Cons)
  from this [OF scan_lines_ordered] show ?thesis
    using scan_lines_bounds(2) by (subst neighbours_sorted_wrt [symmetric]) (auto intro!: transpI)
qed

lemma scan_lines_count: "2 * length (scan_lines data base) \<le> length data"
proof -
  have "2 * length (scan_loop base start i cur bs) \<le> length cur + length bs" for start i cur bs
  proof (induction base start i cur bs rule: scan_loop.induct)
    case (2 base start i cur b bs)
    show ?case
    proof (cases "b = CHR 0x0A \<and> cur \<noteq> []")
      case True
      then have "1 \<le> length cur" by (cases cur) auto
      with True 2(2) show ?thesis by auto
    next
      case False
      with 2 show ?thesis by auto
    qed
  qed simp
  then show ?thesis by (simp add: scan_lines_def) (metis add_0 list.size(3))
qed

lemma fnv1a_bound: "fnv1a bytes \<le> u64_max"
proof -
  have "foldl (\<lambda>h b. (xor h (of_char b) * 0x100000001b3) mod 2 ^ 64) h bytes < (2 ^ 64 :: nat)"
    if "h < 2 ^ 64" for h
    using that by (induction bytes arbitrary: h) simp_all
  from this [of "0xcbf29ce484222325"] show ?thesis by (simp add: fnv1a_def u64_max_def)
qed

lemma chunks_concat:
  "list_all (\<lambda>x. length x = w) xs \<Longrightarrow> chunks w (length xs) (concat xs) = xs"
  by (induction xs) auto

lemma collect_options_Some: "list_all (\<lambda>x. f x = Some (g x)) xs \<Longrightarrow> collect_options (map f xs) = Some (map g xs)"
  by (induction xs) auto

lemma length_concat_const: "list_all (\<lambda>x. length x = w) xs \<Longrightarrow> length (concat xs) = length xs * w"
  by (induction xs) auto

lemma length_header: "length (si_magic impl) = 8 \<Longrightarrow> length (encode_header impl ix) = HEADER_BYTES"
  by (simp add: encode_header_def HEADER_BYTES_def)

text \<open>\<open>refresh\<close> against a stored index of an earlier prefix of the file.\<close>

lemma index_of_tail:
  "ix_tail (index_of impl a) \<le> ix_covered (index_of impl a)"
  "ix_hash (index_of impl a) = fnv1a (slice a (ix_tail (index_of impl a)) (ix_covered (index_of impl a)))"
proof -
  have "line_start (last (scan_lines a 0)) < line_end (last (scan_lines a 0))" if "scan_lines a 0 \<noteq> []"
    using scan_lines_bounds(2) last_in_set [OF that] by blast
  then show "ix_tail (index_of impl a) \<le> ix_covered (index_of impl a)"
    "ix_hash (index_of impl a) = fnv1a (slice a (ix_tail (index_of impl a)) (ix_covered (index_of impl a)))"
    by (auto simp: index_of_eq Let_def index_default_def slice_def)
qed

lemma refresh_append:
  fixes impl :: "'s slot_impl" and a b :: string
  defines "ix \<equiv> index_of impl a" and "ix' \<equiv> index_of impl (a @ b)"
  shows "index_refresh impl (Some ix) (a @ b) =
    (ix', if length (a @ b) \<noteq> ix_covered ix \<and> encode_header impl ix' \<noteq> encode_header impl ix
          then Extended (length (ix_slots ix)) else RFresh)"
proof -
  have c: "ix_covered ix \<le> length a" by (simp add: ix_def index_of_covered)
  have tail: "slice (a @ b) (ix_tail ix) (ix_covered ix) = slice a (ix_tail ix) (ix_covered ix)"
    by (rule slice_append_left [OF c])
  have ext: "index_extend impl ix (drop (ix_covered ix) (a @ b)) = ix'"
    by (simp only: ix_def ix'_def index_extend_prefix)
  have sl: "slice (a @ b) (ix_covered ix) (length (a @ b)) = drop (ix_covered ix) (a @ b)"
    by (simp add: slice_def)
  show ?thesis
  proof (cases "length (a @ b) = ix_covered ix")
    case True
    then have "drop (ix_covered ix) (a @ b) = []" by simp
    then have "ix' = ix" using ext by (simp add: index_extend_Nil scan_lines_def)
    then show ?thesis
      using True c tail index_of_tail [of impl a]
      by (simp add: index_refresh_def index_freshness_def Let_def flip: ix_def)
  next
    case False
    then show ?thesis
      using c tail index_of_tail [of impl a] ext sl
      by (simp add: index_refresh_def index_freshness_def Let_def min_absorb1 flip: ix_def)
  qed
qed

lemma index_of_append_slots:
  "\<exists>added. ix_slots (index_of impl (a @ b)) = ix_slots (index_of impl a) @ added"
proof -
  let ?ix = "index_of impl a"
  have "\<exists>added. ix_slots (index_extend impl ix data) = ix_slots ix @ added" for ix data
    by (auto simp: index_extend_def Let_def foldl_scan_step split: prod.splits)
  then show ?thesis by (metis index_extend_prefix)
qed

subsection \<open>Crashes\<close>

text \<open>
  What the index file can hold when the process dies while \<open>persist\<close> runs: \<open>InPlace\<close> writes the
  body and then the header byte by byte, \<open>Replace\<close> writes another file and renames it.
\<close>

definition torn_states :: "index_write \<Rightarrow> string \<Rightarrow> string list" where
  "torn_states w disk =
     (case w of
        Keep \<Rightarrow> [disk]
      | InPlace pos body header \<Rightarrow>
          map (\<lambda>k. write_at pos (take k body) disk) [0..<length body + 1]
          @ map (\<lambda>k. write_at 0 (take k header) (write_at pos body disk)) [0..<length header + 1]
      | Replace bytes \<Rightarrow> [disk, bytes])"

subsection \<open>The contract of a slot\<close>

locale slot =
  fixes impl :: "'s slot_impl" and valid :: "'s \<Rightarrow> bool"
  assumes magic_length: "length (si_magic impl) = 8"
    and bytes_pos: "0 < si_bytes impl"
    and write_length: "valid s \<Longrightarrow> length (si_write impl s) = si_bytes impl"
    and read_write: "valid s \<Longrightarrow> si_read impl (si_write impl s) = Some s"
    and scan_start: "si_scan impl bs l = Some s \<Longrightarrow> si_start impl s = line_start l"
    and scan_valid: "\<lbrakk>si_scan impl bs l = Some s; line_start l < line_end l; line_end l \<le> u64_max\<rbrakk> \<Longrightarrow> valid s"
begin

lemma header_bytes: "length (encode_header impl ix) = HEADER_BYTES"
  by (simp add: length_header magic_length)

lemma writes_length: "list_all valid ss \<Longrightarrow> list_all (\<lambda>x. length x = si_bytes impl) (map (si_write impl) ss)"
  by (induction ss) (auto simp: write_length)

lemma body_length: "list_all valid ss \<Longrightarrow> length (concat (map (si_write impl) ss)) = length ss * si_bytes impl"
  using length_concat_const [OF writes_length] by simp

text \<open>What \<open>decode\<close> makes of a header of five words followed by the slots \<open>ss\<close>.\<close>

lemma decode_words:
  assumes ws: "length c = 8" "length t = 8" "length h = 8" "length k = 8" "length n = 8"
    and ss: "list_all valid ss"
  shows "index_decode impl (si_magic impl @ le_bytes 4 VERSION @ c @ t @ h @ k @ n @ concat (map (si_write impl) ss)) =
    (if le_val n = length ss \<and> length ss * si_bytes impl \<le> u64_max
        \<and> neighbours (\<lambda>a b. si_start impl a < si_start impl b) ss
        \<and> (ss = [] \<or> si_start impl (last ss) \<le> le_val t)
        \<and> (le_val t < le_val c \<or> (le_val t, le_val c) = (0, 0))
     then Some \<lparr>ix_slots = ss, ix_covered = le_val c, ix_tail = le_val t, ix_hash = le_val h, ix_skipped = le_val k\<rparr>
     else None)"
proof -
  let ?body = "concat (map (si_write impl) ss)"
  let ?bytes = "si_magic impl @ le_bytes 4 VERSION @ c @ t @ h @ k @ n @ ?body"
  have body: "drop HEADER_BYTES ?bytes = ?body" and len: "\<not> length ?bytes < HEADER_BYTES"
    using ws by (simp_all add: HEADER_BYTES_def magic_length)
  have v: "le_val (le_bytes 4 VERSION) = VERSION" by (rule le_val_le_bytes) (simp add: VERSION_def)
  have lb: "length ?body = length ss * si_bytes impl" by (rule body_length [OF ss])
  then have dv: "length ?body div si_bytes impl = length ss" using bytes_pos by simp
  have ch: "chunks (si_bytes impl) (length ss) ?body = map (si_write impl) ss"
    using chunks_concat [OF writes_length [OF ss]] by simp
  have col: "collect_options (map (si_read impl) (map (si_write impl) ss)) = Some ss"
    using collect_options_Some [of "\<lambda>s. si_read impl (si_write impl s)" "\<lambda>s. s" ss] ss read_write
    by (simp add: comp_def list.pred_set)
  have need: "(case checked_mul (le_val n) (si_bytes impl) of None \<Rightarrow> None
      | Some m \<Rightarrow> if length ?body \<noteq> m then None else Q) =
      (if le_val n = length ss \<and> length ss * si_bytes impl \<le> u64_max then Q else None)" for Q :: "'s index option"
    using bytes_pos by (auto simp: checked_mul_def lb)
  have hd: "take 8 ?bytes = si_magic impl" "take 4 (drop 8 ?bytes) = le_bytes 4 VERSION"
    by (simp_all add: magic_length)
  have w: "take 8 (drop (12 + 8 * 0) ?bytes) = c" "take 8 (drop (12 + 8 * 1) ?bytes) = t"
    "take 8 (drop (12 + 8 * 2) ?bytes) = h" "take 8 (drop (12 + 8 * 3) ?bytes) = k"
    "take 8 (drop (12 + 8 * 4) ?bytes) = n"
    using ws by (simp_all add: magic_length)
  show ?thesis
    unfolding index_decode_def Let_def body hd v w need dv ch col
    using len by simp
qed

lemma header_words:
  "encode_header impl ix = si_magic impl @ le_bytes 4 VERSION @ le_bytes 8 (ix_covered ix)
     @ le_bytes 8 (ix_tail ix) @ le_bytes 8 (ix_hash ix) @ le_bytes 8 (ix_skipped ix)
     @ le_bytes 8 (length (ix_slots ix))"
  by (simp add: encode_header_def)

lemma wf_count: "index_wf impl valid ix \<Longrightarrow> length (ix_slots ix) < 256 ^ 8"
proof -
  assume "index_wf impl valid ix"
  then have "length (ix_slots ix) * si_bytes impl \<le> u64_max" by (simp add: index_wf_def)
  moreover have "length (ix_slots ix) * 1 \<le> length (ix_slots ix) * si_bytes impl"
    using bytes_pos by (intro mult_le_mono2) simp
  ultimately show ?thesis unfolding u64_bound [symmetric] by linarith
qed

lemma decode_encode:
  assumes "index_wf impl valid ix"
  shows "index_decode impl (index_encode impl ix) = Some ix"
proof -
  have slots: "length (ix_slots ix) < 256 ^ 8" by (rule wf_count [OF assms])
  have ss: "list_all valid (ix_slots ix)" using assms by (simp add: index_wf_def)
  have "transp (\<lambda>a b. si_start impl a < si_start impl b)" by (auto intro: transpI)
  then show ?thesis
    using assms slots
    by (simp add: index_encode_def encode_slots_def header_words decode_words [OF _ _ _ _ _ ss]
        index_wf_def u64_bound neighbours_sorted_wrt)
qed

lemma index_of_wf:
  assumes "si_bytes impl * length file \<le> u64_max"
  shows "index_wf impl valid (index_of impl file)"
proof (cases "scan_lines file 0 = []")
  case True
  then show ?thesis
    using fnv1a_bound by (simp add: index_of_eq index_wf_def index_default_def u64_max_def)
next
  case False
  let ?ls = "scan_lines file 0" and ?ix = "index_of impl file"
  define f where "f l = si_scan impl (slice file (line_start l) (line_end l)) l" for l
  have slots: "ix_slots ?ix = List.map_filter f ?ls"
    and sk: "ix_skipped ?ix = length (filter (\<lambda>l. f l = None) ?ls)"
    and rest: "ix_covered ?ix = line_end (last ?ls) + 1" "ix_tail ?ix = line_start (last ?ls)"
      "ix_hash ?ix \<le> u64_max"
    using False by (simp_all add: index_of_eq Let_def foldl_scan_step f_def [abs_def] fnv1a_bound)
  have len: "length file \<le> u64_max"
    using assms bytes_pos by (metis (no_types, lifting) One_nat_def Suc_leI le_trans mult.left_neutral mult_le_mono1)
  have b: "line_start l < line_end l" "line_end l < length file" if "l \<in> set ?ls" for l
    using scan_lines_bounds [OF that] by auto
  have mem: "\<exists>l\<in>set ?ls. f l = Some s \<and> si_start impl s = line_start l" if "s \<in> set (ix_slots ?ix)" for s
    using that scan_start by (fastforce simp: slots List.map_filter_def f_def)
  have valid: "list_all valid (ix_slots ?ix)"
    using mem b len scan_valid by (fastforce simp: list.pred_set f_def)
  have sorted: "sorted_wrt (\<lambda>a b. si_start impl a < si_start impl b) (ix_slots ?ix)"
    unfolding slots by (rule map_filter_sorted [OF scan_lines_sorted]) (auto simp: f_def scan_start)
  have top: "line_start l \<le> line_start (last ?ls)" if "l \<in> set ?ls" for l
    using that scan_lines_sorted [of "file" 0] False
    by (fastforce dest: sorted_wrt_last)
  have "ix_slots ?ix = [] \<or> si_start impl (last (ix_slots ?ix)) \<le> ix_tail ?ix"
    using mem top rest by (metis last_in_set)
  moreover have "length (ix_slots ?ix) \<le> length ?ls"
    by (simp add: slots List.map_filter_def)
  then have "length (ix_slots ?ix) \<le> length file" using scan_lines_count [of "file" 0] by simp
  then have "length (ix_slots ?ix) * si_bytes impl \<le> u64_max"
    using assms by (metis (no_types, lifting) le_trans mult.commute mult_le_mono1)
  moreover have "ix_skipped ?ix \<le> u64_max"
    using sk scan_lines_count [of "file" 0] length_filter_le [of "\<lambda>l. f l = None" ?ls] len by linarith
  ultimately show ?thesis
    using valid sorted rest b [of "last ?ls"] False len by (simp add: index_wf_def)
qed

text \<open>A file whose length does not match its header is refused.\<close>

lemma decode_bad_length:
  assumes "length w = 32" "length n = 8" "length body \<noteq> le_val n * si_bytes impl"
  shows "index_decode impl (si_magic impl @ le_bytes 4 VERSION @ w @ n @ body) = None"
proof -
  let ?bytes = "si_magic impl @ le_bytes 4 VERSION @ w @ n @ body"
  have "drop HEADER_BYTES ?bytes = body" "take 8 (drop (12 + 8 * 4) ?bytes) = n"
    using assms by (simp_all add: HEADER_BYTES_def magic_length)
  then show ?thesis
    unfolding index_decode_def Let_def using assms(3) by (auto simp: checked_mul_def)
qed

definition header_fields :: "'s index \<Rightarrow> string" where
  "header_fields ix = le_bytes 8 (ix_covered ix) @ le_bytes 8 (ix_tail ix) @ le_bytes 8 (ix_hash ix)
     @ le_bytes 8 (ix_skipped ix)"

lemma header_split:
  "encode_header impl ix = si_magic impl @ le_bytes 4 VERSION @ header_fields ix @ le_bytes 8 (length (ix_slots ix))"
  "length (header_fields ix) = 32"
  by (simp_all add: header_words header_fields_def)

lemma torn_header:
  assumes new: "index_wf impl valid new" and old: "index_wf impl valid old"
    and ne: "length (ix_slots new) \<noteq> length (ix_slots old)"
  shows "index_decode impl (take k (encode_header impl new) @ drop k (encode_header impl old)
      @ encode_slots impl new 0) \<in> {None, Some new}"
proof -
  let ?p = "si_magic impl @ le_bytes 4 VERSION"
  let ?n' = "le_bytes 8 (length (ix_slots new))" and ?n = "le_bytes 8 (length (ix_slots old))"
  let ?w = "take (k - 12) (header_fields new) @ drop (k - 12) (header_fields old)"
  let ?c = "take (k - 44) ?n' @ drop (k - 44) ?n"
  let ?body = "encode_slots impl new 0"
  have mix: "take k (encode_header impl new) @ drop k (encode_header impl old) = ?p @ ?w @ ?c"
    unfolding header_split(1) append.assoc [symmetric]
    by (simp only: torn_append length_append header_split(2) length_le_bytes magic_length append_take_drop_id)
       (simp add: torn_append)
  have lw: "length ?w = 32" "length ?c = 8" by (simp_all add: header_split(2))
  have body: "length ?body = length (ix_slots new) * si_bytes impl"
    using body_length new by (simp add: encode_slots_def index_wf_def)
  show ?thesis
  proof (cases "le_val ?c = length (ix_slots new)")
    case True
    then have c: "?c = ?n'" using le_bytes_le_val [OF lw(2)] by metis
    moreover have "?n' \<noteq> ?n"
    proof
      assume "?n' = ?n"
      then show False using ne wf_count new old by (metis le_bytes_inject)
    qed
    ultimately have "k > 44" by (metis append_Nil diff_is_0_eq drop0 not_le take0)
    then have "?w = header_fields new" by (simp add: header_split(2))
    then have "?p @ ?w @ ?c @ ?body = index_encode impl new" using c by (simp add: index_encode_def header_split)
    then show ?thesis using decode_encode [OF new] mix by (metis append.assoc insertCI)
  next
    case False
    then have "length ?body \<noteq> le_val ?c * si_bytes impl" using body bytes_pos by simp
    from decode_bad_length [OF lw this] mix show ?thesis by (metis append.assoc insertCI)
  qed
qed

lemma torn_body:
  assumes old: "index_wf impl valid old" and new: "list_all valid added"
  shows "index_decode impl (index_encode impl old @ take k (concat (map (si_write impl) added)))
     \<in> {None, Some old}"
proof (cases "take k (concat (map (si_write impl) added)) = []")
  case True
  then show ?thesis unfolding True using decode_encode [OF old] by simp
next
  case False
  let ?b = "encode_slots impl old 0 @ take k (concat (map (si_write impl) added))"
  have "length (encode_slots impl old 0) = length (ix_slots old) * si_bytes impl"
    using body_length old by (simp add: encode_slots_def index_wf_def)
  moreover have "le_val (le_bytes 8 (length (ix_slots old))) = length (ix_slots old)"
    by (rule le_val_le_bytes [OF wf_count [OF old]])
  ultimately have "length ?b \<noteq> le_val (le_bytes 8 (length (ix_slots old))) * si_bytes impl"
    using False by (metis add_cancel_right_right length_0_conv length_append)
  from decode_bad_length [OF header_split(2) length_le_bytes this] show ?thesis
    by (simp add: index_encode_def header_split)
qed

text \<open>The two writes of an extension, on the file that holds the old index.\<close>

lemma extended_writes:
  assumes old: "index_wf impl valid old" and new: "index_wf impl valid new"
    and slots: "ix_slots new = ix_slots old @ added"
  shows "write_at (slot_offset impl (length (ix_slots old))) bs (index_encode impl old) = index_encode impl old @ bs"
    and "encode_slots impl new (length (ix_slots old)) = concat (map (si_write impl) added)"
    and "write_at 0 (take k (encode_header impl new)) (index_encode impl old @ concat (map (si_write impl) added))
      = take k (encode_header impl new) @ drop k (encode_header impl old) @ encode_slots impl new 0"
proof -
  have "length (index_encode impl old) = slot_offset impl (length (ix_slots old))"
    using old body_length
    by (simp add: index_encode_def encode_slots_def slot_offset_def header_bytes index_wf_def)
  then show "write_at (slot_offset impl (length (ix_slots old))) bs (index_encode impl old) = index_encode impl old @ bs"
    by (metis write_at_end)
  show "encode_slots impl new (length (ix_slots old)) = concat (map (si_write impl) added)"
    by (simp add: encode_slots_def slots)
  have "drop (length (take k (encode_header impl new))) (encode_header impl old) = drop k (encode_header impl old)"
    by (cases "k \<le> HEADER_BYTES") (simp_all add: header_bytes)
  then show "write_at 0 (take k (encode_header impl new)) (index_encode impl old @ concat (map (si_write impl) added))
      = take k (encode_header impl new) @ drop k (encode_header impl old) @ encode_slots impl new 0"
    by (simp add: write_at_def index_encode_def encode_slots_def slots header_bytes min_def)
qed

lemma index_of_wf2:
  assumes "si_bytes impl * length (a @ b) \<le> u64_max"
  shows "index_wf impl valid (index_of impl a)" "index_wf impl valid (index_of impl (a @ b))"
  using assms by (auto intro!: index_of_wf intro: order_trans [rotated] simp: distrib_left)

lemma header_eq_covered:
  assumes "index_wf impl valid ix" "index_wf impl valid ix'" "encode_header impl ix' = encode_header impl ix"
  shows "ix_covered ix' = ix_covered ix"
proof -
  have "le_bytes 8 (ix_covered ix') = le_bytes 8 (ix_covered ix)"
    using assms(3) by (simp add: header_words)
  then show ?thesis using assms(1,2) le_bytes_inject by (simp add: index_wf_def u64_bound)
qed

lemma index_of_covered_eq:
  assumes "ix_covered (index_of impl (a @ b)) = ix_covered (index_of impl a)"
  shows "index_of impl (a @ b) = index_of impl a"
proof -
  let ?ix = "index_of impl a" and ?rest = "drop (ix_covered (index_of impl a)) (a @ b)"
  have "scan_lines ?rest (ix_covered ?ix) = []"
  proof (rule ccontr)
    assume ne: "scan_lines ?rest (ix_covered ?ix) \<noteq> []"
    have "ix_covered (index_extend impl ?ix ?rest) > ix_covered ?ix"
      using index_extend_Cons [OF refl ne] scan_lines_bounds(1,2) [OF last_in_set [OF ne]] by simp
    then show False using assms unfolding index_extend_prefix by simp
  qed
  then show ?thesis by (metis index_extend_Nil index_extend_prefix)
qed

text \<open>After a refresh the file that \<open>persist\<close> leaves is the encoding of the new index.\<close>

lemma persist_refresh:
  assumes "si_bytes impl * length (a @ b) \<le> u64_max"
  shows "(case index_refresh impl (Some (index_of impl a)) (a @ b) of
      (ix, how) \<Rightarrow> persist (write_plan impl ix how) (index_encode impl (index_of impl a)))
    = index_encode impl (index_of impl (a @ b))"
proof -
  let ?old = "index_of impl a" and ?new = "index_of impl (a @ b)"
  note wf = index_of_wf2 [OF assms]
  obtain added where added: "ix_slots ?new = ix_slots ?old @ added" using index_of_append_slots by blast
  note w = extended_writes [OF wf added]
  show ?thesis
  proof (cases "length (a @ b) \<noteq> ix_covered ?old \<and> encode_header impl ?new \<noteq> encode_header impl ?old")
    case True
    have "write_at 0 (encode_header impl ?new) (index_encode impl ?old @ concat (map (si_write impl) added))
        = index_encode impl ?new"
      using w(3) [of HEADER_BYTES] by (simp add: header_bytes index_encode_def)
    with True w(1,2) show ?thesis
      by (simp add: refresh_append write_plan_def persist_def)
  next
    case False
    have "?new = ?old"
    proof (cases "length (a @ b) = ix_covered ?old")
      case True
      then have "length b = 0" using index_of_covered [of impl a] unfolding length_append by linarith
      then show ?thesis by simp
    next
      case ne: False
      then show ?thesis using False header_eq_covered [OF wf] index_of_covered_eq by blast
    qed
    with False show ?thesis by (auto simp: refresh_append write_plan_def persist_def)
  qed
qed

text \<open>
  A crash anywhere in \<open>persist\<close>: when the append added a slot, the next refresh, on the file with
  whatever was appended meanwhile, still yields the index of the file.
\<close>

lemma crash_refresh:
  assumes "si_bytes impl * length (a @ b) \<le> u64_max"
    and slots: "ix_slots (index_of impl (a @ b)) \<noteq> ix_slots (index_of impl a)"
  shows "list_all (\<lambda>disk. fst (index_refresh impl (index_decode impl disk) (a @ b @ c)) = index_of impl (a @ b @ c))
    (case index_refresh impl (Some (index_of impl a)) (a @ b) of
      (ix, how) \<Rightarrow> torn_states (write_plan impl ix how) (index_encode impl (index_of impl a)))"
proof -
  let ?old = "index_of impl a" and ?new = "index_of impl (a @ b)"
  let ?good = "\<lambda>disk. fst (index_refresh impl (index_decode impl disk) (a @ b @ c)) = index_of impl (a @ b @ c)"
  note wf = index_of_wf2 [OF assms(1)]
  obtain added where added: "ix_slots ?new = ix_slots ?old @ added" using index_of_append_slots by blast
  note w = extended_writes [OF wf added]
  have good: "?good disk" if "index_decode impl disk \<in> {None, Some ?old, Some ?new}" for disk
    using that refresh_append [of impl a "b @ c"] refresh_append [of impl "a @ b" c]
    by (auto simp: index_refresh_def index_rebuild_def index_of_def)
  have "list_all valid added" using wf(2) added by (simp add: index_wf_def)
  from torn_body [OF wf(1) this]
  have body: "?good (index_encode impl ?old @ take k (concat (map (si_write impl) added)))" for k
    by (intro good) (metis insert_iff)
  have "length (ix_slots ?new) \<noteq> length (ix_slots ?old)" using slots added by auto
  from torn_header [OF wf(2,1) this]
  have header: "?good (take k (encode_header impl ?new) @ drop k (encode_header impl ?old) @ encode_slots impl ?new 0)" for k
    by (intro good) (metis append.assoc insert_iff)
  have keep: "?good (index_encode impl ?old)" by (intro good) (simp add: decode_encode [OF wf(1)])
  have "?good disk" if "disk \<in> set (torn_states (InPlace (slot_offset impl (length (ix_slots ?old)))
      (encode_slots impl ?new (length (ix_slots ?old))) (encode_header impl ?new)) (index_encode impl ?old))" for disk
    using that body header by (auto simp only: torn_states_def index_write.case w set_append set_map)
  moreover have "?good disk" if "disk \<in> set (torn_states Keep (index_encode impl ?old))" for disk
    using that keep by (simp add: torn_states_def)
  ultimately show ?thesis
    unfolding refresh_append list.pred_set by (simp add: write_plan_def del: torn_states_def)
qed

end

subsection \<open>The two indexes\<close>

definition node_slot_ok :: "node_slot \<Rightarrow> bool" where
  "node_slot_ok s \<longleftrightarrow> aligned (ns_node s) \<and> node_lo (ns_node s) \<le> u64_max \<and> node_hi (ns_node s) \<le> u64_max
     \<and> ns_start s < ns_end s \<and> ns_end s \<le> u64_max"

lemma node_slot_read_write: "node_slot_ok s \<Longrightarrow> node_slot_read (node_slot_write s) = Some s"
  by (simp add: node_slot_ok_def node_slot_read_def node_slot_write_def u64_bound Let_def
      node_new_def aligned_def node_size_def)

lemma node_slot_write_length: "length (node_slot_write s) = 32"
  by (simp add: node_slot_write_def)

interpretation log: slot log_slot "\<lambda>s. s \<le> u64_max"
  by unfold_locales (auto simp: log_slot_def u64_bound)

interpretation tree: slot "tree_slot from_json" node_slot_ok for from_json
proof unfold_locales
  fix bs l s
  assume scan: "si_scan (tree_slot from_json) bs l = Some s"
  then obtain a b t where "from_json bs = Inr (a, b, t)" and s: "s = \<lparr>ns_node = mk_node (unat a) (unat b), ns_start = line_start l, ns_end = line_end l\<rparr>"
    and al: "aligned (mk_node (unat a) (unat b))"
    by (auto simp: tree_slot_def node_slot_scan_def node_new_ok split: option.splits sum.splits)
  show "si_start (tree_slot from_json) s = line_start l" by (simp add: tree_slot_def s)
  have "unat a \<le> u64_max" "unat b \<le> u64_max" using word_nat_bound [of a] word_nat_bound [of b] by (simp_all add: u64_max_def)
  then show "node_slot_ok s" if "line_start l < line_end l" "line_end l \<le> u64_max"
    using that al by (simp add: s node_slot_ok_def)
qed (simp_all add: tree_slot_def node_slot_write_length node_slot_read_write)

text \<open>Every line of the log is a slot, so an append that adds no slot adds no line.\<close>

lemma log_slots: "ix_slots (index_of log_slot file) = map line_start (scan_lines file 0)"
  by (simp add: index_of_eq Let_def index_default_def foldl_scan_step log_slot_def List.map_filter_def)

lemma log_slots_eq:
  assumes "ix_slots (index_of log_slot (a @ b)) = ix_slots (index_of log_slot a)"
  shows "index_of log_slot (a @ b) = index_of log_slot a"
proof (cases "scan_lines a 0 = []")
  case True
  then have "scan_lines (a @ b) 0 = []" using assms by (simp add: log_slots)
  then show ?thesis using True by (simp add: index_of_eq)
next
  case False
  have "length (scan_lines (a @ b) 0) = length (scan_lines a 0)"
    using assms unfolding log_slots by (metis length_map)
  with scan_lines_resume(2) [OF False, of b] have eq: "scan_lines (a @ b) 0 = scan_lines a 0" by simp
  have "ix_covered (index_of log_slot (a @ b)) = ix_covered (index_of log_slot a)"
    by (simp add: index_of_eq Let_def eq index_default_def)
  then show ?thesis by (rule log.index_of_covered_eq)
qed

lemma log_crash:
  assumes "8 * length (a @ b) \<le> u64_max"
  shows "list_all (\<lambda>disk. fst (index_refresh log_slot (index_decode log_slot disk) (a @ b @ c)) = index_of log_slot (a @ b @ c))
    (case index_refresh log_slot (Some (index_of log_slot a)) (a @ b) of
      (ix, how) \<Rightarrow> torn_states (write_plan log_slot ix how) (index_encode log_slot (index_of log_slot a)))"
proof -
  have sz: "si_bytes log_slot = 8" by (simp add: log_slot_def)
  note size = assms [folded sz]
  show ?thesis
  proof (cases "ix_slots (index_of log_slot (a @ b)) = ix_slots (index_of log_slot a)")
    case True
    note same = log_slots_eq [OF True]
    have "index_decode log_slot (index_encode log_slot (index_of log_slot a)) = Some (index_of log_slot a)"
      by (rule log.decode_encode [OF log.index_of_wf2(1) [OF size]])
    then show ?thesis
      unfolding refresh_append same
      using refresh_append [of log_slot a "b @ c"] by (simp add: write_plan_def torn_states_def)
  next
    case False
    from log.crash_refresh [OF size this] show ?thesis .
  qed
qed

subsection \<open>Reading entries by index\<close>

lemma scan_loop_starts:
  assumes "l \<in> set (scan_loop base start i cur bs)"
  shows "line_start l = base + start \<or> (base + i < line_start l \<and> bs ! (line_start l - base - i - 1) = CHR 0x0A)"
  using assms
proof (induction base start i cur bs rule: scan_loop.induct)
  case (2 base start i cur b bs)
  show ?case
  proof (cases "b = CHR 0x0A")
    case True
    then consider "line_start l = base + start" | "l \<in> set (scan_loop base (i + 1) (i + 1) [] bs)"
      using "2.prems" by (auto split: if_splits)
    then show ?thesis
    proof cases
      case 2
      from "2.IH"(2) [OF _ this] True have "line_start l = base + (i + 1) \<or>
        (base + (i + 1) < line_start l \<and> bs ! (line_start l - base - (i + 1) - 1) = CHR 0x0A)" by simp
      then show ?thesis
      proof
        assume late: "base + (i + 1) < line_start l \<and> bs ! (line_start l - base - (i + 1) - 1) = CHR 0x0A"
        then have "line_start l - base - i - 1 = Suc (line_start l - base - (i + 1) - 1)" by linarith
        with late show ?thesis by simp
      qed (simp add: True)
    qed simp
  next
    case False
    with 2 have "line_start l = base + start \<or>
        (base + (i + 1) < line_start l \<and> bs ! (line_start l - base - (i + 1) - 1) = CHR 0x0A)" by simp
    then show ?thesis
    proof
      assume late: "base + (i + 1) < line_start l \<and> bs ! (line_start l - base - (i + 1) - 1) = CHR 0x0A"
      then have "line_start l - base - i - 1 = Suc (line_start l - base - (i + 1) - 1)" by linarith
      with late show ?thesis by simp
    qed simp
  qed
qed simp

text \<open>Cutting the file where a line starts cuts the list of its lines at that line.\<close>

lemma scan_lines_cut:
  assumes "j < length (scan_lines file 0)"
  defines "s \<equiv> line_start (scan_lines file 0 ! j)"
  shows "scan_lines (take s file) 0 = take j (scan_lines file 0)"
    and "scan_lines (drop s file) s = drop j (scan_lines file 0)"
proof -
  let ?ls = "scan_lines file 0"
  have l: "?ls ! j \<in> set ?ls" using assms by simp
  note bd = scan_lines_bounds [OF l]
  have "s = 0 \<or> (0 < s \<and> file ! (s - 1) = CHR 0x0A)"
    using scan_loop_starts [OF l [unfolded scan_lines_def]] by (simp add: s_def scan_lines_def)
  then have "take s file = [] \<or> last (take s file) = CHR 0x0A"
    using bd by (auto simp: s_def last_take_nth)
  from scan_lines_append [OF this, of "drop s file" 0] bd
  have split: "?ls = scan_lines (take s file) 0 @ scan_lines (drop s file) s"
    by (simp add: s_def)
  let ?xs = "scan_lines (take s file) 0" and ?ys = "scan_lines (drop s file) s"
  have sorted: "sorted_wrt (\<lambda>a b. line_start a < line_start b) ?ls" by (rule scan_lines_sorted)
  have "length ?xs = j"
  proof (rule ccontr)
    assume "length ?xs \<noteq> j"
    then consider "j < length ?xs" | "length ?xs < j" by linarith
    then show False
    proof cases
      case 1
      then have "?ls ! j \<in> set ?xs" by (subst split) (simp add: nth_append)
      then show False using scan_lines_bounds(2,3) [of "?ls ! j" "take s file" 0] by (simp add: s_def)
    next
      case 2
      then have "?ls ! length ?xs \<in> set ?ys" using assms(1) by (subst split) (auto simp: nth_append split intro!: nth_mem)
      then have "s \<le> line_start (?ls ! length ?xs)" by (rule scan_lines_bounds(1))
      moreover have "line_start (?ls ! length ?xs) < s"
        using sorted_wrt_nth_less [OF sorted 2 assms(1)] by (simp add: s_def)
      ultimately show False by simp
    qed
  qed
  with split show "?xs = take j ?ls" "?ys = drop j ?ls" by (metis append_eq_conv_conj)+
qed

lemma log_span_lines:
  assumes "log_span (index_of log_slot file) i j = Some (s, e)"
  shows "scan_lines (slice file s e) s = take (j - i) (drop i (scan_lines file 0))"
proof -
  let ?ls = "scan_lines file 0" and ?ix = "index_of log_slot file"
  have len: "length (ix_slots ?ix) = length ?ls" by (simp add: log_slots)
  have ft: "i < j" "j \<le> length ?ls" and s: "s = line_start (?ls ! i)"
    and e: "e = (if j < length ?ls then line_start (?ls ! j) else ix_covered ?ix)"
    using assms by (auto simp: log_span_def len log_slots split: if_splits)
  have mid: "scan_lines (drop s file) s = drop i ?ls"
    using scan_lines_cut(2) [of i "file"] ft by (simp add: s)
  show ?thesis
  proof (cases "j < length ?ls")
    case True
    then have e: "e = line_start (?ls ! j)" using e by simp
    let ?rest = "scan_lines (drop e file) e"
    have "s \<le> e" using sorted_wrt_nth_less [OF scan_lines_sorted ft(1) True] by (simp add: s e)
    have el: "e \<le> length file" using scan_lines_bounds [OF nth_mem [OF True]] by (simp add: e)
    have pre: "take e file = [] \<or> last (take e file) = CHR 0x0A"
      using scan_loop_starts [OF nth_mem [OF True, unfolded scan_lines_def]] el
      by (auto simp: e scan_lines_def last_take_nth)
    have "slice file s e = [] \<or> last (slice file s e) = CHR 0x0A"
      using pre by (cases "s < length (take e file)") (auto simp: slice_def drop_take [symmetric] last_drop)
    from scan_lines_append [OF this, of "drop e file" s]
    have "scan_lines (slice file s e @ drop e file) s = scan_lines (slice file s e) s @ drop j ?ls"
      using scan_lines_cut(2) [OF True] \<open>s \<le> e\<close> el by (simp add: length_slice flip: e)
    moreover have "slice file s e @ drop e file = drop s file"
      using \<open>s \<le> e\<close> append_take_drop_id [of "e - s" "drop s file"] by (simp add: slice_def)
    ultimately have "drop i ?ls = scan_lines (slice file s e) s @ drop j ?ls" using mid by simp
    then show ?thesis
      by (metis (no_types, lifting) append_eq_conv_conj append_same_eq append_take_drop_id drop_drop ft(1) le_add_diff_inverse2 less_imp_le)
  next
    case False
    then have jl: "j = length ?ls" and e: "e = ix_covered ?ix" using ft e by simp_all
    have ne: "?ls \<noteq> []" using ft jl by auto
    then have ec: "e = line_end (last ?ls) + 1" by (simp add: e index_of_eq Let_def)
    have nth: "?ls ! i \<in> set ?ls" using ft by simp
    have el: "e \<le> length file" unfolding ec by (rule scan_lines_resume(1) [OF ne])
    have "scan_lines (take e file) 0 = ?ls"
    proof -
      have "?ls = scan_lines (take e file) 0 @ scan_lines (drop e file) e"
        using scan_lines_append [of "take e file" "drop e file" 0] el
          scan_lines_bounds(4) [OF last_in_set [OF ne]] by (simp add: last_take_nth ec)
      moreover have "scan_lines (drop e file) e = []"
      proof (rule ccontr)
        assume ne': "scan_lines (drop e file) e \<noteq> []"
        then have "last ?ls \<in> set (scan_lines (drop e file) e)"
          using calculation by (metis last_appendR last_in_set)
        then have "e \<le> line_start (last ?ls)" by (rule scan_lines_bounds(1))
        then show False using scan_lines_bounds(2) [OF last_in_set [OF ne]] by (simp add: ec)
      qed
      ultimately show ?thesis by simp
    qed
    then show ?thesis
      using scan_lines_cut(2) [of i "take e file"] ft jl scan_lines_bounds(2,3) [OF nth]
      by (simp add: s slice_def drop_take)
  qed
qed

text \<open>C26: extending the index of a file with what was appended since gives the same index as
  scanning the whole file again, wherever the append cut the last line.\<close>

theorem extend_matches_rescan:
  "index_extend impl (index_extend impl index_default a)
     (drop (ix_covered (index_extend impl index_default a)) (a @ b))
   = index_extend impl index_default (a @ b)"
  using index_extend_prefix [of impl a b] by (simp add: index_of_def)

lemma tree_slot_bytes: "si_bytes (tree_slot from_json) = 32"
  by (simp add: tree_slot_def)

text \<open>An index of the tree file that is saved is decoded to itself: the checks of \<open>decode\<close> (magic,
  version, length, increasing slots, tail inside) accept what \<open>encode\<close> writes, and every field and
  slot comes back. The bound keeps the counts inside a \<open>u64\<close>.\<close>

theorem tree_index_roundtrip:
  assumes "32 * length file \<le> u64_max"
  shows "index_decode (tree_slot from_json) (index_encode (tree_slot from_json) (index_of (tree_slot from_json) file))
    = Some (index_of (tree_slot from_json) file)"
  using assms tree.decode_encode tree.index_of_wf [of from_json "file"] by (simp add: tree_slot_bytes)

theorem tree_index_roundtrip_witness:
  "index_decode (tree_slot (\<lambda>s. if s = ''n'' then Inr (4, 8, ''t'') else Inl []))
     (index_encode (tree_slot (\<lambda>s. if s = ''n'' then Inr (4, 8, ''t'') else Inl []))
       (index_of (tree_slot (\<lambda>s. if s = ''n'' then Inr (4, 8, ''t'') else Inl [])) [CHR ''n'', CHR 0x0A, CHR ''x'', CHR 0x0A]))
   = Some (index_of (tree_slot (\<lambda>s. if s = ''n'' then Inr (4, 8, ''t'') else Inl [])) [CHR ''n'', CHR 0x0A, CHR ''x'', CHR 0x0A])"
  by (rule tree_index_roundtrip) (simp add: u64_max_def)

text \<open>After the tree grew, refreshing the stored index and writing it as \<open>write_plan\<close> says leaves
  on disk the encoding of the index of the whole file, whether the write was skipped, in place or a
  replacement.\<close>

theorem tree_persist_refresh:
  assumes "32 * length (a @ b) \<le> u64_max"
  shows "(case index_refresh (tree_slot from_json) (Some (index_of (tree_slot from_json) a)) (a @ b) of
      (ix, how) \<Rightarrow> persist (write_plan (tree_slot from_json) ix how)
        (index_encode (tree_slot from_json) (index_of (tree_slot from_json) a)))
    = index_encode (tree_slot from_json) (index_of (tree_slot from_json) (a @ b))"
  using assms tree.persist_refresh [of from_json a b] by (simp add: tree_slot_bytes)

theorem tree_persist_refresh_witness:
  "(case index_refresh (tree_slot (\<lambda>s. Inr (2, 4, s)))
        (Some (index_of (tree_slot (\<lambda>s. Inr (2, 4, s))) [CHR ''n'', CHR 0x0A])) ([CHR ''n'', CHR 0x0A] @ [CHR ''m'', CHR 0x0A]) of
      (ix, how) \<Rightarrow> persist (write_plan (tree_slot (\<lambda>s. Inr (2, 4, s))) ix how)
        (index_encode (tree_slot (\<lambda>s. Inr (2, 4, s))) (index_of (tree_slot (\<lambda>s. Inr (2, 4, s))) [CHR ''n'', CHR 0x0A])))
    = index_encode (tree_slot (\<lambda>s. Inr (2, 4, s)))
        (index_of (tree_slot (\<lambda>s. Inr (2, 4, s))) ([CHR ''n'', CHR 0x0A] @ [CHR ''m'', CHR 0x0A]))"
  by (rule tree_persist_refresh) (simp add: u64_max_def)

text \<open>C6: a crash at any byte of the in-place update of the log index is harmless. Whatever \<open>persist\<close>
  had written by then, the next \<open>refresh\<close> of what the file holds, on the log with anything
  appended since, gives the index of the log.\<close>

theorem log_index_crash_safe:
  assumes "8 * length (a @ b) \<le> u64_max"
  shows "list_all (\<lambda>disk. fst (index_refresh log_slot (index_decode log_slot disk) (a @ b @ c)) = index_of log_slot (a @ b @ c))
    (case index_refresh log_slot (Some (index_of log_slot a)) (a @ b) of
      (ix, how) \<Rightarrow> torn_states (write_plan log_slot ix how) (index_encode log_slot (index_of log_slot a)))"
  using assms by (rule log_crash)

theorem log_index_crash_safe_witness:
  "list_all (\<lambda>disk. fst (index_refresh log_slot (index_decode log_slot disk)
        ([CHR ''e'', CHR 0x0A] @ [CHR ''f'', CHR 0x0A] @ [CHR ''g'', CHR 0x0A]))
      = index_of log_slot ([CHR ''e'', CHR 0x0A] @ [CHR ''f'', CHR 0x0A] @ [CHR ''g'', CHR 0x0A]))
    (case index_refresh log_slot (Some (index_of log_slot [CHR ''e'', CHR 0x0A])) ([CHR ''e'', CHR 0x0A] @ [CHR ''f'', CHR 0x0A]) of
      (ix, how) \<Rightarrow> torn_states (write_plan log_slot ix how) (index_encode log_slot (index_of log_slot [CHR ''e'', CHR 0x0A])))"
  by (rule log_index_crash_safe) (simp add: u64_max_def)

text \<open>The bytes \<open>log_span\<close> gives for the entries \<open>[i, j)\<close> hold exactly the lines \<open>i\<close> to \<open>j - 1\<close> of the log,
  so reading entries through the index is reading them by scanning.\<close>

theorem log_span_reads_its_entries:
  assumes "log_span (index_of log_slot file) i j = Some (s, e)"
  shows "scan_lines (slice file s e) s = take (j - i) (drop i (scan_lines file 0))"
  using assms by (rule log_span_lines)

theorem log_span_reads_its_entries_witness:
  "log_span (index_of log_slot [CHR ''e'', CHR 0x0A, CHR 0x0A, CHR ''f'', CHR 0x0A]) 1 2 = Some (3, 5)
   \<and> scan_lines (slice [CHR ''e'', CHR 0x0A, CHR 0x0A, CHR ''f'', CHR 0x0A] 3 5) 3
     = take (2 - 1) (drop 1 (scan_lines [CHR ''e'', CHR 0x0A, CHR 0x0A, CHR ''f'', CHR 0x0A] 0))"
proof -
  have span: "log_span (index_of log_slot [CHR ''e'', CHR 0x0A, CHR 0x0A, CHR ''f'', CHR 0x0A]) 1 2 = Some (3, 5)"
  proof -
    have ls: "scan_lines [CHR ''e'', CHR 0x0A, CHR 0x0A, CHR ''f'', CHR 0x0A] 0
      = [\<lparr>line_start = 0, line_end = 1\<rparr>, \<lparr>line_start = 3, line_end = 4\<rparr>]" by code_simp
    show ?thesis by (simp add: log_span_def log_slots ls) (simp add: index_of_eq ls)
  qed
  with log_span_reads_its_entries [OF span] show ?thesis by simp
qed

subsection \<open>Finding nodes\<close>

lemma ex_split_Cons:
  "(\<exists>xs ys. t # ts = xs @ s # ys \<and> P xs) \<longleftrightarrow> (s = t \<and> P []) \<or> (\<exists>xs ys. ts = xs @ s # ys \<and> P (t # xs))"
  by (auto simp: Cons_eq_append_conv)

lemma find_slots_mem:
  "s \<in> set (find_slots left ss) \<longleftrightarrow>
     (\<exists>xs ys. ss = xs @ s # ys \<and> ns_node s \<in> left \<and> ns_node s \<notin> ns_node ` set xs)"
proof (induction ss arbitrary: left)
  case (Cons t ts)
  show ?case
    unfolding ex_split_Cons by (cases "left = {}") (auto simp: Cons.IH)
qed simp

lemma find_slots_distinct: "distinct (map ns_node (find_slots left ss))"
proof (induction ss arbitrary: left)
  case (Cons t ts)
  have "ns_node t \<notin> ns_node ` set (find_slots (left - {ns_node t}) ts)"
    by (auto simp: find_slots_mem)
  with Cons show ?case by simp
qed simp

text \<open>\<open>find\<close> returns, once for each node that is wanted and in the index, the first slot that holds
  it: a slot is found exactly when its node is wanted and no earlier slot holds that node.\<close>

theorem index_find_first_slots:
  "distinct (map ns_node (index_find ix wanted))
   \<and> (s \<in> set (index_find ix wanted) \<longleftrightarrow>
       (\<exists>xs ys. ix_slots ix = xs @ s # ys \<and> ns_node s \<in> set wanted \<and> ns_node s \<notin> ns_node ` set xs))"
  by (simp add: index_find_def find_slots_distinct find_slots_mem)

end
