(* ===== verification/Memory_Range.thy ===== *)
theory Memory_Range
  imports Memory_Lines
begin

section \<open>Reading a range page by page\<close>

text \<open>
  \<open>crates/core/src/chat_memory/range.rs\<close>: a read returns a page of blocks and a cursor from which
  the next page goes on. An entry too large for what is left of the budget is cut between
  characters and continued on the next page. The lemmas show that a printed cursor parses back,
  that every page makes progress and loses nothing, and how far a page can exceed its budget.
\<close>

subsection \<open>Cursors and requests\<close>

definition DEFAULT_BUDGET :: nat where
  "DEFAULT_BUDGET = 4096"

definition BYTES_PER_TOKEN :: nat where
  "BYTES_PER_TOKEN = 3"

definition in_budget_range :: "nat \<Rightarrow> bool" where
  "in_budget_range n \<longleftrightarrow> 1 \<le> n \<and> n \<le> 16384"

datatype mode = Raw | Summary

fun mode_marker :: "mode \<Rightarrow> char" where
  "mode_marker Raw = CHR ''r''"
| "mode_marker Summary = CHR ''s''"

definition mode_from_marker :: "string \<Rightarrow> mode option" where
  "mode_from_marker ch = (if ch = ''r'' then Some Raw else if ch = ''s'' then Some Summary else None)"

fun mode_name :: "mode \<Rightarrow> string" where
  "mode_name Raw = ''raw''"
| "mode_name Summary = ''summary''"

record cursor =
  cu_next :: nat
  cu_offset :: nat
  cu_end :: nat
  cu_mode :: mode

record range_request =
  rq_from :: nat
  rq_to :: nat
  rq_mode :: mode
  rq_budget :: nat
  rq_cursor :: "cursor option"

record range_page =
  pg_blocks :: "string list"
  pg_next :: "cursor option"

datatype read = Page range_page | More

definition cursor_encode :: "cursor \<Rightarrow> string" where
  "cursor_encode c =
     dec (cu_next c) @ ''.'' @ dec (cu_offset c) @ ''@'' @ dec (cu_end c) @ [mode_marker (cu_mode c)]"

text \<open>The closure \<open>number\<close> of the two parsers: digits only, and the value fits a \<open>usize\<close>.\<close>

definition number :: "string \<Rightarrow> string \<Rightarrow> nat result" where
  "number bad p =
     (if p = [] \<or> \<not> list_all is_digit p then Inl bad
      else case parse_uint usize_max p of None \<Rightarrow> Inl bad | Some n \<Rightarrow> Inr n)"

definition cursor_parse :: "string \<Rightarrow> cursor result" where
  "cursor_parse s =
     (let bad = CHR 0x27 # s @ CHR 0x27 # '' is not a cursor. Copy the `next cursor:` value from the last page.''
      in case split_once (CHR ''@'') s of
        None \<Rightarrow> Inl bad
      | Some (place, fin) \<Rightarrow> (case split_once (CHR ''.'') place of
          None \<Rightarrow> Inl bad
        | Some (next, offset) \<Rightarrow>
            (let chs = chars_of fin;
                 marked = (chs \<noteq> [] \<and> \<not> list_all is_digit (last chs));
                 fin' = (if marked then concat (butlast chs) else fin)
             in case number bad next of Inl e \<Rightarrow> Inl e
              | Inr next' \<Rightarrow> (case number bad offset of Inl e \<Rightarrow> Inl e
              | Inr offset' \<Rightarrow> (case number bad fin' of Inl e \<Rightarrow> Inl e
              | Inr end' \<Rightarrow>
                  (if \<not> marked
                   then Inl (''cursor '' @ CHR 0x27 # s @ CHR 0x27 # '' has no mode marker: it is from an older format. Restart the read without a cursor, then copy the `next cursor:` value from each page.'')
                   else case mode_from_marker (last chs) of
                     None \<Rightarrow> Inl (''cursor '' @ CHR 0x27 # s @ CHR 0x27 # '' has an unknown mode marker '' @ CHR 0x27 # last chs @ CHR 0x27 # ''. Use r or s, or copy the `next cursor:` value from the last page.'')
                   | Some m \<Rightarrow> Inr \<lparr>cu_next = next', cu_offset = offset', cu_end = end', cu_mode = m\<rparr>))))))"

definition page_text :: "range_page \<Rightarrow> string" where
  "page_text p = join (newline @ newline) (pg_blocks p)"

definition page_render :: "range_page \<Rightarrow> string" where
  "page_render p =
     (case pg_next p of
        Some c \<Rightarrow> page_text p @ newline @ newline @ ''next cursor: '' @ cursor_encode c
      | None \<Rightarrow> page_text p @ newline @ newline @ ''(end of range)'')"

definition parse_range :: "string \<Rightarrow> (nat \<times> nat) result" where
  "parse_range s =
     (let bad = CHR 0x27 # s @ CHR 0x27 # '' is not a range. Use an index like 5 or a range like 16-40.''
      in case split_once (CHR ''-'') s of
        None \<Rightarrow> (case number bad s of Inl e \<Rightarrow> Inl e | Inr n \<Rightarrow> Inr (n, n))
      | Some (a, b) \<Rightarrow> (case number bad a of Inl e \<Rightarrow> Inl e
        | Inr l \<Rightarrow> (case number bad b of Inl e \<Rightarrow> Inl e | Inr h \<Rightarrow> Inr (l, h))))"

subsection \<open>Windows and slices\<close>

record window =
  w_start :: nat
  w_total :: nat
  w_entries :: "entry list"

definition window_full :: "entry list \<Rightarrow> window" where
  "window_full es = \<lparr>w_start = 0, w_total = length es, w_entries = es\<rparr>"

definition window_get :: "window \<Rightarrow> nat \<Rightarrow> entry option" where
  "window_get w i =
     (if i < w_start w then None
      else if i - w_start w < length (w_entries w) then Some (w_entries w ! (i - w_start w)) else None)"

definition view_text :: "entry \<Rightarrow> tree \<Rightarrow> nat \<Rightarrow> mode \<Rightarrow> string" where
  "view_text e tree i m =
     (if m = Raw \<or> length (e_text e) \<le> SUMMARY_BYTES then e_text e
      else case tree (node_leaf i) of Some s \<Rightarrow> s | None \<Rightarrow> trim_end UNAVAILABLE_MARK)"

record entry_slice =
  sl_index :: nat
  sl_entry :: entry
  sl_total :: nat
  sl_offset :: nat

text \<open>The middle dot of the header, as UTF-8.\<close>

definition dot :: string where
  "dot = '' '' @ of_bytes [194, 183] @ '' ''"

definition slice_header :: "entry_slice \<Rightarrow> nat \<Rightarrow> string" where
  "slice_header s count =
     (let base = ''#'' @ dec (sl_index s) @ dot @ role_str (e_role (sl_entry s)) @ dot @ e_at (sl_entry s)
                 @ dot @ dec (sl_total s) @ '' chars''
      in if sl_offset s = 0 \<and> count = sl_total s then base
         else base @ dot @ ''chars '' @ dec (sl_offset s + 1) @ ''-'' @ dec (sl_offset s + count))"

definition slice_block :: "entry_slice \<Rightarrow> string \<Rightarrow> nat \<Rightarrow> string" where
  "slice_block s text count =
     slice_header s count @ newline @ concat (take count (drop (sl_offset s) (chars_of text)))"

text \<open>The \<open>take_while\<close> of \<open>fitting_chars\<close>, with what is used so far.\<close>

fun fitting :: "nat \<Rightarrow> nat \<Rightarrow> string list \<Rightarrow> nat" where
  "fitting room used [] = 0"
| "fitting room used (ch # chs) =
     (if used + length ch \<le> room then Suc (fitting room (used + length ch) chs) else 0)"

definition fitting_chars :: "entry_slice \<Rightarrow> string \<Rightarrow> nat \<Rightarrow> nat" where
  "fitting_chars s text room = fitting room 0 (drop (sl_offset s) (chars_of text))"

subsection \<open>One page\<close>

definition validate_cursor :: "cursor \<Rightarrow> nat \<Rightarrow> nat \<Rightarrow> nat \<Rightarrow> mode \<Rightarrow> unit result" where
  "validate_cursor c from limit len m =
     (if cu_mode c \<noteq> m
      then Inl (''cursor '' @ cursor_encode c @ '' was issued in '' @ mode_name (cu_mode c)
        @ '' mode but this read uses '' @ mode_name m @ '' mode. Pass mode '' @ mode_name (cu_mode c)
        @ '', or restart without a cursor.'')
      else if cu_end c > len \<or> cu_end c > limit
      then Inl (''cursor '' @ cursor_encode c @ '' is stale: its end is past the requested range or the chat.'')
      else if cu_next c < from \<or> cu_next c \<ge> cu_end c
      then Inl (''cursor '' @ cursor_encode c @ '' is outside the range '' @ dec from @ ''-'' @ dec (limit - 1) @ ''.'')
      else Inr ())"

text \<open>The loop of \<open>read_range\<close>; \<open>None\<close> in place of a page is \<open>Read::More\<close>.\<close>

function read_loop ::
  "window \<Rightarrow> tree \<Rightarrow> mode \<Rightarrow> nat \<Rightarrow> string list \<Rightarrow> cursor \<Rightarrow> (string list \<times> cursor) option result" where
  "read_loop w tree m left out c =
     (if \<not> cu_next c < cu_end c then Inr (Some (out, c))
      else case window_get w (cu_next c) of
        None \<Rightarrow> Inr None
      | Some e \<Rightarrow>
          (let text = view_text e tree (cu_next c) m;
               total = length (chars_of text)
           in if cu_offset c > 0 \<and> cu_offset c \<ge> total
              then Inl (''cursor '' @ cursor_encode c @ '' is stale: #'' @ dec (cu_next c) @ '' has only ''
                @ dec total @ '' chars in this mode.'')
              else
                (let s = \<lparr>sl_index = cu_next c, sl_entry = e, sl_total = total, sl_offset = cu_offset c\<rparr>;
                     remaining = total - cu_offset c;
                     whole = slice_block s text remaining
                 in if length whole \<le> left \<or> (out = [] \<and> remaining = 0)
                    then read_loop w tree m (left - (length whole + 2)) (out @ [whole])
                           (c\<lparr>cu_next := cu_next c + 1, cu_offset := 0\<rparr>)
                    else
                      (let overhead = length (slice_header s (remaining - 1)) + 1;
                           fit = fitting_chars s text (left - overhead);
                           count = (if fit = 0 then 1 else fit)
                       in if fit = 0 \<and> out \<noteq> [] then Inr (Some (out, c))
                          else Inr (Some (out @ [slice_block s text count],
                            if count = remaining then c\<lparr>cu_next := cu_next c + 1, cu_offset := 0\<rparr>
                            else c\<lparr>cu_offset := cu_offset c + count\<rparr>))))))"
  by pat_completeness auto
termination
  by (relation "measure (\<lambda>(w, tree, m, left, out, c). cu_end c - cu_next c)") auto

declare read_loop.simps [simp del]

definition read_range :: "window \<Rightarrow> tree \<Rightarrow> range_request \<Rightarrow> read result" where
  "read_range w tree rq =
     (let len = w_total w; limit = min (saturating_add (rq_to rq) 1) len;
          start = (case rq_cursor rq of
            None \<Rightarrow> Inr \<lparr>cu_next = rq_from rq, cu_offset = 0, cu_end = limit, cu_mode = rq_mode rq\<rparr>
          | Some c \<Rightarrow> (case validate_cursor c (rq_from rq) limit len (rq_mode rq) of
              Inl e \<Rightarrow> Inl e | Inr _ \<Rightarrow> Inr c))
      in if rq_from rq > rq_to rq
         then Inl (''range '' @ dec (rq_from rq) @ ''-'' @ dec (rq_to rq) @ '' is backwards.'')
         else if rq_from rq \<ge> len
         then Inl (''#'' @ dec (rq_from rq) @ '' is beyond the chat: it holds '' @ dec len @ '' entries.'')
         else if \<not> in_budget_range (rq_budget rq)
         then Inl (''budget '' @ dec (rq_budget rq) @ '' is out of range. Use '' @ dec 1 @ '' to '' @ dec 16384 @ '' tokens.'')
         else case start of
           Inl e \<Rightarrow> Inl e
         | Inr c \<Rightarrow> (case read_loop w tree (rq_mode rq) (rq_budget rq * BYTES_PER_TOKEN) [] c of
             Inl e \<Rightarrow> Inl e
           | Inr None \<Rightarrow> Inr More
           | Inr (Some (out, c')) \<Rightarrow>
               Inr (Page \<lparr>pg_blocks = out, pg_next = if cu_next c' < cu_end c' then Some c' else None\<rparr>)))"

subsection \<open>Cursors parse back\<close>

lemma number_dec: "n \<le> u64_max \<Longrightarrow> number bad (dec n) = Inr n"
  using dec_digits [of n] by (simp add: number_def)

lemma chars_of_marked: "chars_of (dec n @ [mode_marker m]) = map (\<lambda>c. [c]) (dec n @ [mode_marker m])"
  by (rule chars_of_lead) (cases m; simp add: dec_lead)

lemma not_digits: "\<not> is_digit (CHR ''.'')" "\<not> is_digit (CHR ''@'')" "\<not> is_digit (CHR ''-'')" "\<not> is_digit (mode_marker m)"
  by (cases m; simp add: is_digit_def)+

lemma cursor_parse_encode:
  assumes "cu_next c \<le> u64_max" "cu_offset c \<le> u64_max" "cu_end c \<le> u64_max"
  shows "cursor_parse (cursor_encode c) = Inr c"
proof -
  let ?place = "dec (cu_next c) @ CHR ''.'' # dec (cu_offset c)"
  have "CHR ''@'' \<notin> set ?place" using not_digit_notin_dec not_digits by auto
  from split_once_append [OF this]
  have at: "split_once (CHR ''@'') (cursor_encode c) = Some (?place, dec (cu_end c) @ [mode_marker (cu_mode c)])"
    by (simp add: cursor_encode_def)
  have dot: "split_once (CHR ''.'') ?place = Some (dec (cu_next c), dec (cu_offset c))"
    by (rule split_once_append) (use not_digit_notin_dec not_digits in auto)
  have mark: "mode_from_marker [mode_marker m] = Some m" for m by (cases m) (simp_all add: mode_from_marker_def)
  have cat: "concat (map (\<lambda>c. [c]) s) = s" for s :: string by (induction s) auto
  show ?thesis
    using assms not_digits(4) [of "cu_mode c"]
    by (simp add: cursor_parse_def at dot chars_of_marked number_dec mark cat)
qed

text \<open>A cursor printed for the next page is read back as the same cursor: no position, offset, end or
  mode that fits a \<open>usize\<close> is misread or refused.\<close>

theorem cursor_roundtrip:
  assumes "cu_next c \<le> u64_max" "cu_offset c \<le> u64_max" "cu_end c \<le> u64_max"
  shows "cursor_parse (cursor_encode c) = Inr c"
  using assms by (rule cursor_parse_encode)

theorem cursor_roundtrip_witness:
  "cursor_encode \<lparr>cu_next = 7, cu_offset = 120, cu_end = 9, cu_mode = Summary\<rparr> = ''7.120@9s''
   \<and> cursor_parse (cursor_encode \<lparr>cu_next = 7, cu_offset = 120, cu_end = 9, cu_mode = Summary\<rparr>)
     = Inr \<lparr>cu_next = 7, cu_offset = 120, cu_end = 9, cu_mode = Summary\<rparr>"
proof -
  have "cursor_encode \<lparr>cu_next = 7, cu_offset = 120, cu_end = 9, cu_mode = Summary\<rparr> = ''7.120@9s''"
    by code_simp
  with cursor_roundtrip [of "\<lparr>cu_next = 7, cu_offset = 120, cu_end = 9, cu_mode = Summary\<rparr>"]
  show ?thesis by (simp add: u64_max_def)
qed

subsection \<open>Pages lose nothing\<close>

text \<open>
  What a reader of the range has still to see from a cursor: for each entry a mark that it starts
  and its characters. A piece \<open>(i, offset, count)\<close> of a page shows a part of that.
\<close>

definition entry_chars :: "entry list \<Rightarrow> tree \<Rightarrow> mode \<Rightarrow> nat \<Rightarrow> string list" where
  "entry_chars es tree m i = chars_of (view_text (es ! i) tree i m)"

definition shown_chars :: "(nat \<Rightarrow> string list) \<Rightarrow> nat \<times> nat \<times> nat \<Rightarrow> (nat \<times> string option) list" where
  "shown_chars T p =
     (case p of (i, offset, count) \<Rightarrow>
        (if offset = 0 then [(i, None)] else [])
        @ map (\<lambda>ch. (i, Some ch)) (take count (drop offset (T i))))"

definition rest_from :: "(nat \<Rightarrow> string list) \<Rightarrow> cursor \<Rightarrow> (nat \<times> string option) list" where
  "rest_from T c =
     (if cu_next c < cu_end c
      then shown_chars T (cu_next c, cu_offset c, length (T (cu_next c)) - cu_offset c)
           @ concat (map (\<lambda>i. shown_chars T (i, 0, length (T i))) [cu_next c + 1..<cu_end c])
      else [])"

definition piece_block :: "entry list \<Rightarrow> tree \<Rightarrow> mode \<Rightarrow> nat \<times> nat \<times> nat \<Rightarrow> string" where
  "piece_block es tree m p =
     (case p of (i, offset, count) \<Rightarrow>
        slice_block \<lparr>sl_index = i, sl_entry = es ! i, sl_total = length (entry_chars es tree m i), sl_offset = offset\<rparr>
          (view_text (es ! i) tree i m) count)"

text \<open>A cursor that a read of \<open>es\<close> up to \<open>limit\<close> can go on from.\<close>

definition cursor_ok :: "entry list \<Rightarrow> tree \<Rightarrow> mode \<Rightarrow> nat \<Rightarrow> nat \<Rightarrow> cursor \<Rightarrow> bool" where
  "cursor_ok es tree m from limit c \<longleftrightarrow>
     validate_cursor c from limit (length es) m = Inr ()
     \<and> (cu_offset c = 0 \<or> cu_offset c < length (entry_chars es tree m (cu_next c)))"

lemma rest_from_next:
  assumes "cu_next c < cu_end c"
  shows "rest_from T c = shown_chars T (cu_next c, cu_offset c, length (T (cu_next c)) - cu_offset c)
     @ rest_from T (c\<lparr>cu_next := cu_next c + 1, cu_offset := 0\<rparr>)"
  using assms by (auto simp: rest_from_def upt_conv_Cons)

lemma rest_from_offset:
  assumes "cu_next c < cu_end c" "0 < n" "cu_offset c + n \<le> length (T (cu_next c))"
  shows "rest_from T c = shown_chars T (cu_next c, cu_offset c, n) @ rest_from T (c\<lparr>cu_offset := cu_offset c + n\<rparr>)"
proof -
  have "drop (cu_offset c) (T (cu_next c)) = take n (drop (cu_offset c) (T (cu_next c))) @ drop (cu_offset c + n) (T (cu_next c))"
    by (metis add.commute append_take_drop_id drop_drop)
  then have "map (\<lambda>ch. (cu_next c, Some ch)) (drop (cu_offset c) (T (cu_next c)))
    = map (\<lambda>ch. (cu_next c, Some ch)) (take n (drop (cu_offset c) (T (cu_next c))))
      @ map (\<lambda>ch. (cu_next c, Some ch)) (drop (cu_offset c + n) (T (cu_next c)))"
    by (metis map_append)
  then show ?thesis using assms by (simp add: rest_from_def shown_chars_def)
qed

lemma fitting_le: "fitting room used chs \<le> length chs"
  by (induction room used chs rule: fitting.induct) auto

lemma fitting_bytes: "fitting room used chs \<noteq> 0 \<Longrightarrow> used + length (concat (take (fitting room used chs) chs)) \<le> room"
proof (induction room used chs rule: fitting.induct)
  case (2 room used ch chs)
  then show ?case by (cases "fitting room (used + length ch) chs = 0") (auto split: if_splits)
qed simp

lemma read_loop_spec:
  assumes "cu_end c \<le> length es" "cu_offset c = 0 \<or> cu_offset c < length (entry_chars es tree m (cu_next c))"
  shows "\<exists>pieces c'. read_loop (window_full es) tree m left out c = Inr (Some (out @ map (piece_block es tree m) pieces, c'))
    \<and> rest_from (entry_chars es tree m) c = concat (map (shown_chars (entry_chars es tree m)) pieces) @ rest_from (entry_chars es tree m) c'
    \<and> cu_end c' = cu_end c \<and> cu_mode c' = cu_mode c \<and> cu_next c \<le> cu_next c'
    \<and> (cu_offset c' = 0 \<or> cu_offset c' < length (entry_chars es tree m (cu_next c')))
    \<and> (out = [] \<and> cu_next c < cu_end c \<longrightarrow> pieces \<noteq> [])"
  using assms
proof (induction "window_full es" tree m left out c rule: read_loop.induct)
  case (1 tree m left out c)
  let ?T = "entry_chars es tree m" and ?loop = "read_loop (window_full es) tree m left out c"
  let ?e = "es ! cu_next c"
  let ?text = "view_text ?e tree (cu_next c) m" and ?total = "length (?T (cu_next c))"
  let ?s = "\<lparr>sl_index = cu_next c, sl_entry = ?e, sl_total = ?total, sl_offset = cu_offset c\<rparr>"
  let ?rem = "?total - cu_offset c"
  let ?whole = "slice_block ?s ?text ?rem" and ?step = "c\<lparr>cu_next := cu_next c + 1, cu_offset := 0\<rparr>"
  show ?case
  proof (cases "cu_next c < cu_end c")
    case False
    then have "?loop = Inr (Some (out @ map (piece_block es tree m) [], c))" by (simp add: read_loop.simps)
    with False 1 show ?thesis by (intro exI [of _ "[]"] exI [of _ c]) simp
  next
    case go: True
    then have get: "window_get (window_full es) (cu_next c) = Some ?e"
      using 1(2) by (simp add: window_get_def window_full_def)
    have tot: "length (chars_of ?text) = ?total" by (simp add: entry_chars_def)
    have fresh: "(cu_offset c > 0 \<and> cu_offset c \<ge> ?total) = False" using 1(3) by auto
    have go': "(\<not> cu_next c < cu_end c) = False" using go by simp
    have whole: "?whole = piece_block es tree m (cu_next c, cu_offset c, ?rem)" by (simp add: piece_block_def)
    note step = read_loop.simps [of "window_full es" tree m left out c]
    show ?thesis
    proof (cases "length ?whole \<le> left \<or> (out = [] \<and> ?rem = 0)")
      case True
      have eq: "?loop = read_loop (window_full es) tree m (left - (length ?whole + 2)) (out @ [?whole]) ?step"
        unfolding step by (simp only: go' fresh get tot Let_def option.case if_False if_P [OF True])
      from 1(1) [OF _ get refl refl _ refl refl refl] go fresh True 1(2) obtain pieces c' where
        IH: "read_loop (window_full es) tree m (left - (length ?whole + 2)) (out @ [?whole]) ?step
            = Inr (Some ((out @ [?whole]) @ map (piece_block es tree m) pieces, c'))"
          "rest_from ?T ?step = concat (map (shown_chars ?T) pieces) @ rest_from ?T c'"
          "cu_end c' = cu_end c" "cu_mode c' = cu_mode c" "cu_next c + 1 \<le> cu_next c'"
          "cu_offset c' = 0 \<or> cu_offset c' < length (?T (cu_next c'))"
        by (auto simp: tot)
      show ?thesis
        using IH rest_from_next [OF go, of ?T]
        by (intro exI [of _ "(cu_next c, cu_offset c, ?rem) # pieces"] exI [of _ c']) (simp add: eq whole)
    next
      case False
      let ?fit = "fitting_chars ?s ?text (left - (length (slice_header ?s (?rem - 1)) + 1))"
      let ?count = "if ?fit = 0 then 1 else ?fit"
      let ?c' = "if ?count = ?rem then ?step else c\<lparr>cu_offset := cu_offset c + ?count\<rparr>"
      have eq: "?loop = (if ?fit = 0 \<and> out \<noteq> [] then Inr (Some (out, c))
          else Inr (Some (out @ [slice_block ?s ?text ?count], ?c')))"
        unfolding step by (simp only: go' fresh get tot Let_def option.case if_False if_not_P [OF False])
      have fit: "?fit \<le> ?rem" unfolding fitting_chars_def by (rule order_trans [OF fitting_le]) (simp add: entry_chars_def)
      show ?thesis
      proof (cases "?fit = 0 \<and> out \<noteq> []")
        case True
        then show ?thesis using 1 by (intro exI [of _ "[]"] exI [of _ c]) (simp add: eq)
      next
        case more: False
        have cnt: "0 < ?count" "?count \<le> ?rem" using more fit False by (auto simp: Suc_le_eq)
        have block: "slice_block ?s ?text ?count = piece_block es tree m (cu_next c, cu_offset c, ?count)"
          by (simp add: piece_block_def)
        have "rest_from ?T c = shown_chars ?T (cu_next c, cu_offset c, ?count) @ rest_from ?T ?c'"
        proof (cases "?count = ?rem")
          case True
          then show ?thesis using rest_from_next [OF go, of ?T] by simp
        next
          case less: False
          have "cu_offset c + ?count \<le> ?total" using cnt by linarith
          with less rest_from_offset [OF go cnt(1), of ?T] show ?thesis by simp
        qed
        moreover have "cu_offset ?c' = 0 \<or> cu_offset ?c' < length (?T (cu_next ?c'))"
        proof (cases "?count = ?rem")
          case less: False
          then have "cu_offset c + ?count < ?total" using cnt by linarith
          then show ?thesis unfolding if_not_P [OF less] by simp
        qed simp
        moreover have "cu_end ?c' = cu_end c" "cu_mode ?c' = cu_mode c" "cu_next c \<le> cu_next ?c'" by simp_all
        ultimately show ?thesis
          using more by (intro exI [of _ "[(cu_next c, cu_offset c, ?count)]"] exI [of _ ?c']) (simp only: eq block, simp)
      qed
    qed
  qed
qed

text \<open>C4: reading page by page loses nothing and always moves on. From any cursor a read accepts, the
  read succeeds; its page shows at least one piece; what was still to show before the page (every
  entry of the range and every character of its text, once and in order) is what the page shows
  followed by what is still to show from its next cursor; no cursor means nothing is left; and the
  next cursor is one the next read accepts.\<close>

theorem read_range_lossless:
  assumes "cursor_ok es tree m from (min (saturating_add to 1) (length es)) c" "from \<le> to"
    "in_budget_range budget"
  shows "\<exists>pieces page. read_range (window_full es) tree
      \<lparr>rq_from = from, rq_to = to, rq_mode = m, rq_budget = budget, rq_cursor = Some c\<rparr> = Inr (Page page)
    \<and> pieces \<noteq> [] \<and> pg_blocks page = map (piece_block es tree m) pieces
    \<and> rest_from (entry_chars es tree m) c = concat (map (shown_chars (entry_chars es tree m)) pieces)
        @ (case pg_next page of None \<Rightarrow> [] | Some c' \<Rightarrow> rest_from (entry_chars es tree m) c')
    \<and> (case pg_next page of None \<Rightarrow> True
       | Some c' \<Rightarrow> cursor_ok es tree m from (min (saturating_add to 1) (length es)) c')"
proof -
  let ?limit = "min (saturating_add to 1) (length es)" and ?T = "entry_chars es tree m"
  have c: "cu_end c \<le> length es" "cu_end c \<le> ?limit" "from \<le> cu_next c" "cu_next c < cu_end c" "cu_mode c = m"
    "cu_offset c = 0 \<or> cu_offset c < length (?T (cu_next c))"
    using assms(1) by (auto simp: cursor_ok_def validate_cursor_def split: if_splits)
  from read_loop_spec [OF c(1,6), of "budget * BYTES_PER_TOKEN" "[]"] obtain pieces c' where
    loop: "read_loop (window_full es) tree m (budget * BYTES_PER_TOKEN) [] c = Inr (Some (map (piece_block es tree m) pieces, c'))"
    and rest: "rest_from ?T c = concat (map (shown_chars ?T) pieces) @ rest_from ?T c'"
    and c': "cu_end c' = cu_end c" "cu_mode c' = cu_mode c" "cu_next c \<le> cu_next c'"
      "cu_offset c' = 0 \<or> cu_offset c' < length (?T (cu_next c'))"
    and ne: "pieces \<noteq> []" using c(4) by auto
  let ?page = "\<lparr>pg_blocks = map (piece_block es tree m) pieces, pg_next = if cu_next c' < cu_end c' then Some c' else None\<rparr>"
  have "validate_cursor c from ?limit (length es) m = Inr ()" using assms(1) by (simp add: cursor_ok_def)
  then have "read_range (window_full es) tree
      \<lparr>rq_from = from, rq_to = to, rq_mode = m, rq_budget = budget, rq_cursor = Some c\<rparr> = Inr (Page ?page)"
    using assms(2,3) c loop by (simp add: read_range_def Let_def window_full_def)
  moreover have "rest_from ?T c' = []" if "\<not> cu_next c' < cu_end c'"
    using that by (simp add: rest_from_def)
  moreover have "cursor_ok es tree m from ?limit c'" if "cu_next c' < cu_end c'"
    using that c c' by (auto simp: cursor_ok_def validate_cursor_def)
  ultimately show ?thesis using ne rest by (intro exI [of _ pieces] exI [of _ ?page]) auto
qed

theorem read_range_lossless_witness:
  "\<exists>pieces page. read_range (window_full [\<lparr>e_role = RoleUser, e_at = ''t'', e_text = ''hello'', e_corrupt = False\<rparr>]) (\<lambda>_. None)
      \<lparr>rq_from = 0, rq_to = 3, rq_mode = Raw, rq_budget = 1,
       rq_cursor = Some \<lparr>cu_next = 0, cu_offset = 2, cu_end = 1, cu_mode = Raw\<rparr>\<rparr> = Inr (Page page)
    \<and> pieces \<noteq> [] \<and> pg_blocks page = map (piece_block [\<lparr>e_role = RoleUser, e_at = ''t'', e_text = ''hello'', e_corrupt = False\<rparr>] (\<lambda>_. None) Raw) pieces"
proof -
  have "cursor_ok [\<lparr>e_role = RoleUser, e_at = ''t'', e_text = ''hello'', e_corrupt = False\<rparr>] (\<lambda>_. None) Raw 0
      (min (saturating_add 3 1) (length [\<lparr>e_role = RoleUser, e_at = ''t'', e_text = ''hello'', e_corrupt = False\<rparr>]))
      \<lparr>cu_next = 0, cu_offset = 2, cu_end = 1, cu_mode = Raw\<rparr>"
    by (simp add: cursor_ok_def validate_cursor_def saturating_add_def u64_max_def entry_chars_def view_text_def)
  from read_range_lossless [OF this, of 1] show ?thesis
    by (simp add: in_budget_range_def) blast
qed

subsection \<open>How large a page is\<close>

definition blocks_size :: "string list \<Rightarrow> nat" where
  "blocks_size bs = sum_list (map (\<lambda>b. length b + 2) bs)"

lemma length_page_text: "bs \<noteq> [] \<Longrightarrow> length (join (newline @ newline) bs) + 2 = blocks_size bs"
  by (induction "newline @ newline" bs rule: join.induct) (simp_all add: blocks_size_def newline_def of_bytes_def)

lemma header_next:
  assumes "0 < count" "count \<le> sl_total s - sl_offset s"
  shows "length (slice_header s count) \<le> length (slice_header s (sl_total s - sl_offset s - 1)) + 1"
    and "count < sl_total s - sl_offset s \<Longrightarrow>
      length (slice_header s count) \<le> length (slice_header s (sl_total s - sl_offset s - 1))"
proof -
  have "length (dec (sl_offset s + count)) \<le> length (dec (Suc (sl_offset s + (sl_total s - sl_offset s - 1))))"
    using assms by (intro length_dec_mono) simp
  also have "\<dots> \<le> Suc (length (dec (sl_offset s + (sl_total s - sl_offset s - 1))))" by (rule length_dec_Suc)
  finally show "length (slice_header s count) \<le> length (slice_header s (sl_total s - sl_offset s - 1)) + 1"
    using assms by (auto simp: slice_header_def Let_def)
  assume less: "count < sl_total s - sl_offset s"
  then have "length (dec (sl_offset s + count)) \<le> length (dec (sl_offset s + (sl_total s - sl_offset s - 1)))"
    by (intro length_dec_mono) simp
  with less assms(1) show "length (slice_header s count) \<le> length (slice_header s (sl_total s - sl_offset s - 1))"
    by (auto simp: slice_header_def Let_def)
qed

lemma if_Some_pair:
  "x = (if P then Inr (Some (a, c)) else Inr (Some (b, d))) \<Longrightarrow> x = Inr (Some (e, f)) \<Longrightarrow> e = (if P then a else b)"
  by (auto split: if_splits)

lemma read_loop_size:
  assumes "read_loop w tree m left out c = Inr (Some (out', c'))" "left = B - blocks_size out"
    "length out \<le> 1 \<or> blocks_size out \<le> B + 3"
  shows "length out' \<le> 1 \<or> blocks_size out' \<le> B + 3"
  using assms
proof (induction w tree m left out c rule: read_loop.induct)
  case (1 w tree m left out c)
  note step = read_loop.simps [of w tree m left out c]
  show ?case
  proof (cases "cu_next c < cu_end c \<and> window_get w (cu_next c) \<noteq> None")
    case False
    with 1(2,4) show ?thesis by (auto simp: step split: if_splits option.splits)
  next
    case True
    then obtain e where go: "cu_next c < cu_end c" and get: "window_get w (cu_next c) = Some e" by auto
    let ?text = "view_text e tree (cu_next c) m"
    let ?total = "length (chars_of ?text)"
    let ?s = "\<lparr>sl_index = cu_next c, sl_entry = e, sl_total = ?total, sl_offset = cu_offset c\<rparr>"
    let ?rem = "?total - cu_offset c"
    let ?whole = "slice_block ?s ?text ?rem"
    have fresh: "\<not> (cu_offset c > 0 \<and> cu_offset c \<ge> ?total)"
      using 1(2) go get by (auto simp: step Let_def)
    have size1: "blocks_size (out @ [b]) = blocks_size out + (length b + 2)" for b by (simp add: blocks_size_def)
    show ?thesis
    proof (cases "length ?whole \<le> left \<or> (out = [] \<and> ?rem = 0)")
      case True
      have pos: "0 < length ?whole" by (simp add: slice_block_def newline_def of_bytes_def)
      show ?thesis
      proof (rule 1(1) [OF _ get refl refl _ refl refl refl True])
        show "read_loop w tree m (left - (length ?whole + 2)) (out @ [?whole]) (c\<lparr>cu_next := cu_next c + 1, cu_offset := 0\<rparr>)
            = Inr (Some (out', c'))"
          using 1(2) go get fresh True by (simp add: step Let_def)
        show "left - (length ?whole + 2) = B - blocks_size (out @ [?whole])" by (simp add: size1 1(3))
        show "length (out @ [?whole]) \<le> 1 \<or> blocks_size (out @ [?whole]) \<le> B + 3"
        proof (cases "out = []")
          case False
          then have "length ?whole \<le> B - blocks_size out" using True 1(3) by simp
          with pos have "blocks_size out + length ?whole \<le> B" by linarith
          then show ?thesis by (simp add: size1)
        qed simp
      qed (use go fresh in auto)
    next
      case False
      let ?over = "length (slice_header ?s (?rem - 1)) + 1"
      let ?fit = "fitting_chars ?s ?text (left - ?over)"
      let ?count = "if ?fit = 0 then 1 else ?fit"
      have out': "out' = (if ?fit = 0 \<and> out \<noteq> [] then out else out @ [slice_block ?s ?text ?count])"
      proof -
        have "(\<not> cu_next c < cu_end c) = False" "(cu_offset c > 0 \<and> cu_offset c \<ge> ?total) = False"
          using go fresh by auto
        then show ?thesis
          by (intro if_Some_pair [OF _ 1(2)])
            (simp only: step get Let_def option.case if_False if_not_P [OF False])
      qed
      show ?thesis
      proof (cases "?fit \<noteq> 0 \<and> out \<noteq> []")
        case False
        with out' 1(4) show ?thesis by auto
      next
        case True
        then have fit: "0 < ?fit" "?fit \<le> ?rem" and bytes: "length (concat (take ?fit (drop (cu_offset c) (chars_of ?text)))) \<le> left - ?over"
          using fitting_bytes [of "left - ?over" 0 "drop (cu_offset c) (chars_of ?text)"]
            fitting_le [of "left - ?over" 0 "drop (cu_offset c) (chars_of ?text)"] by (auto simp: fitting_chars_def)
        have "0 < length (concat (take ?fit (drop (cu_offset c) (chars_of ?text))))"
        proof -
          obtain ch where "ch \<in> set (take ?fit (drop (cu_offset c) (chars_of ?text)))"
            using fit by (cases "take ?fit (drop (cu_offset c) (chars_of ?text))") auto
          moreover from this have "ch \<in> set (chars_of ?text)" by (meson in_set_dropD in_set_takeD)
          ultimately show ?thesis using chars_of_nonempty by fastforce
        qed
        with bytes have room: "?over < left" by linarith
        have "length (slice_header ?s ?fit) \<le> length (slice_header ?s (?rem - 1)) + 1"
          using header_next(1) [of ?fit ?s] fit by simp
        moreover have "length (slice_block ?s ?text ?fit)
            = length (slice_header ?s ?fit) + 1 + length (concat (take ?fit (drop (cu_offset c) (chars_of ?text))))"
          by (simp add: slice_block_def newline_def of_bytes_def)
        ultimately have "length (slice_block ?s ?text ?fit) \<le> left + 1" using bytes room by linarith
        moreover have "out' = out @ [slice_block ?s ?text ?fit]" using True out' by (simp only: if_False simp_thms)
        moreover have "blocks_size out + left = B" using room 1(3) by linarith
        ultimately show ?thesis by (simp only: size1) linarith
      qed
    qed
  qed
qed

text \<open>A page is at most one byte larger than its budget of three bytes per token, unless it is the
  single block every page is allowed.\<close>

theorem read_range_page_size:
  assumes "read_range w tree rq = Inr (Page page)"
  shows "length (pg_blocks page) \<le> 1 \<or> length (page_text page) \<le> 3 * rq_budget rq + 1"
proof -
  from assms obtain c c' where "read_loop w tree (rq_mode rq) (rq_budget rq * BYTES_PER_TOKEN) [] c = Inr (Some (pg_blocks page, c'))"
    by (auto simp: read_range_def Let_def split: if_splits sum.splits option.splits)
  from read_loop_size [OF this, of "rq_budget rq * BYTES_PER_TOKEN"]
  have "length (pg_blocks page) \<le> 1 \<or> blocks_size (pg_blocks page) \<le> rq_budget rq * 3 + 3"
    by (simp add: blocks_size_def BYTES_PER_TOKEN_def)
  with length_page_text [of "pg_blocks page"] show ?thesis
    by (cases "pg_blocks page = []") (auto simp: page_text_def)
qed

theorem read_range_page_size_witness:
  "\<exists>page. read_range (window_full [\<lparr>e_role = RoleUser, e_at = ''t'', e_text = ''hello'', e_corrupt = False\<rparr>]) (\<lambda>_. None)
      \<lparr>rq_from = 0, rq_to = 3, rq_mode = Raw, rq_budget = 1, rq_cursor = None\<rparr> = Inr (Page page)
    \<and> (length (pg_blocks page) \<le> 1 \<or> length (page_text page) \<le> 3 * 1 + 1)"
proof -
  let ?rq = "\<lparr>rq_from = 0, rq_to = 3, rq_mode = Raw, rq_budget = 1, rq_cursor = None\<rparr>"
  let ?w = "window_full [\<lparr>e_role = RoleUser, e_at = ''t'', e_text = ''hello'', e_corrupt = False\<rparr>]"
  obtain page where page: "read_range ?w (\<lambda>_. None) ?rq = Inr (Page page)"
  proof -
    let ?c = "\<lparr>cu_next = 0, cu_offset = 0, cu_end = 1, cu_mode = Raw\<rparr>"
    from read_loop_spec [of ?c "w_entries ?w" "\<lambda>_. None" Raw 3 "[]"] obtain bs c' where
      "read_loop ?w (\<lambda>_. None) Raw 3 [] ?c = Inr (Some (bs, c'))"
      by (auto simp: window_full_def)
    then show ?thesis
      by (intro that) (simp add: read_range_def Let_def in_budget_range_def saturating_add_def u64_max_def
          BYTES_PER_TOKEN_def window_full_def)
  qed
  from read_range_page_size [OF page] page show ?thesis by auto
qed

end
