(* ===== verification/Memory_Archive.thy ===== *)
theory Memory_Archive
  imports Memory_Index_Facts Memory_Range
begin

section \<open>The log and the tree on disk\<close>

text \<open>
  \<open>log.rs\<close>, \<open>archive.rs\<close> and \<open>lookup.rs\<close> of \<open>crates/core/src/chat_memory\<close>, with the append of
  \<open>crates/ralph/src/chat/memory.rs\<close>: parsing the two JSONL files, dropping a torn last line,
  loading entries and summaries through the indexes, and reading a page or zooming into a node
  with only a window of the log in memory. Parsing JSON is a parameter. A read past the end of
  a file and an index that does not fit its file are errors of kind \<open>InvalidData\<close>, the only I/O
  errors modelled.
\<close>

type_synonym entry_parser = "string \<Rightarrow> entry result"

subsection \<open>Parsing\<close>

definition blank :: "string \<Rightarrow> bool" where
  "blank s \<longleftrightarrow> list_all is_ascii_ws s"

definition complete_lines :: "string \<Rightarrow> string list" where
  "complete_lines data =
     (let fin = (case rposition (\<lambda>b. b = CHR 0x0A) data of None \<Rightarrow> 0 | Some i \<Rightarrow> i + 1)
      in filter (\<lambda>l. \<not> blank l) (split_on (CHR 0x0A) (take fin data)))"

definition entry_or_corrupt :: "entry_parser \<Rightarrow> string \<Rightarrow> nat \<Rightarrow> nat \<Rightarrow> entry \<times> string option" where
  "entry_or_corrupt parse bytes i offset =
     (case parse bytes of
        Inr e \<Rightarrow> (e, None)
      | Inl msg \<Rightarrow> (corrupt_entry,
          Some (''chat log entry '' @ dec i @ '' at byte '' @ dec offset @ '' is corrupt and shows as ''
            @ CORRUPT_TEXT @ '': '' @ msg)))"

definition entry_of :: "entry_parser \<Rightarrow> string \<Rightarrow> entry" where
  "entry_of parse bytes = fst (entry_or_corrupt parse bytes 0 0)"

text \<open>The entries and warnings of lines that start at id \<open>i\<close>; \<open>base\<close> is the offset of \<open>data\<close>.\<close>

definition parse_lines ::
  "entry_parser \<Rightarrow> string \<Rightarrow> nat \<Rightarrow> nat \<Rightarrow> line list \<Rightarrow> (entry \<times> string option) list" where
  "parse_lines parse data base i ls =
     map (\<lambda>(k, l). entry_or_corrupt parse (slice data (line_start l - base) (line_end l - base)) k (line_start l))
       (zip [i..<i + length ls] ls)"

definition parse_log :: "entry_parser \<Rightarrow> string \<Rightarrow> entry list \<times> string list" where
  "parse_log parse data =
     (let rows = parse_lines parse data 0 0 (scan_lines data 0)
      in (map fst rows, List.map_filter snd rows))"

text \<open>A line of the tree file as a node and its text; the first record of a node is kept.\<close>

definition parse_record :: "record_parser \<Rightarrow> string \<Rightarrow> (node \<times> string) result" where
  "parse_record from_json bytes =
     (case from_json bytes of
        Inl e \<Rightarrow> Inl e
      | Inr (l, h, text) \<Rightarrow> (case node_new (unat l) (unat h) of Inl e \<Rightarrow> Inl e | Inr n \<Rightarrow> Inr (n, text)))"

definition tree_step :: "record_parser \<Rightarrow> tree \<times> string list \<Rightarrow> string \<Rightarrow> tree \<times> string list" where
  "tree_step from_json st bytes =
     (case parse_record from_json bytes of
        Inr (n, text) \<Rightarrow> (if fst st n = None then (fst st)(n \<mapsto> text) else fst st, snd st)
      | Inl e \<Rightarrow> (fst st, snd st @ [''chat tree record skipped: '' @ e]))"

definition parse_tree :: "record_parser \<Rightarrow> string \<Rightarrow> tree \<times> string list" where
  "parse_tree from_json data = foldl (tree_step from_json) (\<lambda>_. None, []) (complete_lines data)"

subsection \<open>Appending\<close>

datatype log_tail = Whole | Torn nat | NeedMore

definition log_tail :: "string \<Rightarrow> nat \<Rightarrow> log_tail" where
  "log_tail chunk chunk_start =
     (if chunk = [] \<or> last chunk = CHR 0x0A then Whole
      else case rposition (\<lambda>b. b = CHR 0x0A) chunk of
        Some i \<Rightarrow> Torn (chunk_start + i + 1)
      | None \<Rightarrow> if chunk_start = 0 then Torn 0 else NeedMore)"

definition TAIL_PROBE_BYTES :: nat where
  "TAIL_PROBE_BYTES = 4096"

text \<open>The loop of \<open>trim_torn_tail\<close>; its value is what the file holds when it returns.\<close>

partial_function (option) trim_loop :: "string \<Rightarrow> nat \<Rightarrow> string option" where
  "trim_loop file window =
     (let len = length file; start = len - window
      in case log_tail (slice file start len) start of
           Whole \<Rightarrow> Some file
         | Torn pos \<Rightarrow> Some (take pos file)
         | NeedMore \<Rightarrow> trim_loop file (min (window * 2) u64_max))"

definition trim_torn_tail :: "string \<Rightarrow> string option" where
  "trim_torn_tail file = trim_loop file TAIL_PROBE_BYTES"

text \<open>What \<open>append\<close> leaves in \<open>log.jsonl\<close> for an encoded entry \<open>json\<close> (without its newline).\<close>

definition append_entry :: "string \<Rightarrow> string \<Rightarrow> string option" where
  "append_entry file json = map_option (\<lambda>f. f @ json @ newline) (trim_torn_tail file)"

subsection \<open>Loading through the indexes\<close>

definition bs_read :: "string \<Rightarrow> nat \<Rightarrow> nat \<Rightarrow> string result" where
  "bs_read file s e =
     (if e > length file then Inl ''read past the chat store snapshot'' else Inr (slice file s e))"

text \<open>\<open>Notes\<close>: the notes in order; \<open>seen\<close> is their set.\<close>

definition notes_push :: "string \<Rightarrow> string list \<Rightarrow> string list" where
  "notes_push note ns = (if note \<in> set ns then ns else ns @ [note])"

definition load ::
  "entry_parser \<Rightarrow> string \<Rightarrow> nat index \<Rightarrow> string list \<Rightarrow> nat \<Rightarrow> nat \<Rightarrow> (entry list \<times> string list) result" where
  "load parse file ix notes from to =
     (case log_span ix from to of
        None \<Rightarrow> Inr ([], notes)
      | Some (start, fin) \<Rightarrow>
          (let before = start - 1
           in case bs_read file before fin of
                Inl e \<Rightarrow> Inl e
              | Inr data \<Rightarrow>
                  (let ls = scan_lines data before
                   in if map line_start ls \<noteq> take (to - from) (drop from (ix_slots ix))
                      then Inl ''log offsets do not match the line starts''
                      else (let rows = parse_lines parse data before from ls
                            in Inr (map fst rows,
                                    fold (\<lambda>r ns. case snd r of None \<Rightarrow> ns | Some w \<Rightarrow> notes_push w ns) rows notes)))))"

text \<open>The loop of \<open>first_window\<close>.\<close>

function window_loop :: "nat index \<Rightarrow> nat \<Rightarrow> nat \<Rightarrow> nat \<Rightarrow> nat \<Rightarrow> nat" where
  "window_loop ix start want used count =
     (if used < want then
        (case log_span ix (start + count) (start + count + 1) of
           None \<Rightarrow> count
         | Some (a, b) \<Rightarrow> window_loop ix start want (used + (b - a)) (count + 1))
      else count)"
  by pat_completeness auto
termination
  by (relation "measure (\<lambda>(ix, start, want, used, count). length (ix_slots ix) - (start + count))")
    (auto simp: log_span_def split: if_splits)

declare window_loop.simps [simp del]

definition first_window :: "nat index \<Rightarrow> nat \<Rightarrow> nat \<Rightarrow> nat" where
  "first_window ix start budget = max (window_loop ix start (budget * BYTES_PER_TOKEN) 0 0) 1"

definition long_leaves :: "nat \<Rightarrow> entry list \<Rightarrow> node list" where
  "long_leaves start es =
     map (\<lambda>(i, e). node_leaf i) (filter (\<lambda>(i, e). SUMMARY_BYTES < length (e_text e)) (zip [start..<start + length es] es))"

text \<open>\<open>nodes\<close> of \<open>IndexedTree\<close>: the text of one slot, then all that \<open>find\<close> gives, collected.\<close>

definition slot_text :: "record_parser \<Rightarrow> string \<Rightarrow> node_slot index \<Rightarrow> node_slot \<Rightarrow> (node \<times> string) result" where
  "slot_text from_json file ix s =
     (if ns_end s \<ge> ix_covered ix then Inl ''a tree slot ends past the index''
      else case bs_read file (ns_start s) (ns_end s) of
        Inl e \<Rightarrow> Inl e
      | Inr bytes \<Rightarrow> (case from_json bytes of
          Inl e \<Rightarrow> Inl e
        | Inr (l, h, text) \<Rightarrow>
            if (unat l, unat h) \<noteq> (node_lo (ns_node s), node_hi (ns_node s))
            then Inl ''a tree slot points at another node''
            else Inr (ns_node s, text)))"

fun collect_map :: "(node \<times> string) result list \<Rightarrow> tree result" where
  "collect_map [] = Inr (\<lambda>_. None)"
| "collect_map (Inl e # xs) = Inl e"
| "collect_map (Inr (n, t) # xs) =
     (case collect_map xs of Inl e \<Rightarrow> Inl e | Inr m \<Rightarrow> Inr (if m n = None then m(n \<mapsto> t) else m))"

definition tree_nodes :: "record_parser \<Rightarrow> string \<Rightarrow> node_slot index \<Rightarrow> node list \<Rightarrow> tree result" where
  "tree_nodes from_json file ix wanted = collect_map (map (slot_text from_json file ix) (index_find ix wanted))"

subsection \<open>Pages and zooms\<close>

text \<open>The loop of \<open>read_page\<close>; \<open>nodes\<close> is the node source.\<close>

partial_function (option) page_loop ::
  "entry_parser \<Rightarrow> string \<Rightarrow> nat index \<Rightarrow> (node list \<Rightarrow> tree result) \<Rightarrow> range_request \<Rightarrow> nat \<Rightarrow> nat \<Rightarrow> string list
    \<Rightarrow> (range_page result \<times> string list) result option" where
  "page_loop parse file ix nodes rq start count notes =
     (let t = length (ix_slots ix); fin = min (saturating_add start count) t
      in case load parse file ix notes start fin of
           Inl e \<Rightarrow> Some (Inl e)
         | Inr (es, notes') \<Rightarrow>
             (case (case rq_mode rq of Summary \<Rightarrow> nodes (long_leaves start es) | Raw \<Rightarrow> Inr (\<lambda>_. None)) of
                Inl e \<Rightarrow> Some (Inl e)
              | Inr tree \<Rightarrow>
                  (case read_range \<lparr>w_start = start, w_total = t, w_entries = es\<rparr> tree rq of
                     Inl e \<Rightarrow> Some (Inr (Inl e, notes'))
                   | Inr (Page p) \<Rightarrow> Some (Inr (Inr p, notes'))
                   | Inr More \<Rightarrow>
                       if fin < t then page_loop parse file ix nodes rq start (min (count * 2) u64_max) notes'
                       else Some (Inr (Inl ''the read window missed its range.'', notes')))))"

definition read_page ::
  "entry_parser \<Rightarrow> string \<Rightarrow> nat index \<Rightarrow> (node list \<Rightarrow> tree result) \<Rightarrow> string list \<Rightarrow> range_request
    \<Rightarrow> (range_page result \<times> string list) result option" where
  "read_page parse file ix nodes notes rq =
     (let start = min (case rq_cursor rq of None \<Rightarrow> rq_from rq | Some c \<Rightarrow> cu_next c) (length (ix_slots ix));
          budget = min (rq_budget rq) 16384
      in page_loop parse file ix nodes rq start (first_window ix start budget) notes)"

definition zoom_entries :: "node \<Rightarrow> nat \<Rightarrow> nat \<times> nat" where
  "zoom_entries n t =
     (let start = min (node_lo n) t in (start, if node_size n \<le> 2 then min (node_hi n) t else start))"

definition zoom_half :: "window \<Rightarrow> tree \<Rightarrow> node \<Rightarrow> string result" where
  "zoom_half w tree half =
     (let line =
        (if node_size half = 1
         then (case window_get w (node_lo half) of
                 None \<Rightarrow> Inl (''#'' @ dec (node_lo half) @ '' is not loaded.'')
               | Some e \<Rightarrow> Inr (leaf_line (node_lo half) e tree))
         else Inr (block_line tree half))
      in case line of
           Inl e \<Rightarrow> Inl e
         | Inr (Some l) \<Rightarrow> Inr l
         | Inr None \<Rightarrow> Inr (''#'' @ node_id half @ '' not compressed yet''))"

fun collect_results :: "'a result list \<Rightarrow> 'a list result" where
  "collect_results [] = Inr []"
| "collect_results (Inl e # xs) = Inl e"
| "collect_results (Inr x # xs) = (case collect_results xs of Inl e \<Rightarrow> Inl e | Inr ys \<Rightarrow> Inr (x # ys))"

definition zoom :: "window \<Rightarrow> tree \<Rightarrow> node \<Rightarrow> string list result" where
  "zoom w tree n =
     (if node_lo n \<ge> w_total w
      then Inl (''#'' @ node_id n @ '' is beyond the chat: it holds '' @ dec (w_total w) @ '' entries.'')
      else if node_size n = 1
      then (case window_get w (node_lo n) of
              None \<Rightarrow> Inl (''#'' @ dec (node_lo n) @ '' is not loaded.'')
            | Some e \<Rightarrow> Inr [entry_line (node_lo n) e (e_text e)])
      else (let (left, right) = halves n
            in collect_results (map (zoom_half w tree) (filter (\<lambda>h. node_lo h < w_total w) [left, right]))))"

definition zoom_node ::
  "entry_parser \<Rightarrow> string \<Rightarrow> nat index \<Rightarrow> (node list \<Rightarrow> tree result) \<Rightarrow> string list \<Rightarrow> node
    \<Rightarrow> (string list result \<times> string list) result" where
  "zoom_node parse file ix nodes notes n =
     (let t = length (ix_slots ix); (start, fin) = zoom_entries n t
      in case load parse file ix notes start fin of
           Inl e \<Rightarrow> Inl e
         | Inr (es, notes') \<Rightarrow>
             (case (if node_size n > 1 then nodes [fst (halves n), snd (halves n)] else Inr (\<lambda>_. None)) of
                Inl e \<Rightarrow> Inl e
              | Inr tree \<Rightarrow> Inr (zoom \<lparr>w_start = start, w_total = t, w_entries = es\<rparr> tree n, notes')))"

subsection \<open>The archive\<close>

record archive =
  ar_log :: string
  ar_log_index :: "nat index"
  ar_tree :: string
  ar_tree_index :: "node_slot index"
  ar_stale_log :: bool
  ar_stale_tree :: bool
  ar_notes :: "string list"
  ar_limit :: nat

definition archive_open ::
  "record_parser \<Rightarrow> string \<Rightarrow> nat index option \<Rightarrow> string \<Rightarrow> node_slot index option \<Rightarrow> archive" where
  "archive_open from_json file stored_log tree stored_tree =
     (let (log_ix, log_how) = index_refresh log_slot stored_log file;
          (tree_ix, tree_how) = index_refresh (tree_slot from_json) stored_tree tree
      in \<lparr>ar_log = file, ar_log_index = log_ix, ar_tree = tree, ar_tree_index = tree_ix,
          ar_stale_log = (log_how \<noteq> RFresh), ar_stale_tree = (tree_how \<noteq> RFresh),
          ar_notes = [], ar_limit = usize_max\<rparr>)"

definition archive_count :: "archive \<Rightarrow> nat" where
  "archive_count a = min (length (ix_slots (ar_log_index a))) (ar_limit a)"

text \<open>
  \<open>retry\<close>, for a call that reads the archive and gives a value and the notes: the first error
  rebuilds both indexes and runs the call once more. A call is \<open>None\<close> if it does not return.
\<close>

definition archive_rebuild :: "record_parser \<Rightarrow> archive \<Rightarrow> archive" where
  "archive_rebuild from_json a =
     a\<lparr>ar_log_index := fst (index_refresh log_slot None (ar_log a)),
       ar_tree_index := fst (index_refresh (tree_slot from_json) None (ar_tree a)),
       ar_stale_log := True, ar_stale_tree := True, ar_notes := []\<rparr>"

definition archive_retry ::
  "record_parser \<Rightarrow> (archive \<Rightarrow> ('a \<times> string list) result option) \<Rightarrow> archive \<Rightarrow> ('a result \<times> archive) option" where
  "archive_retry from_json call a =
     (case call a of
        None \<Rightarrow> None
      | Some (Inr (x, notes)) \<Rightarrow> Some (Inr x, a\<lparr>ar_notes := notes\<rparr>)
      | Some (Inl _) \<Rightarrow>
          (let a' = archive_rebuild from_json a
           in case call a' of
                None \<Rightarrow> None
              | Some (Inr (x, notes)) \<Rightarrow> Some (Inr x, a'\<lparr>ar_notes := notes\<rparr>)
              | Some (Inl e) \<Rightarrow> Some (Inl e, a')))"

definition archive_nodes :: "record_parser \<Rightarrow> archive \<Rightarrow> node list \<Rightarrow> tree result" where
  "archive_nodes from_json a = tree_nodes from_json (ar_tree a) (ar_tree_index a)"

definition archive_read ::
  "record_parser \<Rightarrow> entry_parser \<Rightarrow> range_request \<Rightarrow> archive \<Rightarrow> (range_page result result \<times> archive) option" where
  "archive_read from_json parse rq =
     archive_retry from_json
       (\<lambda>a. read_page parse (ar_log a) (ar_log_index a) (archive_nodes from_json a) (ar_notes a) rq)"

definition archive_zoom ::
  "record_parser \<Rightarrow> entry_parser \<Rightarrow> node \<Rightarrow> archive \<Rightarrow> (string list result result \<times> archive) option" where
  "archive_zoom from_json parse n =
     archive_retry from_json
       (\<lambda>a. Some (zoom_node parse (ar_log a) (ar_log_index a) (archive_nodes from_json a) (ar_notes a) n))"

definition archive_entries ::
  "record_parser \<Rightarrow> entry_parser \<Rightarrow> nat \<Rightarrow> nat \<Rightarrow> archive \<Rightarrow> (entry list result \<times> archive) option" where
  "archive_entries from_json parse from to =
     archive_retry from_json (\<lambda>a. Some (load parse (ar_log a) (ar_log_index a) (ar_notes a) from to))"

definition archive_warnings :: "archive \<Rightarrow> string list" where
  "archive_warnings a = ar_notes a @ (case tree_warning (ar_tree_index a) of None \<Rightarrow> [] | Some w \<Rightarrow> [w])"

end
