(* ===== verification/Memory_Archive_Facts.thy ===== *)
theory Memory_Archive_Facts
  imports Memory_Archive
begin

section \<open>The archive reads what is in the files\<close>

text \<open>
  Trimming leaves exactly the complete lines; the loads through an index of the file give what
  parsing the whole file gives; and a page read with a growing window of the log is the page read
  from all entries, so the loop that grows the window always ends.
\<close>

subsection \<open>Torn tails\<close>

lemma rposition_eqI:
  assumes "i < length xs" "P (xs ! i)" "\<And>j. i < j \<Longrightarrow> j < length xs \<Longrightarrow> \<not> P (xs ! j)"
  shows "rposition P xs = Some i"
proof (cases "rposition P xs")
  case None
  then show ?thesis using assms(1,2) by (auto simp: rposition_None)
next
  case (Some k)
  from rposition_Some [OF this] assms have "k = i" by (metis linorder_neqE_nat)
  with Some show ?thesis by simp
qed

definition complete_prefix :: "string \<Rightarrow> string" where
  "complete_prefix file = take (case rposition (\<lambda>b. b = CHR 0x0A) file of None \<Rightarrow> 0 | Some i \<Rightarrow> i + 1) file"

lemma complete_prefix_append:
  assumes "xs = [] \<or> last xs = CHR 0x0A" "CHR 0x0A \<notin> set ys"
  shows "complete_prefix (xs @ ys) = xs"
proof (cases "xs = []")
  case True
  then have "rposition (\<lambda>b. b = CHR 0x0A) (xs @ ys) = None" using assms(2) by (auto simp: rposition_None)
  then show ?thesis using True by (simp add: complete_prefix_def)
next
  case False
  then have "0 < length xs" by simp
  then have "rposition (\<lambda>b. b = CHR 0x0A) (xs @ ys) = Some (length xs - 1)"
    using assms False
    by (intro rposition_eqI)
      (auto simp: nth_append last_conv_nth in_set_conv_nth split: if_splits intro!: trans_less_add1 diff_less)
  then show ?thesis using False by (simp add: complete_prefix_def)
qed

lemma split_last_newline:
  obtains xs ys where "file = xs @ ys" "xs = [] \<or> last xs = CHR 0x0A" "CHR 0x0A \<notin> set ys"
proof (cases "rposition (\<lambda>b. b = CHR 0x0A) file")
  case None
  then show ?thesis by (intro that [of "[]" "file"]) (auto simp: rposition_None)
next
  case (Some i)
  note i = rposition_Some [OF Some]
  show ?thesis
  proof (rule that [of "take (i + 1) file" "drop (i + 1) file"])
    show "take (i + 1) file = [] \<or> last (take (i + 1) file) = CHR 0x0A" using i by (simp add: last_take_nth)
    show "CHR 0x0A \<notin> set (drop (i + 1) file)" using i by (auto simp: in_set_conv_nth)
  qed simp
qed

lemma log_tail_drop:
  assumes "file = xs @ ys" "xs = [] \<or> last xs = CHR 0x0A" "CHR 0x0A \<notin> set ys"
    and s: "s < length file \<or> file = []"
  shows "log_tail (drop s file) s =
    (if ys = [] then Whole else if s < length xs \<or> s = 0 then Torn (length xs) else NeedMore)"
proof (cases "ys = []")
  case True
  then have "last (drop s file) = CHR 0x0A" if "drop s file \<noteq> []"
    using that assms by (auto simp: last_drop)
  with True show ?thesis by (auto simp: log_tail_def)
next
  case ne: False
  then have sl: "s < length file" using assms(1) s by auto
  have "last (drop s file) = last ys" using last_drop [OF sl] ne assms(1) by simp
  then have lst: "drop s file \<noteq> []" "last (drop s file) \<noteq> CHR 0x0A"
    using sl last_in_set [OF ne] assms(3) by auto
  show ?thesis
  proof (cases "s < length xs")
    case True
    have "rposition (\<lambda>b. b = CHR 0x0A) (drop s file) = Some (length xs - 1 - s)"
    proof (rule rposition_eqI)
      show "length xs - 1 - s < length (drop s file)" using True assms(1) by simp
      show "drop s file ! (length xs - 1 - s) = CHR 0x0A"
        using True assms(1,2) by (cases "xs = []") (auto simp: nth_append last_conv_nth)
      show "drop s file ! j \<noteq> CHR 0x0A" if "length xs - 1 - s < j" "j < length (drop s file)" for j
        using that True assms(1,3) by (auto simp: nth_append in_set_conv_nth)
    qed
    with lst ne True show ?thesis by (simp add: log_tail_def)
  next
    case False
    have "CHR 0x0A \<notin> set (drop s file)"
      using False assms(1,3) set_drop_subset [of "s - length xs" ys] by auto
    then have "rposition (\<lambda>b. b = CHR 0x0A) (drop s file) = None" by (auto simp: rposition_None)
    with lst ne False assms(1) show ?thesis by (auto simp: log_tail_def)
  qed
qed

lemma trim_loop_eq:
  assumes "length file \<le> u64_max" "0 < window"
  shows "trim_loop file window = Some (complete_prefix file)"
  using assms(2)
proof (induction "length file - window" arbitrary: window rule: less_induct)
  case less
  obtain xs ys where f: "file = xs @ ys" "xs = [] \<or> last xs = CHR 0x0A" "CHR 0x0A \<notin> set ys"
    by (rule split_last_newline)
  have pre: "complete_prefix file = xs" using f complete_prefix_append by simp
  let ?s = "length file - window"
  have "?s < length file \<or> file = []" using less(2) by (cases "file") auto
  note tail = log_tail_drop [OF f this]
  have sl: "slice file ?s (length file) = drop ?s file" by (simp add: slice_def)
  note step = trim_loop.simps [of "file" window]
  consider "ys = []" | "ys \<noteq> []" "?s < length xs \<or> ?s = 0" | "ys \<noteq> []" "\<not> ?s < length xs" "?s \<noteq> 0" by blast
  then show ?case
  proof cases
    case 1
    then have "complete_prefix file = file" using f(1) pre by simp
    then show ?thesis unfolding step Let_def sl tail using 1 by simp
  next
    case 2
    have "take (length xs) file = complete_prefix file" using f(1) pre by simp
    with 2 show ?thesis unfolding step Let_def sl tail by auto
  next
    case 3
    let ?w = "min (window * 2) u64_max"
    have w: "window < length file" using 3(3) by simp
    then have big: "window < ?w" using less(2) assms(1) by simp
    have "length file - ?w < length file - window" using w big by linarith
    moreover have "0 < ?w" using big by linarith
    ultimately have "trim_loop file ?w = Some (complete_prefix file)" by (rule less(1))
    then show ?thesis unfolding step Let_def sl tail using 3 by simp
  qed
qed

lemma trim_torn_tail_eq: "length file \<le> u64_max \<Longrightarrow> trim_torn_tail file = Some (complete_prefix file)"
  by (simp add: trim_torn_tail_def trim_loop_eq TAIL_PROBE_BYTES_def)

text \<open>C28: trimming a torn last line always ends, whatever the file's length against the probe window, and
  leaves the longest prefix that is a sequence of complete lines: what is dropped has no newline.\<close>

theorem trim_torn_tail_drops_only_the_torn_line:
  assumes "length file \<le> u64_max"
  shows "\<exists>kept dropped. trim_torn_tail file = Some kept \<and> file = kept @ dropped
    \<and> CHR 0x0A \<notin> set dropped \<and> (kept \<noteq> [] \<longrightarrow> last kept = CHR 0x0A)"
proof -
  obtain xs ys where f: "file = xs @ ys" "xs = [] \<or> last xs = CHR 0x0A" "CHR 0x0A \<notin> set ys"
    by (rule split_last_newline)
  with trim_torn_tail_eq [OF assms] complete_prefix_append [OF f(2,3)] show ?thesis by auto
qed

theorem trim_torn_tail_drops_only_the_torn_line_witness:
  "\<exists>kept dropped. trim_torn_tail [CHR ''a'', CHR 0x0A, CHR ''b''] = Some kept
    \<and> [CHR ''a'', CHR 0x0A, CHR ''b''] = kept @ dropped
    \<and> CHR 0x0A \<notin> set dropped \<and> (kept = [] \<or> last kept = CHR 0x0A)"
  using trim_torn_tail_drops_only_the_torn_line [of "[CHR ''a'', CHR 0x0A, CHR ''b'']"]
  by (simp add: u64_max_def) blast

subsection \<open>The two ways to find lines agree\<close>

fun scan_text :: "string \<Rightarrow> string \<Rightarrow> string list" where
  "scan_text cur [] = []"
| "scan_text cur (b # bs) =
     (if b \<noteq> CHR 0x0A then scan_text (cur @ [b]) bs
      else (if blank cur then [] else [cur]) @ scan_text [] bs)"

definition line_text :: "string \<Rightarrow> nat \<Rightarrow> line \<Rightarrow> string" where
  "line_text data base l = slice data (line_start l - base) (line_end l - base)"

lemma scan_loop_text:
  assumes "data = pre @ cur @ bs" "length pre = start" "i = start + length cur"
  shows "map (line_text data base) (scan_loop base start i cur bs) = scan_text cur bs"
  using assms
proof (induction base start i cur bs arbitrary: pre rule: scan_loop.induct)
  case (2 base start i cur b bs)
  show ?case
  proof (cases "b = CHR 0x0A")
    case True
    have "map (line_text data base) (scan_loop base (i + 1) (i + 1) [] bs) = scan_text [] bs"
      by (rule 2(2) [of "pre @ cur @ [b]"]) (use True 2(3-5) in auto)
    moreover have "line_text data base \<lparr>line_start = base + start, line_end = base + i\<rparr> = cur"
      using 2(3-5) by (simp add: slice_def line_text_def)
    ultimately show ?thesis using True by (simp add: blank_def)
  next
    case False
    with 2(1) [of pre] 2(3-5) show ?thesis by simp
  qed
qed simp

lemma scan_lines_text: "map (line_text data base) (scan_lines data base) = scan_text [] data"
  unfolding scan_lines_def by (rule scan_loop_text [of _ "[]"]) simp_all

lemma scan_text_tail: "CHR 0x0A \<notin> set ys \<Longrightarrow> scan_text cur ys = []"
  by (induction ys arbitrary: cur) auto

lemma scan_text_split:
  "CHR 0x0A \<notin> set cur \<Longrightarrow> CHR 0x0A \<notin> set ys \<Longrightarrow>
    scan_text cur (xs @ CHR 0x0A # ys) = filter (\<lambda>l. \<not> blank l) (split_on (CHR 0x0A) (cur @ xs))"
proof (induction xs arbitrary: cur)
  case Nil
  then show ?case by (simp add: split_on_no_sep scan_text_tail)
next
  case (Cons x xs)
  show ?case
  proof (cases "x = CHR 0x0A")
    case True
    with Cons.IH [of "[]"] Cons.prems show ?thesis by (simp add: split_on_append)
  next
    case False
    with Cons.IH [of "cur @ [x]"] Cons.prems show ?thesis by simp
  qed
qed

lemma split_on_snoc: "split_on c (xs @ [c]) = split_on c xs @ [[]]"
  by (induction xs) (auto split: list.splits)

lemma complete_lines_scan: "complete_lines data = scan_text [] data"
proof -
  obtain xs ys where d: "data = xs @ ys" "xs = [] \<or> last xs = CHR 0x0A" "CHR 0x0A \<notin> set ys"
    by (rule split_last_newline)
  have cl: "complete_lines data = filter (\<lambda>l. \<not> blank l) (split_on (CHR 0x0A) (complete_prefix data))"
    by (simp add: complete_lines_def complete_prefix_def Let_def)
  have pre: "complete_prefix data = xs" using d complete_prefix_append by simp
  show ?thesis
  proof (cases "xs = []")
    case True
    then show ?thesis using d pre cl by (simp add: scan_text_tail blank_def)
  next
    case False
    then have xs: "xs = butlast xs @ [CHR 0x0A]" using d(2) by (metis append_butlast_last_id)
    have "complete_lines data = filter (\<lambda>l. \<not> blank l) (split_on (CHR 0x0A) (butlast xs) @ [[]])"
      unfolding cl pre by (subst xs) (simp only: split_on_snoc)
    also have "\<dots> = scan_text [] (butlast xs @ CHR 0x0A # ys)"
      using scan_text_split [of "[]" ys "butlast xs"] d(3) by (simp add: blank_def)
    also have "butlast xs @ CHR 0x0A # ys = data" using d(1) xs by (metis append.assoc append_Cons append_Nil)
    finally show ?thesis .
  qed
qed

lemma entry_of_eq: "fst (entry_or_corrupt parse bytes i offset) = entry_of parse bytes"
  by (simp add: entry_or_corrupt_def entry_of_def split: sum.splits)

lemma parse_lines_entries:
  "map fst (parse_lines parse data base i ls) = map (entry_of parse) (map (line_text data base) ls)"
proof -
  have "map fst (parse_lines parse data base i ls)
      = map (\<lambda>p. entry_of parse (line_text data base (snd p))) (zip [i..<i + length ls] ls)"
    by (auto simp: parse_lines_def line_text_def entry_of_eq)
  also have "\<dots> = map (\<lambda>l. entry_of parse (line_text data base l)) (map snd (zip [i..<i + length ls] ls))"
    by (simp only: map_map comp_def)
  finally show ?thesis by (simp add: comp_def)
qed

text \<open>The entries of the log are its nonblank complete lines, parsed one by one.\<close>

lemma parse_log_entries: "fst (parse_log parse data) = map (entry_of parse) (scan_text [] data)"
  by (simp only: parse_log_def Let_def fst_conv parse_lines_entries scan_lines_text)

lemma scan_text_append:
  assumes "xs = [] \<or> last xs = CHR 0x0A"
  shows "scan_text [] (xs @ ys) = scan_text [] xs @ scan_text [] ys"
proof -
  have gen: "xs \<noteq> [] \<Longrightarrow> last xs = CHR 0x0A \<Longrightarrow> scan_text cur (xs @ ys) = scan_text cur xs @ scan_text [] ys" for cur
    by (induction xs arbitrary: cur) (auto split: if_splits)
  show ?thesis using assms gen [of "[]"] by (cases "xs = []") auto
qed

lemma complete_prefix_text: "scan_text [] (complete_prefix data) = scan_text [] data"
proof -
  obtain xs ys where d: "data = xs @ ys" "xs = [] \<or> last xs = CHR 0x0A" "CHR 0x0A \<notin> set ys"
    by (rule split_last_newline)
  with scan_text_append [OF d(2), of ys] show ?thesis by (simp add: complete_prefix_append scan_text_tail)
qed

lemma complete_prefix_ends: "complete_prefix data = [] \<or> last (complete_prefix data) = CHR 0x0A"
proof -
  obtain xs ys where "data = xs @ ys" "xs = [] \<or> last xs = CHR 0x0A" "CHR 0x0A \<notin> set ys"
    by (rule split_last_newline)
  then show ?thesis by (simp add: complete_prefix_append)
qed

lemma append_entry_log:
  assumes "length file \<le> u64_max" "CHR 0x0A \<notin> set json" "\<not> blank json"
  shows "\<exists>file'. append_entry file json = Some file'
    \<and> fst (parse_log parse file') = fst (parse_log parse file) @ [entry_of parse json]"
proof -
  note nl = newline_char
  have "scan_text [] (json @ [CHR 0x0A]) = [json]"
    using scan_text_split [of "[]" "[]" json] assms(2,3) by (simp add: split_on_no_sep)
  then have "scan_text [] (complete_prefix file @ json @ newline) = scan_text [] file @ [json]"
    using scan_text_append [OF complete_prefix_ends [of "file"], of "json @ [CHR 0x0A]"]
    by (simp add: nl complete_prefix_text)
  then show ?thesis
    using assms(1) by (simp add: append_entry_def trim_torn_tail_eq parse_log_entries)
qed

text \<open>Appending an entry keeps every entry of the log and adds the new one after them, also when a
  crash left a torn line at the end of the file: the torn bytes are dropped, never glued to the new
  line.\<close>

theorem append_keeps_entries:
  assumes "length file \<le> u64_max" "CHR 0x0A \<notin> set json" "\<not> blank json"
  shows "\<exists>file'. append_entry file json = Some file'
    \<and> fst (parse_log parse file') = fst (parse_log parse file) @ [entry_of parse json]"
  using assms by (rule append_entry_log)

theorem append_keeps_entries_witness:
  "\<exists>file'. append_entry [CHR ''a'', CHR 0x0A, CHR ''t'', CHR ''o''] ''b'' = Some file'
    \<and> fst (parse_log (\<lambda>s. Inr \<lparr>e_role = RoleUser, e_at = [], e_text = s, e_corrupt = False\<rparr>) file')
      = fst (parse_log (\<lambda>s. Inr \<lparr>e_role = RoleUser, e_at = [], e_text = s, e_corrupt = False\<rparr>)
          [CHR ''a'', CHR 0x0A, CHR ''t'', CHR ''o''])
        @ [entry_of (\<lambda>s. Inr \<lparr>e_role = RoleUser, e_at = [], e_text = s, e_corrupt = False\<rparr>) ''b'']"
  by (rule append_keeps_entries) (simp_all add: u64_max_def blank_def is_ascii_ws_def)

subsection \<open>Loads through an index of the file\<close>

lemma scan_lines_newline: "scan_lines (CHR 0x0A # data) base = scan_lines data (base + 1)"
  using scan_loop_shift [of base 0 1 0 "[]" data] by (simp add: scan_lines_def)

lemma log_span_before:
  assumes "log_span (index_of log_slot file) i j = Some (s, e)"
  shows "scan_lines (slice file (s - 1) e) (s - 1) = take (j - i) (drop i (scan_lines file 0))"
    and "e \<le> length file"
proof -
  let ?ls = "scan_lines file 0" and ?ix = "index_of log_slot file"
  have len: "length (ix_slots ?ix) = length ?ls" by (simp add: log_slots)
  have ij: "i < j" "j \<le> length ?ls" and s: "s = line_start (?ls ! i)"
    and e: "e = (if j < length ?ls then line_start (?ls ! j) else ix_covered ?ix)"
    using assms by (auto simp: log_span_def len log_slots split: if_splits)
  have mem: "?ls ! i \<in> set ?ls" using ij by simp
  show el: "e \<le> length file"
    using e index_of_covered [of log_slot "file"] scan_lines_bounds [OF nth_mem, of j "file" 0]
    by (auto split: if_splits)
  have ls: "scan_lines (slice file s e) s = take (j - i) (drop i ?ls)" by (rule log_span_lines [OF assms])
  show "scan_lines (slice file (s - 1) e) (s - 1) = take (j - i) (drop i ?ls)"
  proof (cases "s = 0")
    case True
    with ls show ?thesis by simp
  next
    case False
    then have nl: "file ! (s - 1) = CHR 0x0A"
      using scan_loop_starts [OF mem [unfolded scan_lines_def]] by (simp add: s scan_lines_def)
    have ne: "scan_lines (slice file s e) s \<noteq> []" using ls ij by simp
    have se: "s < e"
    proof (rule ccontr)
      assume "\<not> s < e"
      then have "slice file s e = []" by (simp add: slice_def)
      with ne show False by (simp add: scan_lines_def)
    qed
    have "drop (s - 1) file = CHR 0x0A # drop s file"
      using False nl el se Cons_nth_drop_Suc [of "s - 1" "file"] by simp
    then have "slice file (s - 1) e = CHR 0x0A # slice file s e"
      using False se by (simp add: slice_def Suc_diff_le)
    with ls False show ?thesis by (simp add: scan_lines_newline)
  qed
qed

lemma load_fresh:
  assumes "j \<le> length (scan_lines file 0)"
  shows "\<exists>notes'. load parse file (index_of log_slot file) notes i j
    = Inr (take (j - i) (drop i (fst (parse_log parse file))), notes')"
proof -
  let ?ix = "index_of log_slot file" and ?es = "fst (parse_log parse file)"
  show ?thesis
  proof (cases "log_span ?ix i j")
    case None
    then have "j \<le> i" using assms by (auto simp: log_span_def log_slots split: if_splits)
    with None show ?thesis by (simp add: load_def)
  next
    case (Some p)
    then obtain s e where span: "log_span ?ix i j = Some (s, e)" by (cases p) auto
    note bl = log_span_before [OF span]
    let ?b = "s - 1" and ?ls = "take (j - i) (drop i (scan_lines file 0))"
    let ?data = "slice file (s - 1) e"
    have rd: "bs_read file ?b e = Inr ?data" using bl(2) by (simp add: bs_read_def)
    have starts: "map line_start ?ls = take (j - i) (drop i (ix_slots ?ix))" by (simp add: log_slots take_map drop_map)
    have same: "line_text ?data ?b l = line_text file 0 l" if "l \<in> set ?ls" for l
    proof -
      have "l \<in> set (scan_lines ?data ?b)" using that bl(1) by simp
      note b = scan_lines_bounds [OF this]
      have len: "length ?data \<le> e - ?b" by (simp add: slice_def)
      then have "line_end l \<le> e" using b by linarith
      with b(1) show ?thesis by (simp add: line_text_def slice_slice)
    qed
    have "map (line_text ?data ?b) ?ls = map (line_text file 0) ?ls"
      using same by (rule map_cong [OF refl])
    also have "\<dots> = take (j - i) (drop i (scan_text [] file))"
      unfolding scan_lines_text [of "file" 0, symmetric] by (simp add: take_map drop_map)
    finally have "map fst (parse_lines parse ?data ?b i ?ls) = take (j - i) (drop i ?es)"
      unfolding parse_lines_entries parse_log_entries by (simp add: take_map drop_map)
    then show ?thesis
      unfolding load_def span option.case prod.case Let_def rd sum.case bl(1) starts by simp
  qed
qed

text \<open>The records of the tree file in order, and what its index knows of them.\<close>

definition ok_records :: "record_parser \<Rightarrow> string list \<Rightarrow> (node \<times> string) list" where
  "ok_records from_json ls =
     concat (map (\<lambda>l. case parse_record from_json l of Inr p \<Rightarrow> [p] | Inl e \<Rightarrow> []) ls)"

lemma foldl_tree_step:
  "fst (foldl (tree_step from_json) (m, w) ls) n =
    (case m n of Some t \<Rightarrow> Some t | None \<Rightarrow> map_of (ok_records from_json ls) n)"
proof (induction ls arbitrary: m w)
  case (Cons l ls)
  show ?case
  proof (cases "parse_record from_json l")
    case (Inl e)
    then have "tree_step from_json (m, w) l = (m, w @ [''chat tree record skipped: '' @ e])"
      by (simp add: tree_step_def)
    then show ?thesis using Inl by (simp add: Cons.IH ok_records_def split: option.split)
  next
    case (Inr p)
    obtain k t where p: "p = (k, t)" by (cases p)
    then have "tree_step from_json (m, w) l = (if m k = None then m(k \<mapsto> t) else m, w)"
      using Inr by (simp add: tree_step_def)
    then show ?thesis using Inr p by (auto simp: Cons.IH ok_records_def split: option.splits)
  qed
qed (simp add: ok_records_def split: option.splits)

lemma parse_tree_map: "fst (parse_tree from_json data) = map_of (ok_records from_json (scan_text [] data))"
  by (rule ext) (simp add: parse_tree_def complete_lines_scan foldl_tree_step)

lemma node_slot_scan_record:
  "node_slot_scan from_json bytes l =
    (case parse_record from_json bytes of Inl e \<Rightarrow> None
     | Inr (n, t) \<Rightarrow> Some \<lparr>ns_node = n, ns_start = line_start l, ns_end = line_end l\<rparr>)"
  by (auto simp: node_slot_scan_def parse_record_def split: sum.splits)

lemma parse_record_json:
  "parse_record from_json bytes = Inr (n, t) \<Longrightarrow>
    \<exists>l h. from_json bytes = Inr (l, h, t) \<and> unat l = node_lo n \<and> unat h = node_hi n"
  by (auto simp: parse_record_def node_new_ok split: sum.splits)

lemma tree_slots_records:
  "map (slot_text from_json file (index_of (tree_slot from_json) file)) (ix_slots (index_of (tree_slot from_json) file))
     = map Inr (ok_records from_json (scan_text [] file))"
  "map fst (ok_records from_json (scan_text [] file)) = map ns_node (ix_slots (index_of (tree_slot from_json) file))"
proof -
  let ?ix = "index_of (tree_slot from_json) file" and ?ls = "scan_lines file 0"
  define f where "f l = node_slot_scan from_json (line_text file 0 l) l" for l
  have slots: "ix_slots ?ix = List.map_filter f ?ls"
    by (simp add: index_of_eq Let_def index_default_def foldl_scan_step tree_slot_def f_def [abs_def] line_text_def List.map_filter_simps)
  have slot: "slot_text from_json file ?ix s = Inr (n, t)"
    if l: "l \<in> set ?ls" and p: "parse_record from_json (line_text file 0 l) = Inr (n, t)"
      and s: "s = \<lparr>ns_node = n, ns_start = line_start l, ns_end = line_end l\<rparr>" for l n t s
  proof -
    have ne: "?ls \<noteq> []" using l by auto
    have "l = last ?ls \<or> line_end l < line_start (last ?ls)"
    proof -
      have "line_end l \<le> line_end l' \<or> line_end l' \<le> line_end l" for l' :: line by linarith
      have tr: "sorted_wrt (\<lambda>a b. line_end a < line_start b) ?ls"
      proof -
        have "neighbours (\<lambda>a b. line_end a < line_start b) ls \<Longrightarrow> \<forall>l\<in>set ls. line_start l < line_end l
            \<Longrightarrow> sorted_wrt (\<lambda>a b. line_end a < line_start b) ls" for ls :: "line list"
        proof (induction ls rule: induct_list012)
          case (3 a b ls)
          then have "sorted_wrt (\<lambda>a b. line_end a < line_start b) (b # ls)" "line_end a < line_start b" by auto
          moreover from this 3(4) have "line_end a < line_start c" if "c \<in> set ls" for c
            using that by fastforce
          ultimately show ?case by simp
        qed auto
        then show ?thesis using scan_lines_ordered scan_lines_bounds(2) by blast
      qed
      show ?thesis using sorted_wrt_last [OF tr l] .
    qed
    then have "line_end l < ix_covered ?ix"
      using scan_lines_bounds(2) [OF last_in_set [OF ne]] ne by (auto simp: index_of_eq Let_def)
    moreover have "bs_read file (line_start l) (line_end l) = Inr (line_text file 0 l)"
      using scan_lines_bounds [OF l] by (simp add: bs_read_def line_text_def)
    ultimately show ?thesis
      using parse_record_json [OF p] by (auto simp: slot_text_def s)
  qed
  have "map (slot_text from_json file ?ix) (List.map_filter f ls) = map Inr (ok_records from_json (map (line_text file 0) ls))
      \<and> map fst (ok_records from_json (map (line_text file 0) ls)) = map ns_node (List.map_filter f ls)"
    if "set ls \<subseteq> set ?ls" for ls
    using that
  proof (induction ls)
    case Nil
    then show ?case by (simp add: ok_records_def List.map_filter_simps)
  next
    case (Cons l ls)
    then have IH: "map (slot_text from_json file ?ix) (List.map_filter f ls) = map Inr (ok_records from_json (map (line_text file 0) ls))"
      "map fst (ok_records from_json (map (line_text file 0) ls)) = map ns_node (List.map_filter f ls)" by auto
    show ?case
    proof (cases "parse_record from_json (line_text file 0 l)")
      case (Inl e)
      then have "f l = None" by (simp add: f_def node_slot_scan_record)
      then show ?thesis using IH Inl by (simp add: ok_records_def List.map_filter_simps)
    next
      case (Inr p)
      obtain n t where p: "p = (n, t)" by (cases p)
      have "f l = Some \<lparr>ns_node = n, ns_start = line_start l, ns_end = line_end l\<rparr>"
        using Inr p by (simp add: f_def node_slot_scan_record)
      moreover have "l \<in> set ?ls" using Cons.prems by simp
      ultimately show ?thesis
        using IH Inr p slot [of l n t] by (simp add: ok_records_def List.map_filter_simps)
    qed
  qed
  from this [OF subset_refl]
  show "map (slot_text from_json file ?ix) (ix_slots ?ix) = map Inr (ok_records from_json (scan_text [] file))"
    "map fst (ok_records from_json (scan_text [] file)) = map ns_node (ix_slots ?ix)"
    by (simp_all add: slots scan_lines_text)
qed

lemma collect_found:
  assumes "map g ss = map Inr recs" "map fst recs = map ns_node ss"
  shows "collect_map (map g (find_slots left ss)) = Inr (\<lambda>n. if n \<in> left then map_of recs n else None)"
  using assms
proof (induction ss arbitrary: left recs)
  case Nil
  then show ?case by (auto simp: fun_eq_iff)
next
  case (Cons s ss)
  then obtain t recs' where r: "recs = (ns_node s, t) # recs'" by (cases recs) auto
  with Cons.prems have g: "g s = Inr (ns_node s, t)" and rest: "map g ss = map Inr recs'" "map fst recs' = map ns_node ss" by auto
  show ?case
    using Cons.IH [OF rest, of left] Cons.IH [OF rest, of "left - {ns_node s}"]
    by (cases "left = {}"; cases "ns_node s \<in> left") (auto simp: g r fun_eq_iff)
qed

lemma tree_nodes_fresh:
  "tree_nodes from_json file (index_of (tree_slot from_json) file) wanted
    = Inr (\<lambda>n. if n \<in> set wanted then fst (parse_tree from_json file) n else None)"
  unfolding tree_nodes_def index_find_def parse_tree_map
  by (rule collect_found [OF tree_slots_records])

text \<open>C27: reading summaries through the index of the tree file gives, for the wanted nodes, exactly the
  summaries that parsing the whole file gives, and never the error that the index is stale.\<close>

theorem indexed_tree_agrees_with_parse:
  "tree_nodes from_json file (index_of (tree_slot from_json) file) wanted
    = Inr (\<lambda>n. if n \<in> set wanted then fst (parse_tree from_json file) n else None)"
  by (rule tree_nodes_fresh)

subsection \<open>Pages through a window\<close>

lemma read_loop_window:
  assumes "\<And>i e. window_get w i = Some e \<Longrightarrow> window_get w' i = Some e \<and> view_text e t i m = view_text e t' i m"
  shows "read_loop w t m left out c = read_loop w' t' m left out c
    \<or> (read_loop w t m left out c = Inr None \<and> (\<exists>i. cu_next c \<le> i \<and> i < cu_end c \<and> window_get w i = None))"
  using assms
proof (induction w t m left out c rule: read_loop.induct)
  case (1 w t m left out c)
  note step = read_loop.simps [of w t m left out c] and step' = read_loop.simps [of w' t' m left out c]
  show ?case
  proof (cases "cu_next c < cu_end c")
    case False
    then show ?thesis by (simp add: step step')
  next
    case go: True
    then have go': "(\<not> cu_next c < cu_end c) = False" by simp
    show ?thesis
    proof (cases "window_get w (cu_next c)")
      case None
      then show ?thesis using go by (intro disjI2 conjI exI [of _ "cu_next c"]) (simp_all add: step)
    next
      case (Some e)
      note same = 1(2) [OF Some]
      let ?text = "view_text e t (cu_next c) m" and ?total = "length (chars_of (view_text e t (cu_next c) m))"
      let ?s = "\<lparr>sl_index = cu_next c, sl_entry = e, sl_total = ?total, sl_offset = cu_offset c\<rparr>"
      let ?whole = "slice_block ?s ?text (?total - cu_offset c)"
      note st = step [unfolded go' Some if_False option.case Let_def]
      note st' = step' [unfolded go' same [THEN conjunct1] if_False option.case Let_def, folded same [THEN conjunct2]]
      show ?thesis
      proof (cases "cu_offset c > 0 \<and> cu_offset c \<ge> ?total")
        case True
        show ?thesis unfolding st st' if_P [OF True] by simp
      next
        case fresh: False
        show ?thesis
        proof (cases "length ?whole \<le> left \<or> (out = [] \<and> ?total - cu_offset c = 0)")
          case True
          let ?step = "c\<lparr>cu_next := cu_next c + 1, cu_offset := 0\<rparr>"
          have eq: "read_loop w t m left out c = read_loop w t m (left - (length ?whole + 2)) (out @ [?whole]) ?step"
            unfolding st if_not_P [OF fresh] if_P [OF True] ..
          have eq': "read_loop w' t' m left out c = read_loop w' t' m (left - (length ?whole + 2)) (out @ [?whole]) ?step"
            unfolding st' if_not_P [OF fresh] if_P [OF True] ..
          have "read_loop w t m (left - (length ?whole + 2)) (out @ [?whole]) ?step
              = read_loop w' t' m (left - (length ?whole + 2)) (out @ [?whole]) ?step
            \<or> (read_loop w t m (left - (length ?whole + 2)) (out @ [?whole]) ?step = Inr None
              \<and> (\<exists>i. cu_next ?step \<le> i \<and> i < cu_end ?step \<and> window_get w i = None))"
            by (rule 1(1) [OF _ Some refl refl fresh refl refl refl True]) (use go 1(2) in auto)
          then show ?thesis
          proof
            assume "read_loop w t m (left - (length ?whole + 2)) (out @ [?whole]) ?step = Inr None
              \<and> (\<exists>i. cu_next ?step \<le> i \<and> i < cu_end ?step \<and> window_get w i = None)"
            then obtain i where none: "read_loop w t m (left - (length ?whole + 2)) (out @ [?whole]) ?step = Inr None"
              and i: "cu_next ?step \<le> i" "i < cu_end ?step" "window_get w i = None" by blast
            have "read_loop w t m left out c = Inr None" using eq none by (rule trans)
            with i show ?thesis by (intro disjI2 conjI exI [of _ i]) simp_all
          qed (simp only: eq eq', simp)
        next
          case False
          show ?thesis unfolding st st' if_not_P [OF fresh] if_not_P [OF False] by simp
        qed
      qed
    qed
  qed
qed

lemma read_loop_not_more:
  assumes "\<And>i. i < cu_end c \<Longrightarrow> window_get w i \<noteq> None"
  shows "read_loop w t m left out c \<noteq> Inr None"
  using assms
proof (induction w t m left out c rule: read_loop.induct)
  case (1 w t m left out c)
  note step = read_loop.simps [of w t m left out c]
  show ?case
  proof (cases "cu_next c < cu_end c")
    case False
    then show ?thesis by (simp add: step)
  next
    case go: True
    then have go': "(\<not> cu_next c < cu_end c) = False" by simp
    obtain e where e: "window_get w (cu_next c) = Some e" using 1(2) go by blast
    note st = step [unfolded go' e if_False option.case Let_def]
    let ?text = "view_text e t (cu_next c) m" and ?total = "length (chars_of (view_text e t (cu_next c) m))"
    let ?s = "\<lparr>sl_index = cu_next c, sl_entry = e, sl_total = ?total, sl_offset = cu_offset c\<rparr>"
    let ?whole = "slice_block ?s ?text (?total - cu_offset c)"
    show ?thesis
    proof (cases "cu_offset c > 0 \<and> cu_offset c \<ge> ?total")
      case True
      show ?thesis unfolding st if_P [OF True] by simp
    next
      case fresh: False
      show ?thesis
      proof (cases "length ?whole \<le> left \<or> (out = [] \<and> ?total - cu_offset c = 0)")
        case True
        show ?thesis
          unfolding st if_not_P [OF fresh] if_P [OF True]
          using 1(1) [OF _ e refl refl fresh refl refl refl True] 1(2) go by simp
      next
        case False
        show ?thesis unfolding st if_not_P [OF fresh] if_not_P [OF False] by (simp split: if_split)
      qed
    qed
  qed
qed

definition window_of :: "entry list \<Rightarrow> nat \<Rightarrow> nat \<Rightarrow> window" where
  "window_of es start fin = \<lparr>w_start = start, w_total = length es, w_entries = take (fin - start) (drop start es)\<rparr>"

lemma window_of_get:
  "fin \<le> length es \<Longrightarrow> window_get (window_of es start fin) i = (if start \<le> i \<and> i < fin then Some (es ! i) else None)"
  by (auto simp: window_get_def window_of_def)

lemma window_full_get: "window_get (window_full es) i = (if i < length es then Some (es ! i) else None)"
  by (simp add: window_get_def window_full_def)

definition request_start :: "range_request \<Rightarrow> nat" where
  "request_start rq = (case rq_cursor rq of None \<Rightarrow> rq_from rq | Some c \<Rightarrow> cu_next c)"

lemma read_range_window:
  assumes fin: "fin \<le> length es" and start: "start \<le> request_start rq"
    and same: "\<And>i. start \<le> i \<Longrightarrow> i < fin \<Longrightarrow> view_text (es ! i) t i (rq_mode rq) = view_text (es ! i) t' i (rq_mode rq)"
  shows "read_range (window_of es start fin) t rq = read_range (window_full es) t' rq
    \<or> (read_range (window_of es start fin) t rq = Inr More \<and> fin < length es)"
proof -
  let ?w = "window_of es start fin" and ?limit = "min (saturating_add (rq_to rq) 1) (length es)"
  have tot: "w_total ?w = length es" "w_total (window_full es) = length es"
    by (simp_all add: window_of_def window_full_def)
  have loop: "read_loop ?w t (rq_mode rq) left [] c = read_loop (window_full es) t' (rq_mode rq) left [] c
      \<or> (read_loop ?w t (rq_mode rq) left [] c = Inr None \<and> fin < length es)"
    if c: "start \<le> cu_next c" "cu_end c \<le> length es" for c left
  proof -
    have "window_get (window_full es) i = Some e \<and> view_text e t i (rq_mode rq) = view_text e t' i (rq_mode rq)"
      if "window_get ?w i = Some e" for i e
      using that fin same by (auto simp: window_of_get window_full_get split: if_splits)
    from read_loop_window [where w = ?w and w' = "window_full es" and left = left and out = "[]" and c = c, OF this] show ?thesis
      using c fin by (auto simp: window_of_get split: if_splits)
  qed
  define start_cursor where "start_cursor = (case rq_cursor rq of
      None \<Rightarrow> Inr \<lparr>cu_next = rq_from rq, cu_offset = 0, cu_end = ?limit, cu_mode = rq_mode rq\<rparr>
    | Some c \<Rightarrow> (case validate_cursor c (rq_from rq) ?limit (length es) (rq_mode rq) of Inl e \<Rightarrow> Inl e | Inr _ \<Rightarrow> Inr c))"
  show ?thesis
  proof (cases "rq_from rq > rq_to rq \<or> rq_from rq \<ge> length es \<or> \<not> in_budget_range (rq_budget rq)")
    case True
    then show ?thesis by (auto simp: read_range_def Let_def tot)
  next
    case False
    then have eq: "read_range w u rq = (case start_cursor of Inl e \<Rightarrow> Inl e
        | Inr c \<Rightarrow> (case read_loop w u (rq_mode rq) (rq_budget rq * BYTES_PER_TOKEN) [] c of
            Inl e \<Rightarrow> Inl e | Inr None \<Rightarrow> Inr More
          | Inr (Some (bs, c')) \<Rightarrow> Inr (Page \<lparr>pg_blocks = bs, pg_next = if cu_next c' < cu_end c' then Some c' else None\<rparr>)))"
      if "w_total w = length es" for w u
      using that by (simp add: read_range_def Let_def start_cursor_def del: One_nat_def)
    show ?thesis
    proof (cases start_cursor)
      case (Inl e)
      then show ?thesis by (simp add: eq tot)
    next
      case (Inr c)
      then have "start \<le> cu_next c" "cu_end c \<le> length es"
        using start by (auto simp: start_cursor_def request_start_def validate_cursor_def split: option.splits sum.splits if_splits)
      from loop [OF this, of "rq_budget rq * BYTES_PER_TOKEN"] show ?thesis
        by (auto simp: eq tot Inr)
    qed
  qed
qed

lemma read_range_not_more: "read_range (window_full es) t rq \<noteq> Inr More"
proof
  assume more: "read_range (window_full es) t rq = Inr More"
  have no: "read_loop (window_full es) t (rq_mode rq) left [] c \<noteq> Inr None" if "cu_end c \<le> length es" for c left
    using read_loop_not_more [of c "window_full es"] that by (auto simp: window_full_get)
  have tot: "w_total (window_full es) = length es" by (simp add: window_full_def)
  show False
    using more no by (auto simp: read_range_def Let_def tot validate_cursor_def split: if_splits sum.splits option.splits)
qed

text \<open>What \<open>read_page\<close> returns when all entries and the whole tree are in memory.\<close>

definition page_of :: "read result \<Rightarrow> range_page result" where
  "page_of r = (case r of Inl e \<Rightarrow> Inl e | Inr (Page p) \<Rightarrow> Inr p | Inr More \<Rightarrow> Inl [])"

lemma long_leaves_mem:
  assumes "i < length es" "SUMMARY_BYTES < length (e_text (es ! i))"
  shows "node_leaf (start + i) \<in> set (long_leaves start es)"
proof -
  have "(start + i, es ! i) \<in> set (zip [start..<start + length es] es)"
    using assms(1) by (auto simp: in_set_zip intro!: exI [of _ i])
  then show ?thesis
    using assms(2) by (auto simp: long_leaves_def intro!: image_eqI [of _ _ "(start + i, es ! i)"])
qed

lemma page_loop_eq:
  assumes es: "es = fst (parse_log parse file)" "length es \<le> u64_max"
    and nodes: "\<And>wanted. nodes wanted = Inr (\<lambda>n. if n \<in> set wanted then tree n else None)"
    and start: "start \<le> request_start rq" "start \<le> length es" and count: "0 < count"
  shows "\<exists>notes'. page_loop parse file (index_of log_slot file) nodes rq start count notes
    = Some (Inr (page_of (read_range (window_full es) tree rq), notes'))"
  using count
proof (induction "length es - count" arbitrary: count "notes" rule: less_induct)
  case less
  let ?ix = "index_of log_slot file" and ?fin = "min (saturating_add start count) (length es)"
  have len: "length (ix_slots ?ix) = length es"
    using arg_cong [OF scan_lines_text [of "file" 0], of length] by (simp add: es parse_log_entries log_slots)
  then have "?fin \<le> length (scan_lines file 0)" by (simp add: log_slots)
  from load_fresh [OF this, of parse "notes" start] obtain notes' where
    load: "load parse file ?ix notes start ?fin = Inr (take (?fin - start) (drop start es), notes')"
    by (auto simp: es)
  let ?part = "take (?fin - start) (drop start es)"
  define t where "t = (case rq_mode rq of Summary \<Rightarrow> (\<lambda>n. if n \<in> set (long_leaves start ?part) then tree n else None) | Raw \<Rightarrow> (\<lambda>_. None))"
  have t: "(case rq_mode rq of Summary \<Rightarrow> nodes (long_leaves start ?part) | Raw \<Rightarrow> Inr (\<lambda>_. None)) = Inr t"
    by (simp add: t_def nodes split: mode.split)
  have same: "view_text (es ! i) t i (rq_mode rq) = view_text (es ! i) tree i (rq_mode rq)" if i: "start \<le> i" "i < ?fin" for i
  proof (cases "rq_mode rq = Summary \<and> SUMMARY_BYTES < length (e_text (es ! i))")
    case True
    then have "node_leaf (start + (i - start)) \<in> set (long_leaves start ?part)"
      using i by (intro long_leaves_mem) auto
    then show ?thesis using True i by (simp add: view_text_def t_def)
  next
    case False
    then show ?thesis by (cases "rq_mode rq") (auto simp: view_text_def)
  qed
  have win: "\<lparr>w_start = start, w_total = length (ix_slots ?ix), w_entries = ?part\<rparr> = window_of es start ?fin"
    by (simp add: window_of_def len)
  note step = page_loop.simps [of parse "file" ?ix nodes rq start count "notes", unfolded Let_def len load sum.case prod.case t win [unfolded len]]
  from read_range_window [OF _ start(1) same, of ?fin] consider
      "read_range (window_of es start ?fin) t rq = read_range (window_full es) tree rq"
    | "read_range (window_of es start ?fin) t rq = Inr More" "?fin < length es" by auto
  then show ?case
  proof cases
    case 1
    then show ?thesis
      using read_range_not_more [of es tree rq] by (auto simp: step page_of_def split: sum.split read.split)
  next
    case 2
    let ?c = "min (count * 2) u64_max"
    have lt: "start + count < length es"
      using 2(2) es(2) by (auto simp: saturating_add_def min_def split: if_splits)
    then have big: "count < ?c" using less(2) es(2) by simp
    have "length es - ?c < length es - count" using lt big by linarith
    moreover have "0 < ?c" using big by linarith
    ultimately have "\<exists>notes''. page_loop parse file ?ix nodes rq start ?c notes'
        = Some (Inr (page_of (read_range (window_full es) tree rq), notes''))" by (rule less(1))
    then show ?thesis unfolding step 2(1) using 2(2) by (simp only: sum.case read.case if_True)
  qed
qed

lemma read_page_eq:
  assumes "es = fst (parse_log parse file)" "length es \<le> u64_max"
  shows "\<exists>notes'. read_page parse file (index_of log_slot file)
      (tree_nodes from_json tree (index_of (tree_slot from_json) tree)) notes rq
    = Some (Inr (page_of (read_range (window_full es) (fst (parse_tree from_json tree)) rq), notes'))"
proof -
  let ?start = "min (request_start rq) (length (ix_slots (index_of log_slot file)))"
  have len: "length (ix_slots (index_of log_slot file)) = length es"
    using arg_cong [OF scan_lines_text [of "file" 0], of length] by (simp add: assms(1) parse_log_entries log_slots)
  show ?thesis
    unfolding read_page_def Let_def request_start_def [symmetric]
    by (rule page_loop_eq [OF assms])
      (simp_all add: tree_nodes_fresh len first_window_def)
qed

text \<open>C1: a page read from the files, loading only a window of the log that grows while the page runs past
  it, always returns, and returns exactly what reading from all entries and the whole tree in memory
  returns: the same page, the same next cursor, or the same error.\<close>

theorem read_page_refines_read_range:
  assumes "length (fst (parse_log parse file)) \<le> u64_max"
  shows "\<exists>notes'. read_page parse file (index_of log_slot file)
      (tree_nodes from_json tree (index_of (tree_slot from_json) tree)) notes rq
    = Some (Inr (page_of (read_range (window_full (fst (parse_log parse file))) (fst (parse_tree from_json tree)) rq), notes'))
    \<and> read_range (window_full (fst (parse_log parse file))) (fst (parse_tree from_json tree)) rq \<noteq> Inr More"
  using read_page_eq [OF refl assms] read_range_not_more by blast

theorem read_page_refines_read_range_witness:
  "\<exists>notes'. read_page (\<lambda>s. Inr \<lparr>e_role = RoleUser, e_at = [], e_text = s, e_corrupt = False\<rparr>) [CHR ''a'', CHR 0x0A]
      (index_of log_slot [CHR ''a'', CHR 0x0A])
      (tree_nodes (\<lambda>s. Inr (2, 4, s)) [] (index_of (tree_slot (\<lambda>s. Inr (2, 4, s))) [])) []
      \<lparr>rq_from = 0, rq_to = 0, rq_mode = Raw, rq_budget = 9, rq_cursor = None\<rparr>
    = Some (Inr (page_of (read_range
        (window_full (fst (parse_log (\<lambda>s. Inr \<lparr>e_role = RoleUser, e_at = [], e_text = s, e_corrupt = False\<rparr>) [CHR ''a'', CHR 0x0A])))
        (fst (parse_tree (\<lambda>s. Inr (2, 4, s)) []))
        \<lparr>rq_from = 0, rq_to = 0, rq_mode = Raw, rq_budget = 9, rq_cursor = None\<rparr>), notes'))"
proof -
  have "length (fst (parse_log (\<lambda>s. Inr \<lparr>e_role = RoleUser, e_at = [], e_text = s, e_corrupt = False\<rparr>) [CHR ''a'', CHR 0x0A])) \<le> u64_max"
    by (simp add: parse_log_entries u64_max_def blank_def is_ascii_ws_def)
  from read_page_refines_read_range [OF this] show ?thesis by blast
qed

end
