(* ===== verification/Memory_View.thy ===== *)
theory Memory_View
  imports Memory_Lines
begin

section \<open>The view of the chat\<close>

text \<open>
  \<open>crates/core/src/chat_memory/tree.rs\<close>: the nodes that still need a summary (\<open>pending\<close>), the
  budgeted view (\<open>view\<close>), and its split into an older part, a middle part and a verbatim tail
  (\<open>split_view\<close>). Block lists are kept as \<open>tiling\<close>s of the chat; the loop of \<open>view\<close> is a
  total function, its measure is the number of entries under blocks without a summary.
\<close>

subsection \<open>Pending nodes\<close>

fun damaged_from :: "nat \<Rightarrow> entry list \<Rightarrow> nat list" where
  "damaged_from seen [] = [seen]"
| "damaged_from seen (e # es) = seen # damaged_from (seen + (if e_corrupt e then 1 else 0)) es"

definition damaged_prefix :: "entry list \<Rightarrow> nat list" where
  "damaged_prefix entries = damaged_from 0 entries"

definition intact :: "entry list \<Rightarrow> node \<Rightarrow> bool" where
  "intact entries n \<longleftrightarrow>
     damaged_prefix entries ! node_hi n = damaged_prefix entries ! node_lo n"

definition pending_leaves :: "entry list \<Rightarrow> tree \<Rightarrow> node list" where
  "pending_leaves entries tree =
     filter (\<lambda>n. tree n = None)
       (map (\<lambda>(i, e). node_leaf i) (filter (\<lambda>(i, e). is_long e) (enumerate 0 entries)))"

text \<open>The \<open>while size <= t\<close> loop, from a given block size on.\<close>

function pending_blocks :: "entry list \<Rightarrow> tree \<Rightarrow> nat \<Rightarrow> node list" where
  "pending_blocks entries tree sz =
     (if sz \<le> length entries \<and> 0 < sz
      then filter (\<lambda>n. tree n = None \<and> intact entries n)
             (map (\<lambda>k. mk_node (k * sz) ((k + 1) * sz)) [0..<length entries div sz])
           @ pending_blocks entries tree (sz * 2)
      else [])"
  by pat_completeness auto
termination
  by (relation "measure (\<lambda>(entries, tree, sz). Suc (length entries) - sz)") auto

declare pending_blocks.simps [simp del]

definition pending :: "entry list \<Rightarrow> tree \<Rightarrow> node list" where
  "pending entries tree = pending_leaves entries tree @ pending_blocks entries tree 2"

subsection \<open>The budgeted view\<close>

text \<open>\<open>max_by_key\<close> keeps the last of several maximal elements.\<close>

definition max_by_key :: "('a \<Rightarrow> nat) \<Rightarrow> 'a list \<Rightarrow> 'a option" where
  "max_by_key key xs =
     (case xs of [] \<Rightarrow> None
      | x # ys \<Rightarrow> Some (foldl (\<lambda>m y. if key m \<le> key y then y else m) x ys))"

definition split_target :: "entry list \<Rightarrow> tree \<Rightarrow> node list \<Rightarrow> node option" where
  "split_target entries tree nodes =
     max_by_key node_lo
       (filter (\<lambda>n. 1 < node_size n \<and> node_line entries tree n = None) nodes)"

definition mergeable :: "tree \<Rightarrow> node \<Rightarrow> node \<Rightarrow> node \<Rightarrow> bool" where
  "mergeable tree target l r \<longleftrightarrow>
     node_size l = node_size r \<and> node_lo l mod (2 * node_size l) = 0 \<and> node_hi l = node_lo r
     \<and> l \<noteq> target \<and> r \<noteq> target \<and> tree (mk_node (node_lo l) (node_hi r)) \<noteq> None"

fun mergeable_pair :: "tree \<Rightarrow> node list \<Rightarrow> node \<Rightarrow> nat option" where
  "mergeable_pair tree (l # r # ns) target =
     (if mergeable tree target l r then Some 0
      else map_option Suc (mergeable_pair tree (r # ns) target))"
| "mergeable_pair tree _ target = None"

text \<open>\<open>nodes.splice(i..i + 2, [parent])\<close> and \<open>nodes.splice(i..=i, [left, right])\<close>.\<close>

definition merge_at :: "node list \<Rightarrow> nat \<Rightarrow> node list" where
  "merge_at nodes i =
     take i nodes @ [mk_node (node_lo (nodes ! i)) (node_hi (nodes ! (i + 1)))] @ drop (i + 2) nodes"

definition split_at :: "node list \<Rightarrow> nat \<Rightarrow> node \<Rightarrow> node list" where
  "split_at nodes i target =
     (let (l, r) = halves target in take i nodes @ [l, r] @ drop (Suc i) nodes)"

text \<open>
  One pass of the \<open>while let\<close> loop for a target: \<open>Inl\<close> is a \<open>break\<close> with the nodes as they
  are then, \<open>Inr\<close> goes round again.
\<close>

definition view_pass :: "tree \<Rightarrow> nat \<Rightarrow> node list \<Rightarrow> node \<Rightarrow> node list + node list" where
  "view_pass tree budget nodes target =
     (case (if budget \<le> length nodes then map_option (merge_at nodes) (mergeable_pair tree nodes target)
            else Some nodes) of
        None \<Rightarrow> Inl nodes
      | Some ns \<Rightarrow> (case position (\<lambda>n. n = target) ns of
            None \<Rightarrow> Inl ns
          | Some i \<Rightarrow> Inr (split_at ns i target)))"

text \<open>The measure: what blocks without a summary hold, one less each.\<close>

definition unsummed :: "entry list \<Rightarrow> tree \<Rightarrow> node \<Rightarrow> nat" where
  "unsummed entries tree n =
     (if 1 < node_size n \<and> node_line entries tree n = None then node_size n - 1 else 0)"

definition unsummed_total :: "entry list \<Rightarrow> tree \<Rightarrow> node list \<Rightarrow> nat" where
  "unsummed_total entries tree nodes = sum_list (map (unsummed entries tree) nodes)"

lemma unsummed_total_simps [simp]:
  "unsummed_total entries tree [] = 0"
  "unsummed_total entries tree (n # ns) = unsummed entries tree n + unsummed_total entries tree ns"
  "unsummed_total entries tree (ns @ ms) = unsummed_total entries tree ns + unsummed_total entries tree ms"
  by (simp_all add: unsummed_total_def)

lemma max_by_key_in: "max_by_key key xs = Some x \<Longrightarrow> x \<in> set xs"
proof -
  have "foldl (\<lambda>m y. if key m \<le> key y then y else m) a ys \<in> insert a (set ys)" for a ys
    by (induction ys arbitrary: a) auto
  then show "max_by_key key xs = Some x \<Longrightarrow> x \<in> set xs"
    by (fastforce simp: max_by_key_def split: list.splits)
qed

lemma max_by_key_None [simp]: "max_by_key key xs = None \<longleftrightarrow> xs = []"
  by (auto simp: max_by_key_def split: list.splits)

lemma split_target_Some:
  assumes "split_target entries tree nodes = Some n"
  shows "n \<in> set nodes \<and> 1 < node_size n \<and> node_line entries tree n = None"
  using max_by_key_in [OF assms [unfolded split_target_def]] by auto

lemma split_target_None:
  "split_target entries tree nodes = None \<longleftrightarrow>
     (\<forall>n \<in> set nodes. 1 < node_size n \<longrightarrow> node_line entries tree n \<noteq> None)"
  by (auto simp: split_target_def filter_empty_conv)

lemma mergeable_pair_Some:
  "mergeable_pair tree nodes target = Some i \<Longrightarrow>
     Suc i < length nodes \<and> mergeable tree target (nodes ! i) (nodes ! Suc i)"
proof (induction tree nodes target arbitrary: i rule: mergeable_pair.induct)
  case (1 tree l r ns target)
  then show ?case by (cases i) (auto split: if_splits)
qed auto

lemma take_two_drop:
  "Suc i < length xs \<Longrightarrow> xs = take i xs @ [xs ! i, xs ! Suc i] @ drop (i + 2) xs"
  by (metis (no_types, lifting) Cons_nth_drop_Suc Suc_lessD add_2_eq_Suc' append_Cons append_Nil
      append_take_drop_id)

lemma unsummed_merge_at:
  assumes "mergeable_pair tree nodes target = Some i"
  shows "unsummed_total entries tree (merge_at nodes i) \<le> unsummed_total entries tree nodes"
proof -
  from mergeable_pair_Some [OF assms] have i: "Suc i < length nodes"
    and m: "mergeable tree target (nodes ! i) (nodes ! Suc i)" by auto
  let ?p = "mk_node (node_lo (nodes ! i)) (node_hi (nodes ! Suc i))"
  have "unsummed entries tree ?p = 0"
    using m by (auto simp: unsummed_def node_line_def block_line_def mergeable_def)
  moreover have "unsummed_total entries tree nodes = unsummed_total entries tree
      (take i nodes @ [nodes ! i, nodes ! Suc i] @ drop (i + 2) nodes)"
    using take_two_drop [OF i] by simp
  ultimately show ?thesis by (simp add: merge_at_def)
qed

lemma unsummed_halves:
  assumes "1 < node_size n" "halves n = (l, r)"
  shows "unsummed entries tree l + unsummed entries tree r < node_size n - 1"
proof -
  define m where "m = (node_lo n + node_hi n) div 2"
  have m: "node_lo n < m" "m < node_hi n" using assms(1) by (auto simp: m_def node_size_def)
  have "l = mk_node (node_lo n) m" "r = mk_node m (node_hi n)"
    using assms(2) by (simp_all add: halves_def m_def Let_def)
  then have "unsummed entries tree l \<le> m - node_lo n - 1" "unsummed entries tree r \<le> node_hi n - m - 1"
    by (auto simp: unsummed_def node_size_def)
  with m show ?thesis by (simp add: node_size_def)
qed

lemma unsummed_split_at:
  assumes "position (\<lambda>n. n = target) nodes = Some i" "1 < node_size target"
    and "node_line entries tree target = None"
  shows "unsummed_total entries tree (split_at nodes i target) < unsummed_total entries tree nodes"
proof -
  from position_Some [OF assms(1)] have i: "i < length nodes" "nodes ! i = target" by auto
  obtain l r where h: "halves target = (l, r)" by fastforce
  have "unsummed_total entries tree nodes
      = unsummed_total entries tree (take i nodes @ target # drop (Suc i) nodes)"
    using id_take_nth_drop [OF i(1)] i(2) by simp
  moreover have "unsummed entries tree target = node_size target - 1"
    using assms(2,3) by (simp add: unsummed_def)
  ultimately show ?thesis
    using unsummed_halves [OF assms(2) h] by (simp add: split_at_def h)
qed

lemma view_pass_decreases:
  assumes "split_target entries tree nodes = Some target" "view_pass tree budget nodes target = Inr ns"
  shows "unsummed_total entries tree ns < unsummed_total entries tree nodes"
proof -
  note t = split_target_Some [OF assms(1)]
  from assms(2) obtain ms i where ms: "ms = nodes \<or> (\<exists>k. mergeable_pair tree nodes target = Some k \<and> ms = merge_at nodes k)"
    and i: "position (\<lambda>n. n = target) ms = Some i" and ns: "ns = split_at ms i target"
    by (auto simp: view_pass_def split: option.splits if_splits)
  have "unsummed_total entries tree ns < unsummed_total entries tree ms"
    using unsummed_split_at [OF i] t ns by simp
  also have "\<dots> \<le> unsummed_total entries tree nodes"
    using ms unsummed_merge_at by auto
  finally show ?thesis .
qed

function view_loop :: "entry list \<Rightarrow> tree \<Rightarrow> nat \<Rightarrow> node list \<Rightarrow> node list" where
  "view_loop entries tree budget nodes =
     (case split_target entries tree nodes of
        None \<Rightarrow> nodes
      | Some target \<Rightarrow>
          (case view_pass tree budget nodes target of
             Inl ns \<Rightarrow> ns
           | Inr ns \<Rightarrow> view_loop entries tree budget ns))"
  by pat_completeness auto
termination
  by (relation "measure (\<lambda>(entries, tree, budget, nodes). unsummed_total entries tree nodes)")
    (auto intro: view_pass_decreases)

declare view_loop.simps [simp del]

definition view_nodes :: "entry list \<Rightarrow> tree \<Rightarrow> nat \<Rightarrow> node list" where
  "view_nodes entries tree budget = view_loop entries tree budget (cover (length entries) budget)"

definition view :: "entry list \<Rightarrow> tree \<Rightarrow> nat \<Rightarrow> string list" where
  "view entries tree budget =
     merge_notices (map (shown_node entries tree) (view_nodes entries tree budget))"

subsection \<open>The split view\<close>

definition OLDER_VIEW_STEP :: nat where
  "OLDER_VIEW_STEP = 256"

definition TAIL_STEP :: nat where
  "TAIL_STEP = 32"

text \<open>\<open>start - start.checked_rem(step).unwrap_or(0)\<close>: no step, no cut.\<close>

definition stable_cut :: "nat \<Rightarrow> nat \<Rightarrow> nat" where
  "stable_cut start step = start - (if step = 0 then 0 else start mod step)"

definition estimate_tokens :: "string \<Rightarrow> nat" where
  "estimate_tokens text = (length text + 2) div 3"

text \<open>The loop \<open>for i in (from..len).rev()\<close>; its index counts down to \<open>from\<close>.\<close>

fun verbatim_loop :: "entry list \<Rightarrow> nat \<Rightarrow> nat \<Rightarrow> nat \<Rightarrow> nat \<Rightarrow> nat \<Rightarrow> nat" where
  "verbatim_loop entries from budget used start 0 = start"
| "verbatim_loop entries from budget used start (Suc i) =
     (if i < from then start
      else (let used = used + estimate_tokens (e_text (entries ! i))
            in if budget < used then start else verbatim_loop entries from budget used i i))"

definition verbatim_start :: "entry list \<Rightarrow> nat \<Rightarrow> nat \<Rightarrow> nat" where
  "verbatim_start entries from budget =
     verbatim_loop entries from budget 0 (length entries) (length entries)"

definition entries_to_shift :: "entry list \<Rightarrow> nat \<Rightarrow> nat" where
  "entries_to_shift entries recent =
     (let start = verbatim_start entries 0 recent
      in stable_cut start OLDER_VIEW_STEP + OLDER_VIEW_STEP - start)"

definition tail_shown :: "entry list \<Rightarrow> tree \<Rightarrow> nat \<Rightarrow> nat \<Rightarrow> shown list" where
  "tail_shown entries tree from budget =
     (let start = verbatim_start entries from budget
      in map (\<lambda>i. shown_node entries tree (node_leaf i)) [from..<start]
         @ map (\<lambda>i. let e = entries ! i in
                  if e_corrupt e then Unreadable i else Line (entry_line i e (e_text e)))
             [start..<length entries])"

definition tail_lines :: "entry list \<Rightarrow> tree \<Rightarrow> nat \<Rightarrow> nat \<Rightarrow> string list" where
  "tail_lines entries tree from budget = merge_notices (tail_shown entries tree from budget)"

text \<open>
  An empty block (which no caller builds: blocks are cut from aligned ranges) stops the
  recursion here. \<open>block_lines\<close>: the summary of a block, or those of its halves, down to the entries.
\<close>

function block_lines :: "entry list \<Rightarrow> tree \<Rightarrow> node \<Rightarrow> shown list" where
  "block_lines entries tree n =
     (if node_size n \<le> 1 then [shown_node entries tree n]
      else case node_line entries tree n of
        Some line \<Rightarrow> [Line line]
      | None \<Rightarrow> (let (l, r) = halves n
                in block_lines entries tree l @ block_lines entries tree r))"
  by pat_completeness auto
termination
  by (relation "measure (\<lambda>(entries, tree, n). node_size n)")
    (auto simp: halves_def node_size_def Let_def)

declare block_lines.simps [simp del]

definition middle_shown :: "entry list \<Rightarrow> tree \<Rightarrow> nat \<Rightarrow> nat \<Rightarrow> shown list" where
  "middle_shown entries tree from to =
     concat (map (\<lambda>k. block_lines entries tree
                (mk_node (from + k * TAIL_STEP) (from + k * TAIL_STEP + TAIL_STEP)))
       [0..<(to - from + TAIL_STEP - 1) div TAIL_STEP])"

definition middle_lines :: "entry list \<Rightarrow> tree \<Rightarrow> nat \<Rightarrow> nat \<Rightarrow> string list" where
  "middle_lines entries tree from to = merge_notices (middle_shown entries tree from to)"

record view_split =
  vs_older :: "string list"
  vs_middle :: "string list"
  vs_tail :: "string list"

definition split_view :: "entry list \<Rightarrow> tree \<Rightarrow> nat \<Rightarrow> nat \<Rightarrow> view_split" where
  "split_view entries tree budget recent =
     (let start = verbatim_start entries 0 recent;
          frozen = stable_cut start OLDER_VIEW_STEP;
          cut = stable_cut start TAIL_STEP
      in \<lparr>vs_older = view (take frozen entries) tree budget,
          vs_middle = middle_lines entries tree frozen cut,
          vs_tail = tail_lines entries tree cut recent\<rparr>)"

end
