(* ===== verification/Memory_View_Facts.thy ===== *)
theory Memory_View_Facts
  imports Memory_View
begin

section \<open>What the view shows\<close>

text \<open>
  The loop of \<open>view\<close> keeps a tiling of the chat and its size; it ends with every block
  summarised, or with the budget used up and nothing left to merge. The three parts of the
  split view follow each other without gap or overlap, and the verbatim tail is the longest
  one within its token budget. \<open>pending\<close> lists exactly the nodes that lack a summary, each
  after its halves.
\<close>

subsection \<open>Tilings\<close>

lemma tiling_Nil [simp, node_simps]: "tiling a b [] \<longleftrightarrow> a = b"
  by (simp add: tiling_def)

lemma tiling_Cons [node_simps]:
  "tiling a c (n # ns) \<longleftrightarrow> node_lo n = a \<and> aligned n \<and> tiling (node_hi n) c ns"
  by (auto simp: tiling_def node_pair_def aligned_def)

lemma tiling_append [node_simps]: "tiling a c (xs @ ys) \<longleftrightarrow> (\<exists>b. tiling a b xs \<and> tiling b c ys)"
  by (induction xs arbitrary: a) (auto simp: tiling_Cons)

lemma tiling_aligned: "tiling a b ns \<Longrightarrow> n \<in> set ns \<Longrightarrow> aligned n"
  by (simp add: tiling_def list_all_iff)

lemma tiling_appendI [partition_intros]: "tiling a b xs \<Longrightarrow> tiling b c ys \<Longrightarrow> tiling a c (xs @ ys)"
  by (auto simp: tiling_append)

lemma tiling_halves [partition_intros]:
  assumes "aligned n" "1 < node_size n" "halves n = (l, r)"
  shows "tiling (node_lo n) (node_hi n) [l, r]"
  using halves_aligned [OF assms] by (simp add: tiling_Cons)

lemma tiling_replace:
  assumes "tiling a c (xs @ ys @ zs)" "\<And>p q. tiling p q ys \<Longrightarrow> tiling p q ys'"
  shows "tiling a c (xs @ ys' @ zs)"
  using assms by (auto simp: tiling_append)

text \<open>Two neighbours the merge accepts join to an aligned block.\<close>

lemma mergeable_tiling:
  assumes "mergeable tree target l r" "tiling p q [l, r]"
  shows "tiling p q [mk_node (node_lo l) (node_hi r)]"
proof -
  from assms have al: "aligned l" "aligned r" and eq: "node_hi l = node_lo r"
    and sz: "node_size l = node_size r" and d: "node_lo l mod (2 * node_size l) = 0"
    and pq: "node_lo l = p" "node_hi r = q"
    by (auto simp: mergeable_def tiling_Cons)
  have s: "node_size (mk_node (node_lo l) (node_hi r)) = 2 * node_size l"
    using al eq sz by (auto simp: node_size_def aligned_def)
  have "is_power_of_two (2 * node_size l)"
    using al by (auto simp: aligned_def)
  then have "aligned (mk_node (node_lo l) (node_hi r))"
    using s d al eq by (auto simp: aligned_def)
  with pq show ?thesis by (simp add: tiling_Cons)
qed

lemma merge_at_tiling:
  assumes "tiling a b nodes" "mergeable_pair tree nodes target = Some i"
  shows "tiling a b (merge_at nodes i)"
proof -
  note m = mergeable_pair_Some [OF assms(2)]
  have "tiling a b (take i nodes @ [nodes ! i, nodes ! Suc i] @ drop (i + 2) nodes)"
    using assms(1) take_two_drop m by metis
  then have "tiling a b (take i nodes @ [mk_node (node_lo (nodes ! i)) (node_hi (nodes ! Suc i))]
      @ drop (i + 2) nodes)"
    by (rule tiling_replace) (use m mergeable_tiling in blast)
  then show ?thesis by (simp add: merge_at_def)
qed

lemma split_at_tiling:
  assumes "tiling a b nodes" "position (\<lambda>n. n = target) nodes = Some i" "1 < node_size target"
  shows "tiling a b (split_at nodes i target)"
proof -
  from position_Some [OF assms(2)] have i: "i < length nodes" "nodes ! i = target" by auto
  then have al: "aligned target" using assms(1) tiling_aligned nth_mem by blast
  obtain l r where h: "halves target = (l, r)" by fastforce
  have "tiling a b (take i nodes @ [target] @ drop (Suc i) nodes)"
    using assms(1) id_take_nth_drop [OF i(1)] i(2) by simp
  then have "tiling a b (take i nodes @ [l, r] @ drop (Suc i) nodes)"
    by (rule tiling_replace) (use tiling_halves [OF al assms(3) h] in \<open>auto simp: tiling_Cons\<close>)
  then show ?thesis by (simp add: split_at_def h)
qed

subsection \<open>The view's loop\<close>

lemma length_merge_at: "Suc i < length nodes \<Longrightarrow> Suc (length (merge_at nodes i)) = length nodes"
  by (simp add: merge_at_def)

lemma length_split_at: "i < length nodes \<Longrightarrow> length (split_at nodes i target) = Suc (length nodes)"
  by (simp add: split_at_def split: prod.splits)

lemma target_survives_merge:
  assumes "mergeable_pair tree nodes target = Some i" "target \<in> set nodes"
  shows "target \<in> set (merge_at nodes i)"
proof -
  note m = mergeable_pair_Some [OF assms(1)]
  have "set nodes = set (take i nodes @ [nodes ! i, nodes ! Suc i] @ drop (i + 2) nodes)"
    using take_two_drop m by metis
  with assms(2) m show ?thesis by (auto simp: merge_at_def mergeable_def)
qed

text \<open>
  A pass goes on with a tiling of the same interval, one longer or as long as before, unless
  the budget is used up and no pair can be merged.
\<close>

lemma view_pass_cases:
  assumes "tiling a b nodes" "split_target entries tree nodes = Some target"
  shows "(view_pass tree budget nodes target = Inl nodes \<and> budget \<le> length nodes
            \<and> mergeable_pair tree nodes target = None)
    \<or> (\<exists>ns. view_pass tree budget nodes target = Inr ns \<and> tiling a b ns
            \<and> length ns = (if budget \<le> length nodes then length nodes else Suc (length nodes)))"
proof -
  note t = split_target_Some [OF assms(2)]
  have go: "\<exists>i. position (\<lambda>n. n = target) ms = Some i \<and> tiling a b (split_at ms i target)
      \<and> length (split_at ms i target) = Suc (length ms)"
    if ms: "tiling a b ms" and mem: "target \<in> set ms" for ms
  proof -
    obtain i where i: "position (\<lambda>n. n = target) ms = Some i"
      using mem position_None [of "\<lambda>n. n = target" ms] by (cases "position (\<lambda>n. n = target) ms") auto
    with ms t show ?thesis
      using split_at_tiling length_split_at position_Some [OF i] by auto
  qed
  show ?thesis
  proof (cases "budget \<le> length nodes")
    case True
    show ?thesis
    proof (cases "mergeable_pair tree nodes target")
      case None
      with True show ?thesis by (simp add: view_pass_def)
    next
      case (Some k)
      note m = mergeable_pair_Some [OF Some]
      from go [OF merge_at_tiling [OF assms(1) Some] target_survives_merge [OF Some]] t
      obtain i where "position (\<lambda>n. n = target) (merge_at nodes k) = Some i"
        "tiling a b (split_at (merge_at nodes k) i target)"
        "length (split_at (merge_at nodes k) i target) = Suc (length (merge_at nodes k))" by blast
      with True Some m length_merge_at [of k nodes] show ?thesis by (simp add: view_pass_def)
    qed
  next
    case False
    from go [OF assms(1)] t obtain i where "position (\<lambda>n. n = target) nodes = Some i"
      "tiling a b (split_at nodes i target)" "length (split_at nodes i target) = Suc (length nodes)" by blast
    with False show ?thesis by (simp add: view_pass_def)
  qed
qed

definition view_settled :: "entry list \<Rightarrow> tree \<Rightarrow> nat \<Rightarrow> node list \<Rightarrow> bool" where
  "view_settled entries tree budget nodes \<longleftrightarrow>
     (case split_target entries tree nodes of
        None \<Rightarrow> True
      | Some target \<Rightarrow> budget \<le> length nodes \<and> mergeable_pair tree nodes target = None)"

lemma view_loop_invariant:
  assumes "tiling a b nodes"
  shows "tiling a b (view_loop entries tree budget nodes)
    \<and> length nodes \<le> length (view_loop entries tree budget nodes)
    \<and> length (view_loop entries tree budget nodes) \<le> max budget (length nodes)
    \<and> view_settled entries tree budget (view_loop entries tree budget nodes)"
  using assms
proof (induction entries tree budget nodes rule: view_loop.induct)
  case (1 entries tree budget nodes)
  note unfold = view_loop.simps [of entries tree budget nodes]
  show ?case
  proof (cases "split_target entries tree nodes")
    case None
    then show ?thesis using "1.prems" by (simp add: unfold view_settled_def)
  next
    case (Some target)
    from view_pass_cases [OF "1.prems" Some, of budget]
    consider (stop) "view_pass tree budget nodes target = Inl nodes" "budget \<le> length nodes"
        "mergeable_pair tree nodes target = None"
      | (go) ns where "view_pass tree budget nodes target = Inr ns" "tiling a b ns"
        "length ns = (if budget \<le> length nodes then length nodes else Suc (length nodes))" by metis
    then show ?thesis
    proof cases
      case stop
      then show ?thesis using "1.prems" Some by (simp add: unfold view_settled_def)
    next
      case go
      then have "view_loop entries tree budget nodes = view_loop entries tree budget ns"
        using Some by (simp add: unfold)
      with "1.IH" [OF Some go(1)] go(2,3) show ?thesis by (auto split: if_splits)
    qed
  qed
qed

text \<open>C5: the blocks the view shows tile the whole chat: every entry is in exactly one of them.\<close>

theorem view_shows_every_entry_once:
  assumes "i < length entries"
  shows "\<exists>!k. k < length (view_nodes entries tree budget)
    \<and> node_lo (view_nodes entries tree budget ! k) \<le> i
    \<and> i < node_hi (view_nodes entries tree budget ! k)"
proof -
  let ?ns = "view_nodes entries tree budget"
  have "tiling 0 (length entries) ?ns"
    using view_loop_invariant [OF cover_tiling] by (simp add: view_nodes_def)
  then have "tiles 0 (length entries) (map node_pair ?ns)" by (simp add: tiling_def)
  from tiles_unique_block [OF this _ assms] show ?thesis
    by (simp add: node_pair_def cong: conj_cong)
qed

theorem view_shows_every_entry_once_witness:
  "(3::nat) < length [corrupt_entry, corrupt_entry, corrupt_entry, corrupt_entry, corrupt_entry]
   \<and> (\<exists>!k. k < length (view_nodes (replicate 5 corrupt_entry) Map.empty 2)
        \<and> node_lo (view_nodes (replicate 5 corrupt_entry) Map.empty 2 ! k) \<le> 3
        \<and> 3 < node_hi (view_nodes (replicate 5 corrupt_entry) Map.empty 2 ! k))"
  using view_shows_every_entry_once [of 3 "replicate 5 corrupt_entry" Map.empty 2] by simp

text \<open>When the coarsest cover fits the budget, the view has exactly \<open>min t budget\<close> blocks, and
  it stops only when every block has a line of its own or no pair of summarised neighbours is left
  to make room for a split.
\<close>

theorem view_uses_the_budget:
  assumes "length (cover_at (length entries) 1) \<le> budget"
  shows "length (view_nodes entries tree budget) = min (length entries) budget
    \<and> view_settled entries tree budget (view_nodes entries tree budget)"
proof -
  let ?t = "length entries"
  note inv = view_loop_invariant [OF cover_tiling [of ?t budget], of entries tree budget]
  have len: "length (cover ?t budget) = min ?t budget" by (rule cover_length [OF assms])
  have "length (view_nodes entries tree budget) \<le> ?t"
    using inv tiles_length [of 0 ?t "map node_pair (view_nodes entries tree budget)"]
    by (simp add: view_nodes_def tiling_def)
  moreover have "min ?t budget \<le> length (view_nodes entries tree budget)"
    "length (view_nodes entries tree budget) \<le> max budget (min ?t budget)"
    using inv len by (simp_all add: view_nodes_def)
  ultimately show ?thesis using inv by (auto simp: view_nodes_def)
qed

theorem view_uses_the_budget_witness:
  "length (cover_at (length (replicate 10 corrupt_entry)) 1) \<le> 6
   \<and> length (view_nodes (replicate 10 corrupt_entry) Map.empty 6) = 6"
proof -
  have "length (cover_at 10 1) \<le> 6" by code_simp
  then have h: "length (cover_at (length (replicate 10 corrupt_entry)) 1) \<le> 6" by simp
  show ?thesis using h view_uses_the_budget [OF h, of Map.empty] by simp
qed

subsection \<open>The verbatim tail\<close>

definition range_tokens :: "entry list \<Rightarrow> nat \<Rightarrow> nat \<Rightarrow> nat" where
  "range_tokens entries a b = (\<Sum>i = a..<b. estimate_tokens (e_text (entries ! i)))"

lemma range_tokens_empty [simp]: "range_tokens entries a a = 0"
  by (simp add: range_tokens_def)

lemma range_tokens_Suc:
  "a \<le> b \<Longrightarrow> range_tokens entries a (Suc b)
     = range_tokens entries a b + estimate_tokens (e_text (entries ! b))"
  by (simp add: range_tokens_def)

lemma verbatim_loop_spec:
  assumes "used \<le> budget"
  shows "let s = verbatim_loop entries from budget used i i in
    s \<le> i \<and> min from i \<le> s \<and> used + range_tokens entries s i \<le> budget
    \<and> (from < s \<longrightarrow> budget < used + range_tokens entries (s - 1) i)"
  using assms
proof (induction i arbitrary: used)
  case (Suc i)
  let ?u = "used + estimate_tokens (e_text (entries ! i))"
  consider (stop) "i < from" | (full) "from \<le> i" "budget < ?u" | (go) "from \<le> i" "?u \<le> budget"
    by linarith
  then show ?case
  proof cases
    case stop
    then show ?thesis using Suc.prems by (simp add: Let_def)
  next
    case full
    then show ?thesis using Suc.prems by (simp add: Let_def range_tokens_Suc)
  next
    case go
    let ?s = "verbatim_loop entries from budget ?u i i"
    from Suc.IH [OF go(2)] have "?s \<le> i" "min from i \<le> ?s" "?u + range_tokens entries ?s i \<le> budget"
      "from < ?s \<longrightarrow> budget < ?u + range_tokens entries (?s - 1) i" by (simp_all add: Let_def)
    moreover from this have "range_tokens entries ?s (Suc i)
        = range_tokens entries ?s i + estimate_tokens (e_text (entries ! i))"
      "range_tokens entries (?s - 1) (Suc i)
        = range_tokens entries (?s - 1) i + estimate_tokens (e_text (entries ! i))"
      by (simp_all add: range_tokens_Suc)
    ultimately show ?thesis using go by (auto simp: Let_def algebra_simps)
  qed
qed simp

text \<open>The verbatim part is the longest suffix of the entries from \<open>from\<close> on whose estimated
  tokens fit the budget.\<close>

theorem verbatim_start_longest_suffix:
  assumes "from \<le> length entries"
  shows "from \<le> verbatim_start entries from budget
    \<and> verbatim_start entries from budget \<le> length entries
    \<and> range_tokens entries (verbatim_start entries from budget) (length entries) \<le> budget
    \<and> (from < verbatim_start entries from budget \<longrightarrow>
         budget < range_tokens entries (verbatim_start entries from budget - 1) (length entries))"
  using verbatim_loop_spec [of 0 budget entries "from" "length entries"] assms
  by (simp add: verbatim_start_def Let_def)

theorem verbatim_start_longest_suffix_witness:
  "(0::nat) \<le> length [corrupt_entry, corrupt_entry]
   \<and> range_tokens [corrupt_entry, corrupt_entry] (verbatim_start [corrupt_entry, corrupt_entry] 0 7)
       (length [corrupt_entry, corrupt_entry]) \<le> 7"
  using verbatim_start_longest_suffix [of 0 "[corrupt_entry, corrupt_entry]" 7] by blast

lemma verbatim_start_le: "verbatim_start entries from budget \<le> length entries"
  using verbatim_loop_spec [of 0 budget entries "from" "length entries"]
  by (simp add: verbatim_start_def Let_def)

subsection \<open>The split view\<close>

lemma stable_cut_le: "stable_cut s k \<le> s"
  by (simp add: stable_cut_def)

lemma stable_cut_eq: "0 < k \<Longrightarrow> stable_cut s k = k * (s div k)"
  by (simp add: stable_cut_def minus_mod_eq_mult_div)

lemma stable_cut_dvd: "0 < k \<Longrightarrow> k dvd stable_cut s k"
  by (simp add: stable_cut_eq)

lemma stable_cut_mono:
  assumes k: "0 < k" "k dvd m" "0 < m"
  shows "stable_cut s m \<le> stable_cut s k"
proof -
  have "k dvd stable_cut s m" using k stable_cut_dvd dvd_trans by blast
  then obtain q where q: "stable_cut s m = k * q" by (elim dvdE)
  then have "k * q \<le> s" using stable_cut_le [of s m] by simp
  then have "q \<le> s div k" using k(1) by (simp add: less_eq_div_iff_mult_less_eq mult.commute)
  with q k(1) show ?thesis by (simp add: stable_cut_eq)
qed

text \<open>The blocks that \<open>block_lines\<close> shows.\<close>

function block_nodes :: "entry list \<Rightarrow> tree \<Rightarrow> node \<Rightarrow> node list" where
  "block_nodes entries tree n =
     (if node_size n \<le> 1 \<or> node_line entries tree n \<noteq> None then [n]
      else (let (l, r) = halves n in block_nodes entries tree l @ block_nodes entries tree r))"
  by pat_completeness auto
termination
  by (relation "measure (\<lambda>(entries, tree, n). node_size n)")
    (auto simp: halves_def node_size_def Let_def)

declare block_nodes.simps [simp del]

lemma block_lines_nodes:
  "aligned n \<Longrightarrow> block_lines entries tree n = map (shown_node entries tree) (block_nodes entries tree n)"
proof (induction entries tree n rule: block_lines.induct)
  case (1 entries tree n)
  note unfold = block_lines.simps [of entries tree n] block_nodes.simps [of entries tree n]
  consider (leaf) "node_size n \<le> 1" | (line) l where "1 < node_size n" "node_line entries tree n = Some l"
    | (split) "1 < node_size n" "node_line entries tree n = None" by fastforce
  then show ?case
  proof cases
    case leaf
    then show ?thesis by (simp add: unfold)
  next
    case line
    then show ?thesis by (simp add: unfold shown_node_def display_line_def)
  next
    case split
    obtain l r where h: "halves n = (l, r)" by fastforce
    note al = halves_aligned(1,2) [OF "1.prems" split(1) h]
    from "1.IH"(1) [OF _ split(2) h [symmetric] refl al(1)] "1.IH"(2) [OF _ split(2) h [symmetric] refl al(2)]
    show ?thesis using split h by (simp add: unfold)
  qed
qed

definition has_line :: "entry list \<Rightarrow> tree \<Rightarrow> node \<Rightarrow> bool" where
  "has_line entries tree n \<longleftrightarrow> node_size n = 1 \<or> node_line entries tree n \<noteq> None"

lemma block_nodes_tiling:
  "aligned n \<Longrightarrow> tiling (node_lo n) (node_hi n) (block_nodes entries tree n)
     \<and> list_all (has_line entries tree) (block_nodes entries tree n)"
proof (induction entries tree n rule: block_nodes.induct)
  case (1 entries tree n)
  note unfold = block_nodes.simps [of entries tree n]
  show ?case
  proof (cases "node_size n \<le> 1 \<or> node_line entries tree n \<noteq> None")
    case True
    then show ?thesis using "1.prems" aligned_size_pos [OF "1.prems"]
      by (auto simp: unfold tiling_Cons has_line_def)
  next
    case False
    then have s: "1 < node_size n" by simp
    obtain l r where h: "halves n = (l, r)" by fastforce
    note a = halves_aligned [OF "1.prems" s h]
    from "1.IH"(1) [OF False h [symmetric] refl a(1)] "1.IH"(2) [OF False h [symmetric] refl a(2)]
    show ?thesis using False h a by (auto simp: unfold intro: tiling_appendI)
  qed
qed

lemma aligned_tail_block: "TAIL_STEP dvd p \<Longrightarrow> aligned (mk_node p (p + TAIL_STEP))"
proof -
  have "is_power_of_two TAIL_STEP"
    using is_power_of_two_pow [of 5] by (simp add: TAIL_STEP_def)
  then show "TAIL_STEP dvd p \<Longrightarrow> aligned (mk_node p (p + TAIL_STEP))"
    by (simp add: aligned_def node_size_def TAIL_STEP_def)
qed

definition middle_nodes :: "entry list \<Rightarrow> tree \<Rightarrow> nat \<Rightarrow> nat \<Rightarrow> node list" where
  "middle_nodes entries tree a k =
     concat (map (\<lambda>j. block_nodes entries tree (mk_node (a + j * TAIL_STEP) (a + j * TAIL_STEP + TAIL_STEP))) [0..<k])"

lemma middle_nodes_tiling:
  assumes "TAIL_STEP dvd a"
  shows "tiling a (a + k * TAIL_STEP) (middle_nodes entries tree a k)
    \<and> list_all (has_line entries tree) (middle_nodes entries tree a k)"
proof (induction k)
  case 0
  then show ?case by (simp add: middle_nodes_def)
next
  case (Suc k)
  let ?n = "mk_node (a + k * TAIL_STEP) (a + k * TAIL_STEP + TAIL_STEP)"
  have "aligned ?n" using assms by (intro aligned_tail_block) simp
  from block_nodes_tiling [OF this, of entries tree] Suc show ?case
    by (auto simp: middle_nodes_def ac_simps intro!: tiling_appendI)
qed

lemma middle_shown_nodes:
  assumes "TAIL_STEP dvd a" "TAIL_STEP dvd b" "a \<le> b"
  shows "\<exists>ns. middle_shown entries tree a b = map (shown_node entries tree) ns \<and> tiling a b ns
    \<and> list_all (has_line entries tree) ns"
proof -
  let ?k = "(b - a + TAIL_STEP - 1) div TAIL_STEP"
  have "TAIL_STEP dvd b - a" using assms by simp
  then obtain q where q: "b - a = TAIL_STEP * q" by (elim dvdE)
  have k: "?k = q" using q by (simp add: TAIL_STEP_def)
  then have b: "a + ?k * TAIL_STEP = b" using q assms(3) by (simp add: mult.commute)
  have "middle_shown entries tree a b = map (shown_node entries tree) (middle_nodes entries tree a ?k)"
    using assms(1) by (simp add: middle_shown_def middle_nodes_def map_concat comp_def
        block_lines_nodes aligned_tail_block)
  with middle_nodes_tiling [OF assms(1), of ?k entries tree] show ?thesis unfolding b by blast
qed

text \<open>The older, middle and tail parts of the split view follow each other without gap or
  overlap: blocks that tile \<open>[0, frozen)\<close>, blocks with a line of their own that tile
  \<open>[frozen, cut)\<close>, then one item per entry, settled up to \<open>start\<close> and verbatim from there.
\<close>

theorem split_view_parts:
  fixes entries tree budget recent
  defines "start \<equiv> verbatim_start entries 0 recent"
  defines "frozen \<equiv> stable_cut start OLDER_VIEW_STEP"
  defines "cutp \<equiv> stable_cut start TAIL_STEP"
  shows "frozen \<le> cutp \<and> cutp \<le> start \<and> start \<le> length entries \<and> start - cutp < TAIL_STEP
    \<and> (\<exists>older middle.
         tiling 0 frozen older
       \<and> vs_older (split_view entries tree budget recent)
           = merge_notices (map (shown_node (take frozen entries) tree) older)
       \<and> tiling frozen cutp middle \<and> list_all (has_line entries tree) middle
       \<and> vs_middle (split_view entries tree budget recent)
           = merge_notices (map (shown_node entries tree) middle))
    \<and> vs_tail (split_view entries tree budget recent) = merge_notices
         (map (\<lambda>i. shown_node entries tree (node_leaf i)) [cutp..<verbatim_start entries cutp recent]
          @ map (\<lambda>i. if e_corrupt (entries ! i) then Unreadable i
                      else Line (entry_line i (entries ! i) (e_text (entries ! i))))
              [verbatim_start entries cutp recent..<length entries])"
proof -
  have d: "TAIL_STEP dvd OLDER_VIEW_STEP" "0 < TAIL_STEP" "0 < OLDER_VIEW_STEP"
    by (simp_all add: TAIL_STEP_def OLDER_VIEW_STEP_def)
  have start: "start \<le> length entries"
    by (simp add: start_def verbatim_start_le)
  have cuts: "frozen \<le> cutp" "cutp \<le> start"
    unfolding frozen_def cutp_def using d by (blast intro: stable_cut_mono stable_cut_le)+
  have near: "start - cutp < TAIL_STEP"
    using d(2) by (simp add: cutp_def stable_cut_def)
  have "TAIL_STEP dvd frozen" "TAIL_STEP dvd cutp"
    unfolding frozen_def cutp_def
    using d(2) dvd_trans [OF d(1) stable_cut_dvd [OF d(3)]] by (auto intro: stable_cut_dvd)
  from middle_shown_nodes [OF this cuts(1), of entries tree] obtain middle where m:
    "middle_shown entries tree frozen cutp = map (shown_node entries tree) middle"
    "tiling frozen cutp middle" "list_all (has_line entries tree) middle" by blast
  have lt: "length (take frozen entries) = frozen" using cuts start by simp
  have o: "tiling 0 frozen (view_nodes (take frozen entries) tree budget)"
    using view_loop_invariant [OF cover_tiling [of "length (take frozen entries)" budget]] lt
    by (simp add: view_nodes_def)
  have sv: "split_view entries tree budget recent
      = \<lparr>vs_older = view (take frozen entries) tree budget,
         vs_middle = middle_lines entries tree frozen cutp, vs_tail = tail_lines entries tree cutp recent\<rparr>"
    by (simp add: split_view_def Let_def start_def frozen_def cutp_def)
  show ?thesis
    using cuts start near o m
    by (auto simp: sv view_def middle_lines_def tail_lines_def tail_shown_def Let_def)
qed

subsection \<open>Pending nodes\<close>

lemma damaged_from_nth:
  "i \<le> length es \<Longrightarrow> damaged_from seen es ! i = seen + length (filter e_corrupt (take i es))"
proof (induction seen es arbitrary: i rule: damaged_from.induct)
  case (2 seen e es)
  then show ?case by (cases i) auto
qed simp

lemma intact_iff:
  assumes "node_lo n \<le> node_hi n" "node_hi n \<le> length entries"
  shows "intact entries n \<longleftrightarrow> (\<forall>i \<in> {node_lo n..<node_hi n}. \<not> e_corrupt (entries ! i))"
proof -
  let ?mid = "drop (node_lo n) (take (node_hi n) entries)"
  have "take (node_hi n) entries = take (node_lo n) entries @ ?mid"
    using assms by (metis append_take_drop_id min.absorb1 take_take)
  then have "length (filter e_corrupt (take (node_hi n) entries))
      = length (filter e_corrupt (take (node_lo n) entries)) + length (filter e_corrupt ?mid)"
    by (metis filter_append length_append)
  then have "intact entries n \<longleftrightarrow> filter e_corrupt ?mid = []"
    using assms by (simp add: intact_def damaged_prefix_def damaged_from_nth)
  also have "\<dots> \<longleftrightarrow> (\<forall>j < node_hi n - node_lo n. \<not> e_corrupt (entries ! (node_lo n + j)))"
    using assms by (auto simp: filter_empty_conv set_conv_nth)
  also have "\<dots> \<longleftrightarrow> (\<forall>i \<in> {node_lo n..<node_hi n}. \<not> e_corrupt (entries ! i))"
  proof
    assume a: "\<forall>j < node_hi n - node_lo n. \<not> e_corrupt (entries ! (node_lo n + j))"
    show "\<forall>i \<in> {node_lo n..<node_hi n}. \<not> e_corrupt (entries ! i)"
    proof
      fix i assume "i \<in> {node_lo n..<node_hi n}"
      then have "i - node_lo n < node_hi n - node_lo n" "node_lo n + (i - node_lo n) = i" by auto
      with a show "\<not> e_corrupt (entries ! i)" by metis
    qed
  qed auto
  finally show ?thesis .
qed

text \<open>What \<open>pending\<close> is for: long entries, and complete blocks without an unreadable entry.\<close>

definition needs_summary :: "entry list \<Rightarrow> node \<Rightarrow> bool" where
  "needs_summary entries n \<longleftrightarrow>
     aligned n \<and> node_hi n \<le> length entries
     \<and> (if node_size n = 1 then is_long (entries ! node_lo n)
        else \<forall>i \<in> {node_lo n..<node_hi n}. \<not> e_corrupt (entries ! i))"

lemma pending_leaves_iff:
  "n \<in> set (pending_leaves entries tree) \<longleftrightarrow>
     node_size n = 1 \<and> tree n = None \<and> needs_summary entries n"
proof -
  have "n \<in> set (pending_leaves entries tree) \<longleftrightarrow>
      (\<exists>i < length entries. n = node_leaf i \<and> is_long (entries ! i) \<and> tree n = None)"
    by (auto simp: pending_leaves_def in_set_enumerate_eq)
  moreover have "needs_summary entries n \<longleftrightarrow> (\<exists>i < length entries. n = node_leaf i \<and> is_long (entries ! i))"
    if "node_size n = 1"
    using that aligned_size_1_leaf [of n]
    by (auto simp: needs_summary_def Suc_le_eq) (metis node_leaf_simps(1,2) Suc_le_eq)
  ultimately show ?thesis by auto
qed

lemma block_range_iff:
  assumes "is_power_of_two sz" "1 < sz"
  shows "n \<in> set (map (\<lambda>k. mk_node (k * sz) ((k + 1) * sz)) [0..<t div sz])
    \<longleftrightarrow> aligned n \<and> node_size n = sz \<and> node_hi n \<le> t"
proof
  assume "n \<in> set (map (\<lambda>k. mk_node (k * sz) ((k + 1) * sz)) [0..<t div sz])"
  then obtain k where k: "k < t div sz" "n = mk_node (k * sz) ((k + 1) * sz)" by auto
  then have "node_size n = sz" by (simp add: node_size_def)
  moreover have "(k + 1) * sz \<le> t"
    using k(1) assms(2) by (metis Suc_eq_plus1 Suc_leI less_eq_div_iff_mult_less_eq less_trans zero_less_one)
  ultimately show "aligned n \<and> node_size n = sz \<and> node_hi n \<le> t"
    using assms k by (auto simp: aligned_def)
next
  assume a: "aligned n \<and> node_size n = sz \<and> node_hi n \<le> t"
  then obtain k where k: "node_lo n = sz * k" by (auto simp: aligned_def elim: dvdE)
  moreover have hi: "node_hi n = (k + 1) * sz"
    using a k by (auto simp: aligned_def node_size_def algebra_simps)
  moreover have "k < t div sz"
    using a hi assms(2) by (metis Suc_eq_plus1 less_eq_div_iff_mult_less_eq Suc_le_eq less_trans zero_less_one)
  moreover have "n = mk_node (k * sz) ((k + 1) * sz)"
    using k hi by (metis mk_node_collapse mult.commute)
  ultimately show "n \<in> set (map (\<lambda>k. mk_node (k * sz) ((k + 1) * sz)) [0..<t div sz])" by auto
qed

lemma pending_blocks_iff:
  assumes "is_power_of_two sz" "1 < sz"
  shows "n \<in> set (pending_blocks entries tree sz) \<longleftrightarrow>
     sz \<le> node_size n \<and> tree n = None \<and> needs_summary entries n"
  using assms
proof (induction entries tree sz rule: pending_blocks.induct)
  case (1 entries tree sz)
  note unfold = pending_blocks.simps [of entries tree sz]
  have small: "node_size n \<le> length entries" if "needs_summary entries n"
    using that by (auto simp: needs_summary_def node_size_def)
  show ?case
  proof (cases "sz \<le> length entries")
    case False
    then show ?thesis using small by (auto simp: unfold)
  next
    case True
    have dbl: "is_power_of_two (sz * 2)" "1 < sz * 2"
      using "1.prems" by auto
    have step: "needs_summary entries n \<Longrightarrow> sz \<le> node_size n \<longleftrightarrow> node_size n = sz \<or> sz * 2 \<le> node_size n"
    proof -
      assume "needs_summary entries n"
      then have "is_power_of_two (node_size n)" by (simp add: needs_summary_def aligned_def)
      then obtain i j where ij: "node_size n = 2 ^ i" "sz = 2 ^ j"
        using "1.prems" by (auto simp: is_power_of_two_iff)
      have "(2::nat) ^ j \<le> 2 ^ i \<longleftrightarrow> i = j \<or> Suc j \<le> i" by (auto simp: le_less Suc_le_eq)
      also have "\<dots> \<longleftrightarrow> (2::nat) ^ i = 2 ^ j \<or> 2 ^ Suc j \<le> (2::nat) ^ i"
        by (simp only: power_increasing_iff [of 2 "Suc j" i] power_inject_exp)
      finally show ?thesis using ij by (metis mult.commute power_Suc)
    qed
    have blk: "intact entries n \<longleftrightarrow> needs_summary entries n"
      if "aligned n" "node_size n = sz" "node_hi n \<le> length entries"
      using that "1.prems" intact_iff [of n entries] by (auto simp: needs_summary_def aligned_def)
    have "n \<in> set (pending_blocks entries tree sz) \<longleftrightarrow>
        (aligned n \<and> node_size n = sz \<and> node_hi n \<le> length entries \<and> tree n = None \<and> intact entries n)
        \<or> (sz * 2 \<le> node_size n \<and> tree n = None \<and> needs_summary entries n)"
    proof -
      have "n \<in> set (pending_blocks entries tree sz) \<longleftrightarrow>
          (n \<in> set (map (\<lambda>k. mk_node (k * sz) ((k + 1) * sz)) [0..<length entries div sz])
            \<and> tree n = None \<and> intact entries n) \<or> n \<in> set (pending_blocks entries tree (sz * 2))"
        using True "1.prems"(2) unfolding unfold set_append set_filter if_P [OF conjI] by auto
      also have "n \<in> set (pending_blocks entries tree (sz * 2)) \<longleftrightarrow>
          sz * 2 \<le> node_size n \<and> tree n = None \<and> needs_summary entries n"
        using True "1.prems"(2) by (intro "1.IH" dbl) simp
      finally show ?thesis unfolding block_range_iff [OF "1.prems", of n "length entries"] by blast
    qed
    also have "\<dots> \<longleftrightarrow> sz \<le> node_size n \<and> tree n = None \<and> needs_summary entries n"
      using blk step by (auto simp: needs_summary_def)
    finally show ?thesis .
  qed
qed

lemma pending_iff:
  "n \<in> set (pending entries tree) \<longleftrightarrow> tree n = None \<and> needs_summary entries n"
proof -
  have "node_size n = 1 \<or> 2 \<le> node_size n" if "needs_summary entries n"
    using that aligned_size_pos [of n] by (auto simp: needs_summary_def)
  moreover have "is_power_of_two 2" using is_power_of_two_pow [of 1] by simp
  ultimately show ?thesis
    by (auto simp: pending_def pending_leaves_iff pending_blocks_iff)
qed

text \<open>Smaller blocks come first.\<close>

lemma pending_blocks_sorted:
  "is_power_of_two sz \<Longrightarrow> 1 < sz \<Longrightarrow> sorted (map node_size (pending_blocks entries tree sz))"
proof (induction entries tree sz rule: pending_blocks.induct)
  case (1 entries tree sz)
  note unfold = pending_blocks.simps [of entries tree sz]
  show ?case
  proof (cases "sz \<le> length entries")
    case False
    then show ?thesis by (simp add: unfold)
  next
    case True
    let ?xs = "filter (\<lambda>n. tree n = None \<and> intact entries n)
        (map (\<lambda>k. mk_node (k * sz) ((k + 1) * sz)) [0..<length entries div sz])"
    have dbl: "is_power_of_two (sz * 2)" "1 < sz * 2"
      using "1.prems" by auto
    have xs: "node_size n = sz" if "n \<in> set ?xs" for n
      using that by (auto simp: node_size_def)
    then have "map node_size ?xs = map (\<lambda>_. sz) ?xs" by simp
    then have "sorted (map node_size ?xs)" by (simp only: map_replicate_const) simp
    moreover have "sz \<le> node_size n" if "n \<in> set (pending_blocks entries tree (sz * 2))" for n
      using that pending_blocks_iff [OF dbl, of n entries tree] by auto
    moreover have "sorted (map node_size (pending_blocks entries tree (sz * 2)))"
      using "1.IH" True dbl "1.prems" by auto
    ultimately have "sorted (map node_size (?xs @ pending_blocks entries tree (sz * 2)))"
      using xs by (auto simp: sorted_append simp del: filter_map)
    then show ?thesis using True "1.prems" by (simp only: unfold) simp
  qed
qed

lemma pending_sorted: "sorted (map node_size (pending entries tree))"
proof -
  have p: "is_power_of_two 2" using is_power_of_two_pow [of 1] by simp
  have l: "node_size n = 1" if "n \<in> set (pending_leaves entries tree)" for n
    using that by (simp add: pending_leaves_iff)
  then have "map node_size (pending_leaves entries tree) = map (\<lambda>_. 1) (pending_leaves entries tree)"
    by simp
  then have "sorted (map node_size (pending_leaves entries tree))"
    by (simp only: map_replicate_const) simp
  moreover have "2 \<le> node_size n" if "n \<in> set (pending_blocks entries tree 2)" for n
    using that pending_blocks_iff [OF p, of n] by simp
  ultimately show ?thesis
    using l pending_blocks_sorted [OF p] by (fastforce simp: pending_def sorted_append)
qed

lemma pending_halves_first:
  assumes "i < length (pending entries tree)" "h \<in> set (pending entries tree)"
    and "node_size h < node_size (pending entries tree ! i)"
  shows "h \<in> set (take i (pending entries tree))"
proof -
  from assms(2) obtain j where j: "j < length (pending entries tree)" "pending entries tree ! j = h"
    by (auto simp: in_set_conv_nth)
  have "j < i"
  proof (rule ccontr)
    assume "\<not> j < i"
    then have "node_size (pending entries tree ! i) \<le> node_size (pending entries tree ! j)"
      using sorted_nth_mono [OF pending_sorted, of i j entries tree] j assms(1) by simp
    with assms(3) j show False by simp
  qed
  with j show ?thesis by (auto simp: in_set_conv_nth intro!: exI [of _ j])
qed

text \<open>\<open>pending\<close> lists exactly the long entries and the complete blocks without an unreadable
  entry that have no summary yet.\<close>

theorem pending_spec:
  "set (pending entries tree) = {n. tree n = None \<and> needs_summary entries n}
   \<and> sorted (map node_size (pending entries tree))"
  by (auto simp: pending_iff pending_sorted)

end
