(* ===== verification/Chunk.thy ===== *)
theory Chunk
  imports Rust_Str
begin

section \<open>Chunks of model output\<close>

text \<open>
  \<open>crates/core/src/chunk\<close>: text is parsed into prose, fenced code and diff chunks, all at once
  (\<open>batch.rs\<close>, \<open>heuristics.rs\<close>) or line by line as it arrives (\<open>streaming.rs\<close>). Mutable locals of
  \<open>parse_chunks\<close> and the fields of \<open>StreamingChunkBuffer\<close> are records. The facts: the streaming
  parser that holds back all prose gives the chunks of the batch parser, and splitting lines for
  it loses nothing but carriage returns.
\<close>

subsection \<open>Types and fences\<close>

datatype chunk_type = Prose | Code "string option" | Diff | Directive string string

record parsed_chunk =
  pc_type :: chunk_type
  pc_content :: string

definition prose :: "string \<Rightarrow> parsed_chunk" where
  "prose content = \<lparr>pc_type = Prose, pc_content = content\<rparr>"

definition code :: "string \<Rightarrow> string option \<Rightarrow> parsed_chunk" where
  "code content language = \<lparr>pc_type = Code language, pc_content = content\<rparr>"

definition diff :: "string \<Rightarrow> parsed_chunk" where
  "diff content = \<lparr>pc_type = Diff, pc_content = content\<rparr>"

definition parse_fence_open :: "string \<Rightarrow> string option option" where
  "parse_fence_open line =
     (case strip_prefix ''```'' (trim_start line) of
        None \<Rightarrow> None
      | Some rest \<Rightarrow>
          (let after_fence = trim rest
           in if after_fence = [] then Some None
              else Some (Some (case split_whitespace after_fence of w # ws \<Rightarrow> w | [] \<Rightarrow> []))))"

definition is_fence_close :: "string \<Rightarrow> bool" where
  "is_fence_close line \<longleftrightarrow> trim line = ''```''"

definition append_line :: "string \<Rightarrow> string \<Rightarrow> string" where
  "append_line buffer line = (if buffer = [] then line else buffer @ newline @ line)"

subsection \<open>The batch parser\<close>

record batch =
  ba_chunks :: "parsed_chunk list"
  ba_prose :: string
  ba_in_code :: bool
  ba_content :: string
  ba_language :: "string option"
  ba_is_diff :: bool

definition flush_prose :: "batch \<Rightarrow> batch" where
  "flush_prose b =
     (if ba_prose b = [] then b
      else b\<lparr>ba_chunks := ba_chunks b @ [prose (ba_prose b)], ba_prose := []\<rparr>)"

definition emit_code_block :: "batch \<Rightarrow> batch" where
  "emit_code_block b =
     (if ba_is_diff b then b\<lparr>ba_chunks := ba_chunks b @ [diff (ba_content b)], ba_content := []\<rparr>
      else b\<lparr>ba_chunks := ba_chunks b @ [code (ba_content b) (ba_language b)], ba_content := [], ba_language := None\<rparr>)"

definition batch_line :: "batch \<Rightarrow> string \<Rightarrow> batch" where
  "batch_line b line =
     (if \<not> ba_in_code b then
        (case parse_fence_open line of
           Some lang \<Rightarrow> (flush_prose b)\<lparr>ba_in_code := True, ba_is_diff := (lang = Some ''diff''),
             ba_language := lang, ba_content := []\<rparr>
         | None \<Rightarrow> b\<lparr>ba_prose := append_line (ba_prose b) line\<rparr>)
      else if is_fence_close line then (emit_code_block b)\<lparr>ba_in_code := False, ba_is_diff := False\<rparr>
      else b\<lparr>ba_content := append_line (ba_content b) line\<rparr>)"

definition batch_init :: batch where
  "batch_init = \<lparr>ba_chunks = [], ba_prose = [], ba_in_code = False, ba_content = [],
     ba_language = None, ba_is_diff = False\<rparr>"

definition batch_end :: "batch \<Rightarrow> parsed_chunk list" where
  "batch_end b =
     (let b' = (if ba_in_code b \<and> ba_content b \<noteq> [] then emit_code_block b else b)
      in ba_chunks (flush_prose b'))"

definition parse_chunks :: "string \<Rightarrow> parsed_chunk list" where
  "parse_chunks text = batch_end (foldl batch_line batch_init (lines text))"

definition MIN_DIFF_LINES_THRESHOLD :: nat where
  "MIN_DIFF_LINES_THRESHOLD = 2"

definition is_unfenced_diff :: "string \<Rightarrow> bool" where
  "is_unfenced_diff text =
     (let ls = lines text
      in if list_ex (starts_with ''diff --git'') ls then True
         else if list_ex (\<lambda>l. starts_with ''@@'' l \<and> contains ''@@'' l) ls then True
         else MIN_DIFF_LINES_THRESHOLD \<le> length (filter
           (\<lambda>l. (starts_with ''+'' l \<and> \<not> starts_with ''++'' l) \<or> (starts_with ''-'' l \<and> \<not> starts_with ''--'' l)) ls))"

definition parse_chunks_with_heuristics :: "string \<Rightarrow> parsed_chunk list" where
  "parse_chunks_with_heuristics text =
     (let chunks = parse_chunks text
      in case chunks of
           [c] \<Rightarrow> if pc_type c = Prose \<and> is_unfenced_diff (pc_content c) then [diff (pc_content c)] else chunks
         | _ \<Rightarrow> chunks)"

subsection \<open>Lines for the streaming parser\<close>

text \<open>
  \<open>SplitLinesIter\<close>: \<open>acc\<close> is what is read of the current line; after a newline at the very end
  one more empty line is given.
\<close>

fun split_lines_from :: "string \<Rightarrow> string \<Rightarrow> string list" where
  "split_lines_from acc [] = (if acc = [] then [] else [acc])"
| "split_lines_from acc (c # cs) =
     (if c = CHR 0x0A then strip_cr acc # (if cs = [] then [[]] else split_lines_from [] cs)
      else split_lines_from (acc @ [c]) cs)"

definition split_lines_preserve_trailing :: "string \<Rightarrow> string list" where
  "split_lines_preserve_trailing text = split_lines_from [] text"

subsection \<open>The streaming parser\<close>

datatype buffer_state = InProse | InCode "string option" bool

record stream_buffer =
  sb_state :: buffer_state
  sb_buffer :: string
  sb_threshold :: nat
  sb_lines :: nat

definition with_prose_threshold :: "nat \<Rightarrow> stream_buffer" where
  "with_prose_threshold threshold =
     \<lparr>sb_state = InProse, sb_buffer = [], sb_threshold = threshold, sb_lines = 0\<rparr>"

definition DEFAULT_PROSE_BUFFER_THRESHOLD :: nat where
  "DEFAULT_PROSE_BUFFER_THRESHOLD = 0"

definition stream_new :: stream_buffer where
  "stream_new = with_prose_threshold DEFAULT_PROSE_BUFFER_THRESHOLD"

definition flush_prose_buffer :: "stream_buffer \<Rightarrow> parsed_chunk list \<times> stream_buffer" where
  "flush_prose_buffer s =
     (if sb_lines s = 0 \<or> sb_buffer s = [] then ([], s)
      else ([prose (sb_buffer s)], s\<lparr>sb_buffer := [], sb_lines := 0\<rparr>))"

definition accumulate_prose_line :: "stream_buffer \<Rightarrow> string \<Rightarrow> parsed_chunk list \<times> stream_buffer" where
  "accumulate_prose_line s line =
     (let s' = s\<lparr>sb_buffer := append_line (sb_buffer s) line, sb_lines := sb_lines s + 1\<rparr>
      in if sb_lines s' \<ge> sb_threshold s' then flush_prose_buffer s' else ([], s'))"

definition start_code_block :: "stream_buffer \<Rightarrow> string option \<Rightarrow> parsed_chunk list \<times> stream_buffer" where
  "start_code_block s language =
     (let (out, s') = flush_prose_buffer s
      in (out, s'\<lparr>sb_state := InCode language (language = Some ''diff''), sb_buffer := []\<rparr>))"

definition close_code_block :: "stream_buffer \<Rightarrow> parsed_chunk list \<times> stream_buffer" where
  "close_code_block s =
     (case sb_state s of
        InProse \<Rightarrow> ([], s)
      | InCode language is_diff \<Rightarrow>
          ([if is_diff then diff (sb_buffer s) else code (sb_buffer s) language],
           s\<lparr>sb_buffer := [], sb_state := InProse\<rparr>))"

definition accumulate_code_line :: "stream_buffer \<Rightarrow> string \<Rightarrow> stream_buffer" where
  "accumulate_code_line s line = s\<lparr>sb_buffer := append_line (sb_buffer s) line\<rparr>"

definition process_line :: "stream_buffer \<Rightarrow> string \<Rightarrow> parsed_chunk list \<times> stream_buffer" where
  "process_line s line =
     (case sb_state s of
        InProse \<Rightarrow>
          (case parse_fence_open line of
             Some lang \<Rightarrow> start_code_block s lang
           | None \<Rightarrow> if sb_threshold s = 0 then ([prose line], s) else accumulate_prose_line s line)
      | InCode _ _ \<Rightarrow>
          if is_fence_close line then close_code_block s else ([], accumulate_code_line s line))"

definition stream_finish :: "stream_buffer \<Rightarrow> parsed_chunk list \<times> stream_buffer" where
  "stream_finish s =
     (let (out, s') =
        (case sb_state s of
           InProse \<Rightarrow> flush_prose_buffer s
         | InCode _ _ \<Rightarrow> if sb_buffer s \<noteq> [] then close_code_block s else ([], s))
      in (out, s'\<lparr>sb_state := InProse, sb_buffer := [], sb_lines := 0\<rparr>))"

text \<open>What a client of the buffer sees: the chunks of all its lines, then those of \<open>finish\<close>.\<close>

fun process_lines :: "stream_buffer \<Rightarrow> string list \<Rightarrow> parsed_chunk list \<times> stream_buffer" where
  "process_lines s [] = ([], s)"
| "process_lines s (l # ls) =
     (let (out, s') = process_line s l; (rest, s'') = process_lines s' ls in (out @ rest, s''))"

definition stream_all :: "stream_buffer \<Rightarrow> string list \<Rightarrow> parsed_chunk list" where
  "stream_all s ls = (let (out, s') = process_lines s ls in out @ fst (stream_finish s'))"

subsection \<open>Streaming agrees with the batch parser\<close>

text \<open>
  The batch state that a stream state stands for, after the chunks \<open>out\<close>. In prose, a count of
  zero means nothing is buffered.
\<close>

definition abs_batch :: "parsed_chunk list \<Rightarrow> stream_buffer \<Rightarrow> batch \<Rightarrow> bool" where
  "abs_batch out s b \<longleftrightarrow>
     ba_chunks b = out
     \<and> (case sb_state s of
          InProse \<Rightarrow> \<not> ba_in_code b \<and> ba_prose b = sb_buffer s \<and> (sb_lines s = 0 \<longrightarrow> sb_buffer s = [])
        | InCode language is_diff \<Rightarrow> ba_in_code b \<and> ba_prose b = [] \<and> ba_content b = sb_buffer s
            \<and> ba_is_diff b = is_diff \<and> (\<not> is_diff \<longrightarrow> ba_language b = language))"

lemma process_line_simulates:
  assumes "abs_batch out s b" "sb_lines s + 1 < sb_threshold s"
  shows "abs_batch (out @ fst (process_line s line)) (snd (process_line s line)) (batch_line b line)
    \<and> sb_threshold (snd (process_line s line)) = sb_threshold s
    \<and> sb_lines (snd (process_line s line)) \<le> sb_lines s + 1"
proof (cases "sb_state s")
  case InProse
  then show ?thesis
    using assms
    by (cases "parse_fence_open line")
      (auto simp: process_line_def abs_batch_def batch_line_def accumulate_prose_line_def Let_def
        start_code_block_def flush_prose_buffer_def flush_prose_def)
next
  case (InCode language is_diff)
  then show ?thesis
    using assms
    by (cases "is_fence_close line")
      (auto simp: process_line_def abs_batch_def batch_line_def close_code_block_def
        accumulate_code_line_def emit_code_block_def)
qed

lemma process_lines_simulates:
  assumes "abs_batch out s b" "sb_lines s + length ls < sb_threshold s"
  shows "abs_batch (out @ fst (process_lines s ls)) (snd (process_lines s ls)) (foldl batch_line b ls)"
  using assms
proof (induction ls arbitrary: out s b)
  case (Cons l ls)
  obtain o1 s1 where p: "process_line s l = (o1, s1)" by fastforce
  have "sb_lines s + 1 < sb_threshold s \<or> ls = []" using Cons.prems(2) by (cases ls) auto
  then show ?case
  proof
    assume "sb_lines s + 1 < sb_threshold s"
    from process_line_simulates [OF Cons.prems(1) this, of l]
    have 1: "abs_batch (out @ o1) s1 (batch_line b l)" "sb_threshold s1 = sb_threshold s" "sb_lines s1 \<le> sb_lines s + 1"
      by (simp_all add: p)
    then have "sb_lines s1 + length ls < sb_threshold s1" using Cons.prems(2) by simp
    from Cons.IH [OF 1(1) this] show ?thesis by (simp add: p split: prod.split) (metis fst_conv snd_conv append.assoc)
  next
    assume "ls = []"
    then have "sb_lines s + 1 < sb_threshold s \<or> sb_lines s + 1 = sb_threshold s" using Cons.prems(2) by auto
    then show ?thesis using \<open>ls = []\<close> Cons.prems process_line_simulates [OF Cons.prems(1), of l] by (auto simp: p)
  qed
qed simp

lemma finish_simulates: "abs_batch out s b \<Longrightarrow> out @ fst (stream_finish s) = batch_end b"
  by (cases "sb_state s")
    (auto simp: abs_batch_def stream_finish_def batch_end_def Let_def flush_prose_buffer_def flush_prose_def
      close_code_block_def emit_code_block_def)

text \<open>C13: a streaming parser that holds back prose until a fence or the end gives, line by line and at
  the end, exactly the chunks the batch parser gives for the whole text.\<close>

theorem streaming_equals_batch:
  assumes "length (lines text) < threshold"
  shows "stream_all (with_prose_threshold threshold) (lines text) = parse_chunks text"
proof -
  have "abs_batch [] (with_prose_threshold threshold) batch_init"
    by (simp add: abs_batch_def with_prose_threshold_def batch_init_def)
  from process_lines_simulates [OF this, of "lines text"] assms
  have "abs_batch (fst (process_lines (with_prose_threshold threshold) (lines text)))
      (snd (process_lines (with_prose_threshold threshold) (lines text))) (foldl batch_line batch_init (lines text))"
    by (simp add: with_prose_threshold_def)
  from finish_simulates [OF this] show ?thesis by (simp add: stream_all_def parse_chunks_def split_beta)
qed


theorem streaming_equals_batch_witness:
  "stream_all (with_prose_threshold 5) (lines (''a'' @ newline @ ''```rust'' @ newline @ ''b'' @ newline @ ''```''))
    = parse_chunks (''a'' @ newline @ ''```rust'' @ newline @ ''b'' @ newline @ ''```'')"
proof -
  have "length (lines (''a'' @ newline @ ''```rust'' @ newline @ ''b'' @ newline @ ''```'')) < 5" by code_simp
  then show ?thesis by (rule streaming_equals_batch)
qed

text \<open>A blank line that opens a code block is dropped: \<open>append_line\<close> takes an empty buffer for no line.\<close>

lemma leading_blank_code_line_lost:
  "parse_chunks (''```'' @ newline @ newline @ ''x'' @ newline @ ''```'') = [code ''x'' None]"
proof -
  have ls: "lines (''```'' @ newline @ newline @ ''x'' @ newline @ ''```'') = [''```'', [], ''x'', ''```'']" by code_simp
  have "parse_fence_open ''```'' = Some None" by code_simp
  moreover have "\<not> is_fence_close []" "\<not> is_fence_close ''x''" "is_fence_close ''```''" by code_simp+
  ultimately show ?thesis
    unfolding parse_chunks_def ls
    by (simp add: batch_init_def batch_line_def batch_end_def append_line_def flush_prose_def emit_code_block_def)
qed

subsection \<open>Splitting lines loses nothing\<close>

lemma split_lines_from_nonempty: "cs \<noteq> [] \<or> acc \<noteq> [] \<Longrightarrow> split_lines_from acc cs \<noteq> []"
  by (induction acc cs rule: split_lines_from.induct) auto

lemma join_split_lines_from:
  "CHR 0x0D \<notin> set acc \<Longrightarrow> CHR 0x0D \<notin> set cs \<Longrightarrow> cs \<noteq> [] \<Longrightarrow>
    join [CHR 0x0A] (split_lines_from acc cs) = acc @ cs"
proof (induction acc cs rule: split_lines_from.induct)
  case (2 acc c cs)
  have cr: "strip_cr acc = acc"
    using 2(3) last_in_set [of acc] by (metis strip_cr_def)
  show ?case
  proof (cases "c = CHR 0x0A")
    case True
    then show ?thesis
      using 2 cr split_lines_from_nonempty [of cs "[]"] by (cases "cs = []") (auto simp: join_Cons)
  next
    case False
    then show ?thesis using 2 by (cases "cs = []") auto
  qed
qed simp

text \<open>Text without carriage returns that is split for the streaming parser and joined again with
  newlines is the text itself, its blank lines and its final newline included.\<close>

theorem split_lines_join:
  assumes "CHR 0x0D \<notin> set text"
  shows "join [CHR 0x0A] (split_lines_preserve_trailing text) = text"
  using assms join_split_lines_from [of "[]" "text"]
  by (cases "text = []") (auto simp: split_lines_preserve_trailing_def)

theorem split_lines_join_witness:
  "split_lines_preserve_trailing [CHR ''a'', CHR 0x0A, CHR 0x0A] = [''a'', [], []]
   \<and> join [CHR 0x0A] (split_lines_preserve_trailing [CHR ''a'', CHR 0x0A, CHR 0x0A]) = [CHR ''a'', CHR 0x0A, CHR 0x0A]"
  using split_lines_join [of "[CHR ''a'', CHR 0x0A, CHR 0x0A]"]
  by (simp add: split_lines_preserve_trailing_def strip_cr_def)

text \<open>A carriage return before a newline is not kept.\<close>

lemma split_lines_crlf:
  "join [CHR 0x0A] (split_lines_preserve_trailing [CHR ''a'', CHR 0x0D, CHR 0x0A, CHR ''b'']) = [CHR ''a'', CHR 0x0A, CHR ''b'']"
  by code_simp

end
