(* ===== verification/Utf8.thy ===== *)
theory Utf8
  imports Rust_Str
begin

section \<open>Lossy UTF-8 decoding\<close>

text \<open>
  \<open>String::from_utf8_lossy\<close> of the Rust standard library on byte strings: valid sequences are
  kept, every maximal invalid prefix becomes the replacement character U+FFFD.
\<close>

definition byte :: "char \<Rightarrow> nat" where
  "byte c = of_char c"

definition in_range :: "nat \<Rightarrow> nat \<Rightarrow> char \<Rightarrow> bool" where
  "in_range a b c \<longleftrightarrow> a \<le> byte c \<and> byte c \<le> b"

text \<open>
  The allowed range of the second byte after lead byte \<open>b\<close>, and how many continuation bytes
  follow it; \<open>None\<close> when \<open>b\<close> leads no sequence of several bytes.
\<close>

definition lead_info :: "nat \<Rightarrow> (nat \<times> nat \<times> nat) option" where
  "lead_info b =
     (if 0xC2 \<le> b \<and> b \<le> 0xDF then Some (0x80, 0xBF, 0)
      else if b = 0xE0 then Some (0xA0, 0xBF, 1)
      else if b = 0xED then Some (0x80, 0x9F, 1)
      else if 0xE1 \<le> b \<and> b \<le> 0xEF then Some (0x80, 0xBF, 1)
      else if b = 0xF0 then Some (0x90, 0xBF, 2)
      else if b = 0xF4 then Some (0x80, 0x8F, 2)
      else if 0xF1 \<le> b \<and> b \<le> 0xF3 then Some (0x80, 0xBF, 2)
      else None)"

definition replacement :: string where
  "replacement = of_bytes [0xEF, 0xBF, 0xBD]"

text \<open>The continuation bytes read of at most \<open>n\<close>, and the rest.\<close>

fun conts :: "nat \<Rightarrow> string \<Rightarrow> string \<times> string" where
  "conts 0 s = ([], s)"
| "conts (Suc n) [] = ([], [])"
| "conts (Suc n) (c # s) =
     (if in_range 0x80 0xBF c then (let (a, r) = conts n s in (c # a, r)) else ([], c # s))"

lemma conts_length: "length (snd (conts n s)) \<le> length s"
  by (induction n s rule: conts.induct) (auto simp: Let_def split: prod.splits)

text \<open>One step: the text of the first sequence (or the replacement), and the rest.\<close>

definition utf8_step :: "char \<Rightarrow> string \<Rightarrow> string \<times> string" where
  "utf8_step c s =
     (if byte c < 0x80 then ([c], s)
      else case lead_info (byte c) of
        None \<Rightarrow> (replacement, s)
      | Some (lo2, hi2, n) \<Rightarrow>
          (case s of
             [] \<Rightarrow> (replacement, [])
           | d # s' \<Rightarrow>
               if \<not> in_range lo2 hi2 d then (replacement, s)
               else (let (a, r) = conts n s'
                     in if length a = n then (c # d # a, r) else (replacement, r))))"

lemma utf8_step_length: "length (snd (utf8_step c s)) \<le> length s"
proof -
  have "conts n s' = (a, r) \<Longrightarrow> length r \<le> Suc (length s')" for n s' a r
    using conts_length [of n s'] by simp
  then show ?thesis
    by (auto simp: utf8_step_def Let_def split: option.splits list.splits prod.splits)
qed

function utf8_lossy :: "string \<Rightarrow> string" where
  "utf8_lossy [] = []"
| "utf8_lossy (c # s) = fst (utf8_step c s) @ utf8_lossy (snd (utf8_step c s))"
  by pat_completeness auto
termination
  using utf8_step_length by (relation "measure length") (auto simp: le_imp_less_Suc)

end
