(* ===== verification/Wire_Sse.thy ===== *)
theory Wire_Sse
  imports Utf8
begin

section \<open>Server-sent events\<close>

text \<open>
  \<open>crates/core/src/wire/sse.rs\<close>: the decoder of the event streams the proxy records. It is fed
  arbitrary chunks of bytes; its state is the bytes of the unfinished line, whether the byte order
  mark was looked for, and the fields of the unfinished event. The facts: how the stream is cut
  into chunks changes neither the events nor the state.
\<close>

record sse_event =
  ev_event :: "string option"
  ev_data :: string

record sse_decoder =
  de_buffer :: string
  de_bom_checked :: bool
  de_event :: "string option"
  de_data :: string

definition BOM :: string where
  "BOM = of_bytes [0xEF, 0xBB, 0xBF]"

definition sse_default :: sse_decoder where
  "sse_default = \<lparr>de_buffer = [], de_bom_checked = False, de_event = None, de_data = []\<rparr>"

text \<open>
  \<open>next_line\<close> on the bytes from \<open>start\<close> on: the line and what follows its end. A carriage return
  at the end of the buffer may still be followed by a newline, so it ends no line yet.
\<close>

fun next_line :: "string \<Rightarrow> (string \<times> string) option" where
  "next_line [] = None"
| "next_line (c # cs) =
     (if c = CHR 0x0A then Some ([], cs)
      else if c = CHR 0x0D then
        (case cs of [] \<Rightarrow> None | d # ds \<Rightarrow> Some ([], if d = CHR 0x0A then ds else cs))
      else map_option (\<lambda>(l, r). (c # l, r)) (next_line cs))"

lemma next_line_length: "next_line cs = Some (l, r) \<Longrightarrow> length r < length cs"
  by (induction cs arbitrary: l r) (auto split: if_splits list.splits)

definition decoder_line :: "sse_decoder \<Rightarrow> string \<Rightarrow> sse_event option \<times> sse_decoder" where
  "decoder_line d line =
     (if line = [] then
        (let d' = d\<lparr>de_event := None\<rparr>
         in if de_data d = [] then (None, d')
            else (Some \<lparr>ev_event = de_event d, ev_data = butlast (de_data d)\<rparr>, d'\<lparr>de_data := []\<rparr>))
      else if starts_with '':'' line then (None, d)
      else
        (let (field, value) = (case split_once (CHR '':'') line of None \<Rightarrow> (line, []) | Some p \<Rightarrow> p);
             value' = (case strip_prefix '' '' value of None \<Rightarrow> value | Some v \<Rightarrow> v)
         in (None,
             if field = ''event'' then d\<lparr>de_event := Some value'\<rparr>
             else if field = ''data'' then d\<lparr>de_data := de_data d @ value' @ newline\<rparr>
             else d)))"

text \<open>The loop of \<open>push\<close> over the lines of the buffer; the rest of it is the new buffer.\<close>

function drain_lines :: "sse_decoder \<Rightarrow> string \<Rightarrow> sse_event list \<times> sse_decoder" where
  "drain_lines d buf =
     (case next_line buf of
        None \<Rightarrow> ([], d\<lparr>de_buffer := buf\<rparr>)
      | Some (l, r) \<Rightarrow>
          (let (e, d') = decoder_line d (utf8_lossy l); (es, d'') = drain_lines d' r
           in ((case e of None \<Rightarrow> es | Some x \<Rightarrow> x # es), d'')))"
  by pat_completeness auto
termination
  by (relation "measure (\<lambda>(d, buf). length buf)") (auto simp: next_line_length)

declare drain_lines.simps [simp del]

definition after_bom :: "string \<Rightarrow> string" where
  "after_bom buf = (case strip_prefix BOM buf of None \<Rightarrow> buf | Some r \<Rightarrow> r)"

definition push :: "sse_decoder \<Rightarrow> string \<Rightarrow> sse_event list \<times> sse_decoder" where
  "push d chunk =
     (let buf = de_buffer d @ chunk
      in if \<not> de_bom_checked d then
           (if length buf < length BOM \<and> starts_with buf BOM then ([], d\<lparr>de_buffer := buf\<rparr>)
            else drain_lines (d\<lparr>de_bom_checked := True\<rparr>) (after_bom buf))
         else drain_lines d buf)"

subsection \<open>Chunking does not matter\<close>

text \<open>A line found in a buffer is found when more bytes follow.\<close>

lemma next_line_append: "next_line cs = Some (l, r) \<Longrightarrow> next_line (cs @ xs) = Some (l, r @ xs)"
  by (induction cs arbitrary: l r) (auto split: if_splits list.splits)

lemma decoder_line_buffer:
  "de_buffer (snd (decoder_line d l)) = de_buffer d"
  "de_bom_checked (snd (decoder_line d l)) = de_bom_checked d"
  "decoder_line (d\<lparr>de_buffer := b\<rparr>) l = (fst (decoder_line d l), (snd (decoder_line d l))\<lparr>de_buffer := b\<rparr>)"
  by (auto simp: decoder_line_def Let_def split: prod.splits)

lemma drain_lines_buffer: "drain_lines (d\<lparr>de_buffer := b\<rparr>) buf = drain_lines d buf"
proof (induction d buf arbitrary: b rule: drain_lines.induct)
  case (1 d buf)
  show ?case
  proof (cases "next_line buf")
    case None
    then show ?thesis by (simp add: drain_lines.simps)
  next
    case (Some p)
    then obtain l r where p: "next_line buf = Some (l, r)" by (cases p) auto
    obtain e d' where dl: "decoder_line d (utf8_lossy l) = (e, d')" by fastforce
    from 1 [OF p refl dl [symmetric] refl, of b] show ?thesis
      by (subst (1 2) drain_lines.simps) (simp add: p dl decoder_line_buffer(3))
  qed
qed

lemma drain_lines_bom: "de_bom_checked (snd (drain_lines d buf)) = de_bom_checked d"
proof (induction d buf rule: drain_lines.induct)
  case (1 d buf)
  show ?case
  proof (cases "next_line buf")
    case None
    then show ?thesis by (simp add: drain_lines.simps)
  next
    case (Some p)
    then obtain l r where p: "next_line buf = Some (l, r)" by (cases p) auto
    obtain e d' where dl: "decoder_line d (utf8_lossy l) = (e, d')" by fastforce
    from 1 [OF p refl dl [symmetric] refl] decoder_line_buffer(2) [of d "utf8_lossy l"] show ?thesis
      by (subst drain_lines.simps) (simp add: p dl split_beta)
  qed
qed

lemma drain_lines_buffer_bom:
  "drain_lines (d\<lparr>de_buffer := b, de_bom_checked := c\<rparr>) buf = drain_lines (d\<lparr>de_bom_checked := c\<rparr>) buf"
proof -
  have "d\<lparr>de_buffer := b, de_bom_checked := c\<rparr> = d\<lparr>de_bom_checked := c\<rparr>\<lparr>de_buffer := b\<rparr>" by simp
  then show ?thesis by (simp only: drain_lines_buffer)
qed

lemma drain_lines_append:
  "drain_lines d (a @ b) =
    (let (es, d') = drain_lines d a; (fs, d'') = drain_lines d' (de_buffer d' @ b) in (es @ fs, d''))"
proof (induction d a rule: drain_lines.induct)
  case (1 d a)
  show ?case
  proof (cases "next_line a")
    case None
    then have "drain_lines d a = ([], d\<lparr>de_buffer := a\<rparr>)" by (simp add: drain_lines.simps)
    then show ?thesis by (simp add: drain_lines_buffer split: prod.splits)
  next
    case (Some p)
    then obtain l r where p: "next_line a = Some (l, r)" by (cases p) auto
    obtain e d' where dl: "decoder_line d (utf8_lossy l) = (e, d')" by fastforce
    obtain es d1 where r: "drain_lines d' r = (es, d1)" by fastforce
    obtain fs d2 where f: "drain_lines d1 (de_buffer d1 @ b) = (fs, d2)" by fastforce
    have a: "drain_lines d a = ((case e of None \<Rightarrow> es | Some x \<Rightarrow> x # es), d1)"
      by (subst drain_lines.simps) (simp add: p dl r)
    have "drain_lines d' (r @ b) = (es @ fs, d2)"
      using 1 [OF p refl dl [symmetric] refl] by (simp add: r f)
    then have "drain_lines d (a @ b) = ((case e of None \<Rightarrow> es @ fs | Some x \<Rightarrow> x # es @ fs), d2)"
      by (subst drain_lines.simps) (simp add: next_line_append [OF p] dl)
    then show ?thesis by (simp add: a f split: option.split)
  qed
qed

text \<open>What a decoder may hold before the byte order mark was looked for.\<close>

definition decoder_ok :: "sse_decoder \<Rightarrow> bool" where
  "decoder_ok d \<longleftrightarrow>
     (\<not> de_bom_checked d \<longrightarrow> length (de_buffer d) < length BOM \<and> starts_with (de_buffer d) BOM)"

lemma push_ok: "decoder_ok (snd (push d chunk))"
  using drain_lines_bom by (auto simp: decoder_ok_def push_def Let_def)

lemma starts_with_BOM_prefix: "starts_with (a @ b) BOM \<Longrightarrow> starts_with a BOM"
  by (auto simp: starts_with_iff_prefix prefix_def)

lemma after_bom_append:
  assumes "\<not> (length a < length BOM \<and> starts_with a BOM)"
  shows "after_bom (a @ b) = after_bom a @ b"
proof (cases "strip_prefix BOM a")
  case (Some r)
  then have "a = BOM @ r" by (simp add: strip_prefix_Some)
  then show ?thesis by (simp add: after_bom_def)
next
  case None
  have "strip_prefix BOM (a @ b) = None"
  proof (rule ccontr)
    assume "strip_prefix BOM (a @ b) \<noteq> None"
    then obtain r where ab: "a @ b = BOM @ r" by (auto simp: strip_prefix_Some)
    have "\<not> length BOM \<le> length a"
    proof
      assume "length BOM \<le> length a"
      with ab obtain r' where "a = BOM @ r'" by (metis append_eq_append_conv_if append_take_drop_id)
      with None show False by simp
    qed
    moreover from this ab have "starts_with a BOM"
      by (auto simp: starts_with_def append_eq_append_conv_if)
    ultimately show False using assms by simp
  qed
  with None show ?thesis by (simp add: after_bom_def)
qed

text \<open>C29: feeding the decoder two chunks gives the same events and the same state as feeding it their
  concatenation, wherever the cut is: in the byte order mark, in a line, in a character, or between
  the two bytes of a line end.\<close>

theorem push_push:
  "(let (es, d') = push d a; (fs, d'') = push d' b in (es @ fs, d'')) = push d (a @ b)"
proof (cases "de_bom_checked d")
  case True
  obtain es d' where p: "push d a = (es, d')" by fastforce
  have "de_bom_checked d'" using p True drain_lines_bom [of d "de_buffer d @ a"] by (simp add: push_def)
  moreover have "drain_lines d (de_buffer d @ a) = (es, d')" using p True by (simp add: push_def)
  ultimately show ?thesis
    using True drain_lines_append [of d "de_buffer d @ a" b] by (simp add: push_def)
next
  case False
  let ?buf = "de_buffer d @ a"
  show ?thesis
  proof (cases "length ?buf < length BOM \<and> starts_with ?buf BOM")
    case True
    then have "push d a = ([], d\<lparr>de_buffer := ?buf\<rparr>)" using False by (simp add: push_def)
    then show ?thesis
      using False by (simp add: push_def drain_lines_buffer_bom Let_def split: option.split)
  next
    case long: False
    have pa: "push d a = drain_lines (d\<lparr>de_bom_checked := True\<rparr>) (after_bom ?buf)"
      using False long by (auto simp: push_def Let_def)
    have "\<not> (length (?buf @ b) < length BOM \<and> starts_with (?buf @ b) BOM)"
      using long starts_with_BOM_prefix by fastforce
    then have pab: "push d (a @ b) = drain_lines (d\<lparr>de_bom_checked := True\<rparr>) (after_bom ?buf @ b)"
      using False after_bom_append [OF long, of b] by (auto simp: push_def Let_def)
    obtain es d' where p: "push d a = (es, d')" by fastforce
    then have "de_bom_checked d'"
      using pa drain_lines_bom [of "d\<lparr>de_bom_checked := True\<rparr>" "after_bom ?buf"] by simp
    then have "push d' b = drain_lines d' (de_buffer d' @ b)" by (simp add: push_def)
    then show ?thesis
      using drain_lines_append [of "d\<lparr>de_bom_checked := True\<rparr>" "after_bom ?buf" b] p pa pab by simp
  qed
qed

end
