(* ===== verification/Usd.thy ===== *)
theory Usd
  imports Memory_Cover
begin

section \<open>Amounts of money\<close>

text \<open>
  Costs and caps are \<open>f64\<close> values: a rational with operations rounded to 53 bits, an infinity,
  or no number. Costs are sums of prices in dollars, far above the subnormal range.
\<close>

datatype usd = NaN | PosInf | NegInf | Fin rat

definition f64_limit :: rat where
  "f64_limit = 2 ^ 1024"

fun fin_or_inf :: "rat \<Rightarrow> usd" where
  "fin_or_inf r = (if f64_limit \<le> r then PosInf else if r \<le> - f64_limit then NegInf else Fin r)"

fun usd_add :: "usd \<Rightarrow> usd \<Rightarrow> usd" where
  "usd_add NaN _ = NaN"
| "usd_add _ NaN = NaN"
| "usd_add PosInf NegInf = NaN"
| "usd_add NegInf PosInf = NaN"
| "usd_add PosInf _ = PosInf"
| "usd_add NegInf _ = NegInf"
| "usd_add (Fin _) PosInf = PosInf"
| "usd_add (Fin _) NegInf = NegInf"
| "usd_add (Fin a) (Fin b) = fin_or_inf (f64_add a b)"

text \<open>\<open>a >= b\<close> on \<open>f64\<close>: false when either is no number.\<close>

fun usd_ge :: "usd \<Rightarrow> usd \<Rightarrow> bool" where
  "usd_ge NaN _ = False"
| "usd_ge _ NaN = False"
| "usd_ge PosInf _ = True"
| "usd_ge _ NegInf = True"
| "usd_ge NegInf _ = False"
| "usd_ge (Fin _) PosInf = False"
| "usd_ge (Fin a) (Fin b) = (b \<le> a)"

text \<open>\<open>{:.2}\<close>: the exact value rounded to hundredths, ties to even.\<close>

definition pad2 :: "nat \<Rightarrow> string" where
  "pad2 n = (if n < 10 then ''0'' else []) @ dec n"

definition hundredths :: "nat \<Rightarrow> string" where
  "hundredths n = dec (n div 100) @ ''.'' @ pad2 (n mod 100)"

fun usd2 :: "usd \<Rightarrow> string" where
  "usd2 NaN = ''NaN''"
| "usd2 PosInf = ''inf''"
| "usd2 NegInf = ''-inf''"
| "usd2 (Fin r) = (if r < 0 then ''-'' @ hundredths (nat (round_half_even (- r * 100)))
     else hundredths (nat (round_half_even (r * 100))))"

end
