(* ===== verification/Worker_Report.thy ===== *)
theory Worker_Report
  imports Utf8
begin

section \<open>Workers and their reports\<close>

text \<open>
  The data every other part shares: which harness runs a worker, the reports that workers,
  watches, threads and outside programs send, how a batch of reports is shown to the model
  (\<open>chat_message\<close>), and what is checked of a report that comes from outside
  (\<open>crates/core/src/worker.rs\<close>, \<open>worker/kind.rs\<close>, \<open>inbox_post.rs\<close>, \<open>sanitize.rs\<close>).
\<close>

subsection \<open>Harnesses\<close>

datatype harness_id = Claude | Cursor | Opencode | Codex | ClaudeHeadless

fun harness_name :: "harness_id \<Rightarrow> string" where
  "harness_name Claude = ''claude''"
| "harness_name Cursor = ''cursor''"
| "harness_name Opencode = ''opencode''"
| "harness_name Codex = ''codex''"
| "harness_name ClaudeHeadless = ''claude-headless''"

text \<open>What the stored field may hold: a name, an older name, or the boolean of the first format.\<close>

datatype stored_harness = HName string | HFlag bool

definition harness_load :: "stored_harness \<Rightarrow> harness_id option" where
  "harness_load s = (case s of
     HFlag b \<Rightarrow> Some (if b then Cursor else Claude)
   | HName n \<Rightarrow>
       if n = ''claude'' \<or> n = ''tmux'' then Some Claude
       else if n = ''cursor'' then Some Cursor
       else if n = ''opencode'' then Some Opencode
       else if n = ''codex'' then Some Codex
       else if n = ''claude-headless'' then Some ClaudeHeadless
       else None)"

record live_harness =
  lh_cursor :: bool
  lh_codex :: bool
  lh_claude_headless :: bool
  lh_opencode :: bool

definition close_harness :: "harness_id option \<Rightarrow> live_harness \<Rightarrow> harness_id" where
  "close_harness recorded live =
     (if lh_cursor live then Cursor
      else if lh_codex live then Codex
      else if lh_claude_headless live then ClaudeHeadless
      else if lh_opencode live then Opencode
      else (case recorded of Some h \<Rightarrow> h | None \<Rightarrow> Claude))"

subsection \<open>Models\<close>

definition DEFAULT_OPENCODE_MODEL :: string where
  "DEFAULT_OPENCODE_MODEL = ''openai/gpt-6.1-sol''"

definition is_model_id :: "string \<Rightarrow> bool" where
  "is_model_id model = (case split_once (CHR ''/'') model of
     Some (provider, name) \<Rightarrow> provider \<noteq> [] \<and> name \<noteq> [] | None \<Rightarrow> False)"

definition is_token_model :: "string \<Rightarrow> bool" where
  "is_token_model model \<longleftrightarrow> model \<noteq> [] \<and> list_all (\<lambda>c. \<not> is_ws c) (chars_of model)"

definition resolve_claude_model ::
  "string option \<Rightarrow> string option result \<Rightarrow> string option \<times> string option" where
  "resolve_claude_model spawn config = (case spawn of
     Some model \<Rightarrow> (Some model, None)
   | None \<Rightarrow> (case config of
       Inl err \<Rightarrow> (None, Some (''Warning: [claude] model was skipped because the ralph config did not load ('' @ err @ ''). Used claude'' @ [CHR 0x27] @ ''s default model instead.''))
     | Inr None \<Rightarrow> (None, None)
     | Inr (Some model) \<Rightarrow>
         if is_token_model model then (Some model, None)
         else (None, Some (''[claude] model '' @ [CHR 0x27] @ model @ [CHR 0x27] @ '' must be non-empty with no whitespace; using claude'' @ [CHR 0x27] @ ''s default model.''))))"

definition resolve_opencode_model ::
  "string option \<Rightarrow> string option result \<Rightarrow> string \<times> string option" where
  "resolve_opencode_model spawn config = (case spawn of
     Some model \<Rightarrow> (model, None)
   | None \<Rightarrow> (case config of
       Inl err \<Rightarrow> (DEFAULT_OPENCODE_MODEL, Some (''Warning: [opencode] model was skipped because the ralph config did not load ('' @ err @ ''). Used '' @ [CHR 0x22] @ DEFAULT_OPENCODE_MODEL @ [CHR 0x22] @ '' instead.''))
     | Inr None \<Rightarrow> (DEFAULT_OPENCODE_MODEL, None)
     | Inr (Some model) \<Rightarrow>
         if is_model_id model then (model, None)
         else (DEFAULT_OPENCODE_MODEL, Some (''[opencode] model '' @ [CHR 0x27] @ model @ [CHR 0x27] @ '' must look like provider/model; using '' @ [CHR 0x22] @ DEFAULT_OPENCODE_MODEL @ [CHR 0x22] @ ''.''))))"

subsection \<open>Worktrees\<close>

definition branch_name :: "string \<Rightarrow> string" where
  "branch_name i = ''worker/'' @ i"

datatype worktree_base = Head | OriginMain

definition ORIGIN_MAIN :: string where
  "ORIGIN_MAIN = ''origin/main''"

definition worktree_add_args :: "string \<Rightarrow> string \<Rightarrow> bool \<Rightarrow> worktree_base \<Rightarrow> string list" where
  "worktree_add_args path branch branch_exists base =
     [''worktree'', ''add''] @
     (if branch_exists then [path, branch]
      else (case base of
        Head \<Rightarrow> [''-b'', branch, path]
      | OriginMain \<Rightarrow> [''-b'', branch, path, ORIGIN_MAIN]))"

datatype worktree_via = Existing | Wt | Git "string option"

fun worktree_note :: "worktree_via \<Rightarrow> string" where
  "worktree_note Existing = ''Reused its existing worktree.''"
| "worktree_note Wt = ''Created its worktree with wt.''"
| "worktree_note (Git None) = ''Created its worktree with git (wt is not installed).''"
| "worktree_note (Git (Some err)) = ''Created its worktree with git because wt failed: '' @ err"

subsection \<open>Reports\<close>

record report =
  rp_worker :: string
  rp_at :: string
  rp_status :: string
  rp_text :: string

definition is_ascii_alnum :: "char \<Rightarrow> bool" where
  "is_ascii_alnum c =
     (is_digit c \<or> (let n = (of_char c :: nat) in 65 \<le> n \<and> n \<le> 90 \<or> 97 \<le> n \<and> n \<le> 122))"

text \<open>\<open>{seq:06}\<close>: at least six digits, padded with zeros.\<close>

definition pad6 :: "nat \<Rightarrow> string" where
  "pad6 n = replicate (6 - length (dec n)) (CHR ''0'') @ dec n"

definition safe_char :: "string \<Rightarrow> char" where
  "safe_char ch = (if length ch = 1 \<and> (is_ascii_alnum (hd ch) \<or> hd ch = CHR ''-'') then hd ch else CHR ''_'')"

definition inbox_file_name :: "report \<Rightarrow> nat \<Rightarrow> string" where
  "inbox_file_name r seq =
     filter is_digit (rp_at r) @ ''-'' @ pad6 seq @ ''-'' @ map safe_char (chars_of (rp_worker r)) @ ''.json''"

definition THREAD_REPORT_PREFIX :: string where
  "THREAD_REPORT_PREFIX = ''thread:''"

definition EXTERNAL_REPORT_PREFIX :: string where
  "EXTERNAL_REPORT_PREFIX = ''external:''"

definition middle_dot :: string where
  "middle_dot = '' '' @ of_bytes [194, 183] @ '' ''"

definition mark_line :: "string \<Rightarrow> string" where
  "mark_line l = (if l = [] then ''|'' else ''| '' @ l)"

definition mark_untrusted :: "string \<Rightarrow> string" where
  "mark_untrusted s = join newline (map mark_line (lines s))"

definition one_message :: "report \<Rightarrow> string" where
  "one_message r = (case strip_prefix THREAD_REPORT_PREFIX (rp_worker r) of
     Some name \<Rightarrow> ''[thread '' @ name @ middle_dot @ rp_status r @ '']'' @ newline @ rp_text r
   | None \<Rightarrow> (case strip_prefix EXTERNAL_REPORT_PREFIX (rp_worker r) of
       Some source \<Rightarrow> ''[external '' @ source @ middle_dot @ rp_status r @ '']'' @ newline @ mark_untrusted (rp_text r)
     | None \<Rightarrow> ''[worker '' @ rp_worker r @ middle_dot @ rp_status r @ '']'' @ newline @ rp_text r))"

definition chat_message :: "report list \<Rightarrow> string" where
  "chat_message rs = join (newline @ newline) (map one_message rs)"

datatype report_status = Done | Blocked | Question

fun status_name :: "report_status \<Rightarrow> string" where
  "status_name Done = ''done''"
| "status_name Blocked = ''blocked''"
| "status_name Question = ''question''"

definition ALL_STATUSES :: "report_status list" where
  "ALL_STATUSES = [Done, Blocked, Question]"

definition status_parse :: "string \<Rightarrow> report_status result" where
  "status_parse s = (case find (\<lambda>k. status_name k = s) ALL_STATUSES of
     Some k \<Rightarrow> Inr k
   | None \<Rightarrow> Inl (''Status '' @ [CHR 0x27] @ s @ [CHR 0x27] @ '' must be done, blocked or question.''))"

subsection \<open>Characters\<close>

text \<open>The code point of a character given as its UTF-8 bytes.\<close>

definition code_point :: "string \<Rightarrow> nat" where
  "code_point ch = (case map of_char ch of
     [a] \<Rightarrow> a
   | [a, b] \<Rightarrow> (a - 192) * 64 + (b - 128)
   | [a, b, c] \<Rightarrow> ((a - 224) * 64 + (b - 128)) * 64 + (c - 128)
   | [a, b, c, d] \<Rightarrow> (((a - 240) * 64 + (b - 128)) * 64 + (c - 128)) * 64 + (d - 128)
   | _ \<Rightarrow> 0)"

text \<open>\<open>char::is_control\<close>: the general category Cc.\<close>

definition is_control :: "string \<Rightarrow> bool" where
  "is_control ch = (let c = code_point ch in c < 32 \<or> 127 \<le> c \<and> c < 160)"

definition FORMAT_CHARS :: "(nat \<times> nat) list" where
  "FORMAT_CHARS =
     [(0x00AD, 0x00AD), (0x0600, 0x0605), (0x061C, 0x061C), (0x06DD, 0x06DD), (0x070F, 0x070F),
      (0x0890, 0x0891), (0x08E2, 0x08E2), (0x180E, 0x180E), (0x200B, 0x200F), (0x202A, 0x202E),
      (0x2060, 0x2064), (0x2066, 0x206F), (0xFEFF, 0xFEFF), (0xFFF9, 0xFFFB), (0x110BD, 0x110BD),
      (0x110CD, 0x110CD), (0x13430, 0x1343F), (0x1BCA0, 0x1BCA3), (0x1D173, 0x1D17A),
      (0xE0001, 0xE0001), (0xE0020, 0xE007F)]"

definition is_format_char :: "string \<Rightarrow> bool" where
  "is_format_char ch = list_ex (\<lambda>(a, b). a \<le> code_point ch \<and> code_point ch \<le> b) FORMAT_CHARS"

definition forbidden_control :: "string \<Rightarrow> bool" where
  "forbidden_control ch \<longleftrightarrow> is_control ch \<and> ch \<noteq> newline \<and> ch \<noteq> [CHR 0x09]"

definition strip_controls :: "string \<Rightarrow> string" where
  "strip_controls s = concat (filter (\<lambda>ch. \<not> forbidden_control ch) (chars_of s))"

subsection \<open>Reports from outside\<close>

definition EXTERNAL_STATUS :: string where
  "EXTERNAL_STATUS = ''report''"

definition MAX_TEXT_BYTES :: nat where
  "MAX_TEXT_BYTES = 65536"

definition MAX_NAME_CHARS :: nat where
  "MAX_NAME_CHARS = 32"

definition is_name_byte :: "char \<Rightarrow> bool" where
  "is_name_byte c = ((let n = (of_char c :: nat) in 97 \<le> n \<and> n \<le> 122) \<or> is_digit c \<or> c = CHR ''-'')"

definition is_name :: "string \<Rightarrow> bool" where
  "is_name s \<longleftrightarrow> 1 \<le> length s \<and> length s \<le> MAX_NAME_CHARS \<and> \<not> starts_with ''-'' s \<and> list_all is_name_byte s"

definition validate_source :: "string \<Rightarrow> unit result" where
  "validate_source s =
     (if is_name s then Inr ()
      else Inl ([CHR 0x27] @ s @ [CHR 0x27] @ '' is not a source name. Use 1 to '' @ dec MAX_NAME_CHARS
        @ '' lowercase letters, digits or dashes, not starting with a dash.''))"

definition is_refused_char :: "string \<Rightarrow> bool" where
  "is_refused_char ch \<longleftrightarrow>
     code_point ch \<noteq> 0x200C \<and> code_point ch \<noteq> 0x200D \<and>
     (forbidden_control ch \<or> is_format_char ch \<or> code_point ch = 0x2028 \<or> code_point ch = 0x2029)"

fun hex_digit :: "nat \<Rightarrow> char" where
  "hex_digit n = (if n < 10 then char_of (48 + n) else char_of (55 + n))"

fun hex :: "nat \<Rightarrow> string" where
  "hex n = (if n < 16 then [hex_digit n] else hex (n div 16) @ [hex_digit (n mod 16)])"

declare hex.simps [simp del]

definition hex4 :: "nat \<Rightarrow> string" where
  "hex4 n = replicate (4 - length (hex n)) (CHR ''0'') @ hex n"

text \<open>\<open>replace(from, to)\<close> for a non-empty pattern: left to right, matches do not overlap.\<close>

function replace_all :: "string \<Rightarrow> string \<Rightarrow> string \<Rightarrow> string" where
  "replace_all pat new [] = []"
| "replace_all pat new (c # s) =
     (if pat \<noteq> [] \<and> starts_with pat (c # s) then new @ replace_all pat new (drop (length pat) (c # s))
      else c # replace_all pat new s)"
  by pat_completeness auto
termination by (relation "measure (\<lambda>(_, _, s). length s)") auto

text \<open>
  \<open>std::str::from_utf8\<close> accepts the byte strings that lossy decoding leaves unchanged, and
  returns the same bytes.
\<close>

definition is_utf8 :: "string \<Rightarrow> bool" where
  "is_utf8 bytes \<longleftrightarrow> utf8_lossy bytes = bytes"

definition decode_text :: "string \<Rightarrow> string result" where
  "decode_text bytes =
     (if MAX_TEXT_BYTES < length bytes
      then Inl (''The report is larger than '' @ dec MAX_TEXT_BYTES @ '' bytes. Send a shorter report.'')
      else if \<not> is_utf8 bytes then Inl ''The report is not valid UTF-8 text.''
      else let text = (case strip_prefix (of_bytes [0xEF, 0xBB, 0xBF]) bytes of Some t \<Rightarrow> t | None \<Rightarrow> bytes);
               text = replace_all [CHR 0x0D, CHR 0x0A] newline text
      in (case find is_refused_char (chars_of text) of
            Some c \<Rightarrow> Inl (''The report contains the refused character U+'' @ hex4 (code_point c) @ ''.'')
          | None \<Rightarrow> if trim text = [] then Inl ''The report is empty.'' else Inr text))"

definition external_report :: "string \<Rightarrow> string \<Rightarrow> string \<Rightarrow> report result" where
  "external_report source at bytes = (case validate_source source of
     Inl e \<Rightarrow> Inl e
   | Inr _ \<Rightarrow> (case decode_text bytes of
       Inl e \<Rightarrow> Inl e
     | Inr text \<Rightarrow> Inr \<lparr>rp_worker = EXTERNAL_REPORT_PREFIX @ source, rp_at = at,
         rp_status = EXTERNAL_STATUS, rp_text = text\<rparr>))"

definition check_store :: "bool \<Rightarrow> bool \<Rightarrow> bool \<Rightarrow> unit result" where
  "check_store is_dir has_log has_lock =
     (if \<not> is_dir then Inl ''The store path is not an existing directory.''
      else if \<not> has_log \<and> \<not> has_lock
        then Inl ''The store path is not a chat store: it has no log.jsonl and no LOCK file.''
      else Inr ())"

subsection \<open>Text from outside cannot pose as a report\<close>

lemma lines_from_no_newline: "CHR 0x0A \<notin> set l \<Longrightarrow> lines_from acc (l @ s) = lines_from (acc @ l) s"
  by (induction l arbitrary: acc) auto

lemma newline_notin_dot: "CHR 0x0A \<notin> set middle_dot"
  by code_simp

lemma lines_append_newline: "CHR 0x0A \<notin> set l \<Longrightarrow> lines (l @ newline @ s) = strip_cr l # lines s"
  using lines_from_no_newline [of l "[]" "newline @ s"] by (simp add: lines_def newline_char)

lemma lines_join:
  "list_all (\<lambda>l. CHR 0x0A \<notin> set l) ls \<Longrightarrow> ls \<noteq> [] \<Longrightarrow> last ls \<noteq> [] \<Longrightarrow>
     lines (join newline ls) = map strip_cr (butlast ls) @ [last ls]"
proof (induction newline ls rule: join.induct)
  case (2 x)
  then show ?case using lines_from_no_newline [of x "[]" "[]"] by (simp add: lines_def)
qed (simp_all add: lines_append_newline)

lemma lines_from_no_newline_in:
  "CHR 0x0A \<notin> set acc \<Longrightarrow> \<forall>l \<in> set (lines_from acc s). CHR 0x0A \<notin> set l"
  by (induction acc s rule: lines_from.induct) (auto simp: strip_cr_def dest: in_set_butlastD)

lemma lines_from_nonempty: "acc \<noteq> [] \<or> s \<noteq> [] \<Longrightarrow> lines_from acc s \<noteq> []"
  by (induction acc s rule: lines_from.induct) auto

lemma mark_line_bar: "\<exists>rest. mark_line l = CHR ''|'' # rest" "\<exists>rest. strip_cr (mark_line l) = CHR ''|'' # rest"
  by (auto simp: strip_cr_def mark_line_def)

lemma mark_untrusted_lines: "list_all (starts_with ''|'') (lines (mark_untrusted s))"
proof (cases "lines s = []")
  case True
  then show ?thesis by (simp add: mark_untrusted_def lines_def)
next
  case False
  have "list_all (\<lambda>l. CHR 0x0A \<notin> set l) (lines s)"
    using lines_from_no_newline_in [of "[]" s] by (simp add: lines_def list_all_iff)
  then have *: "list_all (\<lambda>l. CHR 0x0A \<notin> set l) (map mark_line (lines s))"
    by (auto simp: list_all_iff mark_line_def)
  have "last (map mark_line (lines s)) \<noteq> []"
    using False by (simp add: last_map mark_line_def)
  then have "lines (mark_untrusted s) =
      map (strip_cr \<circ> mark_line) (butlast (lines s)) @ [mark_line (last (lines s))]"
    using False lines_join [OF *] by (simp add: mark_untrusted_def map_butlast last_map)
  moreover have "starts_with ''|'' (mark_line l)" "starts_with ''|'' (strip_cr (mark_line l))" for l
    using mark_line_bar [of l] by (auto simp: starts_with_def)
  ultimately show ?thesis by (auto simp: list_all_iff)
qed

lemma plain_not_refused: "32 \<le> (of_char c :: nat) \<Longrightarrow> (of_char c :: nat) < 127 \<Longrightarrow> \<not> is_refused_char [c]"
  by (simp add: is_refused_char_def forbidden_control_def is_control_def is_format_char_def code_point_def FORMAT_CHARS_def)

lemma plain_text_not_refused:
  "list_all (\<lambda>c. 32 \<le> (of_char c :: nat) \<and> (of_char c :: nat) < 127) s \<Longrightarrow> find is_refused_char (chars_of s) = None"
proof -
  assume *: "list_all (\<lambda>c. 32 \<le> (of_char c :: nat) \<and> (of_char c :: nat) < 127) s"
  then have "chars_of s = map (\<lambda>c. [c]) s"
    by (intro chars_of_lead) (auto simp: list_all_iff)
  then show ?thesis using * plain_not_refused by (auto simp: find_None_iff list_all_iff)
qed

lemma external_report_Inr:
  "external_report src at bytes = Inr r \<longleftrightarrow>
     is_name src \<and> (\<exists>t. decode_text bytes = Inr t \<and>
       r = \<lparr>rp_worker = EXTERNAL_REPORT_PREFIX @ src, rp_at = at, rp_status = EXTERNAL_STATUS, rp_text = t\<rparr>)"
  by (auto simp: external_report_def validate_source_def split: sum.splits)

lemma is_name_no_newline: "is_name s \<Longrightarrow> CHR 0x0A \<notin> set s"
  by (auto simp: is_name_def list_all_iff is_name_byte_def is_digit_def)

text \<open>C37: a report posted from outside the program is shown to the model as one header line that
  names it as external, with the given source, and every further line of it starts with a bar:
  whatever the text holds, no line of it can pass for the header of a worker's report or for an
  instruction of the program.\<close>

theorem external_text_is_marked:
  assumes "external_report src at bytes = Inr r"
  shows "\<exists>ls. lines (chat_message [r]) = (''[external '' @ src @ middle_dot @ ''report]'') # ls \<and>
    list_all (starts_with ''|'') ls"
proof -
  obtain t where r: "r = \<lparr>rp_worker = EXTERNAL_REPORT_PREFIX @ src, rp_at = at, rp_status = EXTERNAL_STATUS, rp_text = t\<rparr>"
    and src: "is_name src"
    using assms by (auto simp: external_report_Inr)
  let ?h = "''[external '' @ src @ middle_dot @ ''report]''"
  have "strip_prefix THREAD_REPORT_PREFIX (EXTERNAL_REPORT_PREFIX @ src) = None"
    by (simp add: strip_prefix_def starts_with_def THREAD_REPORT_PREFIX_def EXTERNAL_REPORT_PREFIX_def)
  then have "chat_message [r] = ?h @ newline @ mark_untrusted t"
    by (simp add: chat_message_def one_message_def r EXTERNAL_STATUS_def)
  moreover have "CHR 0x0A \<notin> set ?h"
    using is_name_no_newline [OF src] newline_notin_dot by simp
  moreover have "strip_cr ?h = ?h" by (simp add: strip_cr_def)
  ultimately have "lines (chat_message [r]) = ?h # lines (mark_untrusted t)"
    by (metis lines_append_newline)
  then show ?thesis using mark_untrusted_lines [of t] by blast
qed

theorem external_text_is_marked_witness:
  "\<exists>ls. lines (chat_message [\<lparr>rp_worker = ''external:ci'', rp_at = ''t'', rp_status = ''report'', rp_text = ''[worker a]''\<rparr>])
     = (''[external '' @ ''ci'' @ middle_dot @ ''report]'') # ls \<and> list_all (starts_with ''|'') ls"
proof (rule external_text_is_marked [of _ "''t''" "''[worker a]''"])
  have "is_utf8 ''[worker a]''" "strip_prefix (of_bytes [0xEF, 0xBB, 0xBF]) ''[worker a]'' = None"
    "replace_all [CHR 0x0D, CHR 0x0A] newline ''[worker a]'' = ''[worker a]''"
    "trim ''[worker a]'' \<noteq> []"
    "is_name ''ci''" by code_simp+
  moreover have "find is_refused_char (chars_of ''[worker a]'') = None"
    by (rule plain_text_not_refused) simp
  ultimately show "external_report ''ci'' ''t'' ''[worker a]'' = Inr \<lparr>rp_worker = ''external:ci'', rp_at = ''t'', rp_status = ''report'', rp_text = ''[worker a]''\<rparr>"
    by (simp add: external_report_Inr decode_text_def MAX_TEXT_BYTES_def EXTERNAL_REPORT_PREFIX_def EXTERNAL_STATUS_def)
qed

end
