(* ===== verification/Tool_Args.thy ===== *)
theory Tool_Args
  imports Rust_Str
begin

section \<open>Arguments of tool calls\<close>

text \<open>
  The model calls the program's tools with a JSON object. What the code reads of it is the value
  of a key: null, a boolean, a number, a string, or something else. The object is a map from keys
  to such values; numbers that are not unsigned 64-bit integers count as \<open>AOther\<close>, which is all
  \<open>as_u64\<close> tells apart.
\<close>

datatype arg = ANull | ABool bool | AU64 nat | AStr string | AOther

type_synonym args = "string \<rightharpoonup> arg"

fun as_bool :: "arg \<Rightarrow> bool option" where
  "as_bool (ABool b) = Some b"
| "as_bool _ = None"

fun as_str :: "arg \<Rightarrow> string option" where
  "as_str (AStr s) = Some s"
| "as_str _ = None"

fun as_u64 :: "arg \<Rightarrow> nat option" where
  "as_u64 (AU64 n) = (if n \<le> u64_max then Some n else None)"
| "as_u64 _ = None"

definition quoted :: "string \<Rightarrow> string" where
  "quoted s = [CHR 0x27] @ s @ [CHR 0x27]"

definition string_arg :: "args \<Rightarrow> string \<Rightarrow> string result" where
  "string_arg a key =
     (case Option.bind (a key) as_str of
        Some s \<Rightarrow> if trim s \<noteq> [] then Inr s else Inl (''Missing or empty string argument '' @ quoted key @ ''.'')
      | None \<Rightarrow> Inl (''Missing or empty string argument '' @ quoted key @ ''.''))"

definition bool_arg :: "args \<Rightarrow> string \<Rightarrow> bool result" where
  "bool_arg a key = (case a key of
     None \<Rightarrow> Inr False
   | Some ANull \<Rightarrow> Inr False
   | Some (ABool b) \<Rightarrow> Inr b
   | Some _ \<Rightarrow> Inl (key @ '' must be true or false.''))"

lemma as_str_Some: "as_str v = Some s \<longleftrightarrow> v = AStr s"
  by (cases v) auto

lemma string_arg_Inr: "string_arg a key = Inr s \<longleftrightarrow> a key = Some (AStr s) \<and> trim s \<noteq> []"
  by (auto simp: string_arg_def bind_eq_Some_conv as_str_Some split: option.splits if_splits)

text \<open>\<open>?\<close> on results.\<close>

definition bind_result :: "'a result \<Rightarrow> ('a \<Rightarrow> 'b result) \<Rightarrow> 'b result" where
  "bind_result r f = (case r of Inl e \<Rightarrow> Inl e | Inr x \<Rightarrow> f x)"

lemma bind_result_Inr [simp]: "bind_result r f = Inr y \<longleftrightarrow> (\<exists>x. r = Inr x \<and> f x = Inr y)"
  by (simp add: bind_result_def split: sum.split)

lemma bind_result_simps [simp]:
  "bind_result (Inl e) f = Inl e" "bind_result (Inr x) f = f x"
  by (simp_all add: bind_result_def)

text \<open>Signed integers printed in decimal.\<close>

definition dec_int :: "int \<Rightarrow> string" where
  "dec_int i = (if i < 0 then ''-'' @ dec (nat (- i)) else dec (nat i))"

end
