(* ===== verification/Watch.thy ===== *)
theory Watch
  imports Worker_Report Tool_Args
begin

section \<open>Watches\<close>

text \<open>
  A watch runs a shell command beside the chat and reports its end and the last lines of its
  output (\<open>crates/core/src/watch.rs\<close>, \<open>watch_request.rs\<close>). Durations are counted in
  nanoseconds.
\<close>

subsection \<open>Specification and outcome\<close>

type_synonym duration = nat

definition from_secs :: "nat \<Rightarrow> duration" where
  "from_secs s = s * 10 ^ 9"

definition as_secs :: "duration \<Rightarrow> nat" where
  "as_secs d = d div 10 ^ 9"

definition WATCH_STATUS :: string where
  "WATCH_STATUS = ''watch''"

definition WATCH_ID_PREFIX :: string where
  "WATCH_ID_PREFIX = ''watch:''"

definition watch_id :: "string \<Rightarrow> string" where
  "watch_id raw = (if starts_with WATCH_ID_PREFIX raw then raw else WATCH_ID_PREFIX @ raw)"

datatype watch_kind = Normal | Persistent

record watch_spec =
  ws_id :: string
  ws_command :: string
  ws_follow_up :: "string option"
  ws_kind :: watch_kind
  ws_timeout :: "duration option"
  ws_limit :: "duration option"

definition with_default_timeout :: "watch_spec \<Rightarrow> duration \<Rightarrow> watch_spec" where
  "with_default_timeout s d =
     (if ws_timeout s \<noteq> None then s else s\<lparr>ws_timeout := Some d, ws_limit := Some d\<rparr>)"

datatype watch_outcome = Exited int | Signaled int | Stopped | TimedOut duration | WaitFailed string

definition outcome_from_exit :: "int option \<Rightarrow> int option \<Rightarrow> watch_outcome" where
  "outcome_from_exit code signal = (case code of
     Some c \<Rightarrow> Exited c
   | None \<Rightarrow> (case signal of Some s \<Rightarrow> Signaled s | None \<Rightarrow> WaitFailed ''no exit code or signal''))"

datatype child_state = Running | ChildExited "int option" "int option" | ChildWaitFailed string

datatype poll_decision = PWait | PFinish "watch_outcome option"

datatype stop_reason = Requested | Shutdown

fun stop_outcome :: "stop_reason \<Rightarrow> watch_outcome option" where
  "stop_outcome Requested = Some Stopped"
| "stop_outcome Shutdown = None"

definition poll_decision_of ::
  "watch_spec \<Rightarrow> duration \<Rightarrow> stop_reason option \<Rightarrow> child_state \<Rightarrow> poll_decision" where
  "poll_decision_of spec elapsed stop child = (case stop of
     Some reason \<Rightarrow> PFinish (stop_outcome reason)
   | None \<Rightarrow>
       (case (case ws_timeout spec of Some t \<Rightarrow> if t \<le> elapsed then Some t else None | None \<Rightarrow> None) of
          Some timeout \<Rightarrow>
            PFinish (Some (TimedOut (case ws_limit spec of Some l \<Rightarrow> l | None \<Rightarrow> timeout)))
        | None \<Rightarrow> (case child of
            Running \<Rightarrow> PWait
          | ChildExited code signal \<Rightarrow> PFinish (Some (outcome_from_exit code signal))
          | ChildWaitFailed err \<Rightarrow> PFinish (Some (WaitFailed err)))))"

subsection \<open>The tail of the output\<close>

definition TAIL_MAX_LINES :: nat where
  "TAIL_MAX_LINES = 50"

definition TAIL_MAX_BYTES :: nat where
  "TAIL_MAX_BYTES = 8 * 1024"

definition TRUNCATED_MARKER :: string where
  "TRUNCATED_MARKER = ''[earlier output truncated]''"

definition NO_OUTPUT :: string where
  "NO_OUTPUT = ''(no output)''"

record tail =
  tl_max_lines :: nat
  tl_max_bytes :: nat
  tl_lines :: "string list"
  tl_bytes :: nat
  tl_truncated :: bool

definition tail_new :: "nat \<Rightarrow> nat \<Rightarrow> tail" where
  "tail_new max_lines max_bytes =
     \<lparr>tl_max_lines = max_lines, tl_max_bytes = max_bytes, tl_lines = [], tl_bytes = 0, tl_truncated = False\<rparr>"

text \<open>\<open>clip_end\<close>: the longest end of the line of at most \<open>max_bytes\<close> bytes that starts at a
  character. The loop moves \<open>start\<close> up; the end of the line is always a boundary.\<close>

function next_boundary :: "string \<Rightarrow> nat \<Rightarrow> nat" where
  "next_boundary line start =
     (if is_char_boundary line start \<or> length line \<le> start then start else next_boundary line (start + 1))"
  by pat_completeness auto
termination by (relation "measure (\<lambda>(line, start). length line - start)") auto

declare next_boundary.simps [simp del]

definition clip_end :: "string \<Rightarrow> nat \<Rightarrow> string" where
  "clip_end line max_bytes = drop (next_boundary line (length line - max_bytes)) line"

text \<open>The \<open>while\<close> of \<open>push_line\<close>.\<close>

function drop_front :: "tail \<Rightarrow> tail" where
  "drop_front t =
     (if tl_max_lines t < length (tl_lines t) \<or> tl_max_bytes t < tl_bytes t
      then (case tl_lines t of
              [] \<Rightarrow> t
            | dropped # rest \<Rightarrow>
                drop_front (t\<lparr>tl_lines := rest, tl_bytes := tl_bytes t - length dropped, tl_truncated := True\<rparr>))
      else t)"
  by pat_completeness auto
termination by (relation "measure (\<lambda>t. length (tl_lines t))") auto

declare drop_front.simps [simp del]

definition push_line :: "tail \<Rightarrow> string \<Rightarrow> tail" where
  "push_line t line =
     (let kept = clip_end line (tl_max_bytes t)
      in drop_front (t\<lparr>tl_truncated := (tl_truncated t \<or> length kept < length line),
           tl_bytes := tl_bytes t + length kept, tl_lines := tl_lines t @ [kept]\<rparr>))"

definition tail_render :: "tail \<Rightarrow> string" where
  "tail_render t =
     (if tl_truncated t then
        (if tl_lines t = [] then TRUNCATED_MARKER
         else TRUNCATED_MARKER @ newline @ join newline (tl_lines t))
      else join newline (tl_lines t))"

subsection \<open>Reports\<close>

fun describe :: "watch_outcome \<Rightarrow> string" where
  "describe (Exited code) = ''exited with code '' @ dec_int code"
| "describe (Signaled signal) = ''was killed by signal '' @ dec_int signal"
| "describe Stopped = ''was stopped''"
| "describe (TimedOut limit) = ''timed out after '' @ dec (as_secs limit) @ ''s and was killed''"
| "describe (WaitFailed err) = ''could not be waited on: '' @ err"

definition report_text :: "watch_spec \<Rightarrow> watch_outcome \<Rightarrow> tail \<Rightarrow> string" where
  "report_text spec outcome t =
     (let rendered = tail_render t;
          output = (if rendered = [] then NO_OUTPUT else rendered)
      in ''Watch `'' @ ws_id spec @ ''` '' @ describe outcome @ ''.'' @ newline @ ''Command: '' @ ws_command spec
         @ newline @ newline @ ''Output:'' @ newline @ output @
         (case ws_follow_up spec of Some f \<Rightarrow> newline @ newline @ ''Follow-up: '' @ f | None \<Rightarrow> []))"

definition build_report :: "watch_spec \<Rightarrow> watch_outcome \<Rightarrow> tail \<Rightarrow> string \<Rightarrow> report" where
  "build_report spec outcome t at =
     \<lparr>rp_worker = ws_id spec, rp_at = at, rp_status = WATCH_STATUS, rp_text = report_text spec outcome t\<rparr>"

subsection \<open>Requests\<close>

record watch_request =
  wr_id :: string
  wr_command :: string
  wr_follow_up :: string
  wr_persistent :: bool
  wr_timeout_secs :: "nat option"

definition into_spec :: "watch_request \<Rightarrow> watch_spec" where
  "into_spec r =
     \<lparr>ws_id = wr_id r, ws_command = wr_command r, ws_follow_up = Some (wr_follow_up r),
      ws_kind = (if wr_persistent r then Persistent else Normal),
      ws_timeout = map_option from_secs (wr_timeout_secs r),
      ws_limit = map_option from_secs (wr_timeout_secs r)\<rparr>"

definition timeout_arg :: "args \<Rightarrow> nat option result" where
  "timeout_arg a = (case a ''timeout_secs'' of
     None \<Rightarrow> Inr None
   | Some ANull \<Rightarrow> Inr None
   | Some v \<Rightarrow> (case as_u64 v of
       Some secs \<Rightarrow> if 0 < secs then Inr (Some secs) else Inl ''timeout_secs must be a positive whole number.''
     | None \<Rightarrow> Inl ''timeout_secs must be a positive whole number.''))"

definition parse_watch_args :: "args \<Rightarrow> watch_request result" where
  "parse_watch_args a =
     bind_result (string_arg a ''id'') (\<lambda>i.
       if list_ex (\<lambda>c. c = ''/'' \<or> is_ws c) (chars_of i)
       then Inl (''Watch id '' @ quoted i @ '' must not contain spaces or slashes.'')
       else bind_result (string_arg a ''command'') (\<lambda>command.
         bind_result (string_arg a ''follow_up'') (\<lambda>follow_up.
         bind_result (bool_arg a ''persistent'') (\<lambda>persistent.
         bind_result (timeout_arg a) (\<lambda>timeout_secs.
           Inr \<lparr>wr_id = watch_id i, wr_command = command, wr_follow_up = follow_up,
                wr_persistent = persistent, wr_timeout_secs = timeout_secs\<rparr>)))))"

definition queued_message :: "string \<Rightarrow> string" where
  "queued_message i = ''Watch `'' @ i @ ''` is queued. Its report will arrive in the inbox when the command ends.''"

definition already_queued_message :: "string \<Rightarrow> string" where
  "already_queued_message i = ''watch `'' @ i @ ''` is already queued''"

definition watch_in_use_message :: "string \<Rightarrow> string" where
  "watch_in_use_message i = ''a watch named `'' @ i @ ''` is already running''"

definition start_failure_report :: "string \<Rightarrow> string \<Rightarrow> string \<Rightarrow> report" where
  "start_failure_report i err at =
     \<lparr>rp_worker = i, rp_at = at, rp_status = WATCH_STATUS,
      rp_text = ''Watch `'' @ i @ ''` did not start: '' @ err @ ''.''\<rparr>"

record queued_plan =
  qp_start :: "watch_spec list"
  qp_rejected :: "report list"

fun plan_loop :: "string \<Rightarrow> watch_request list \<Rightarrow> string list \<Rightarrow> queued_plan \<Rightarrow> queued_plan" where
  "plan_loop at [] taken p = p"
| "plan_loop at (r # rs) taken p =
     (if wr_id r \<in> set taken
      then plan_loop at rs taken
             (p\<lparr>qp_rejected := qp_rejected p @ [start_failure_report (wr_id r) (watch_in_use_message (wr_id r)) at]\<rparr>)
      else plan_loop at rs (taken @ [wr_id r]) (p\<lparr>qp_start := qp_start p @ [into_spec r]\<rparr>))"

definition plan_queued :: "watch_request list \<Rightarrow> string list \<Rightarrow> string \<Rightarrow> queued_plan" where
  "plan_queued requests used at = plan_loop at requests used \<lparr>qp_start = [], qp_rejected = []\<rparr>"

subsection \<open>What a tail keeps\<close>

lemma next_boundary_ge: "start \<le> next_boundary line start"
  by (induction line start rule: next_boundary.induct) (subst next_boundary.simps, auto)

lemma next_boundary_boundary: "start \<le> length line \<Longrightarrow> is_char_boundary line (next_boundary line start)"
proof (induction line start rule: next_boundary.induct)
  case (1 line start)
  then show ?case by (subst next_boundary.simps) (auto simp: is_char_boundary_def)
qed

lemma next_boundary_least:
  "start \<le> m \<Longrightarrow> m \<le> length line \<Longrightarrow> is_char_boundary line m \<Longrightarrow> next_boundary line start \<le> m"
proof (induction line start rule: next_boundary.induct)
  case (1 line start)
  then show ?case by (subst next_boundary.simps) (cases "start = m", auto)
qed

lemma clip_end_suffix: "suffix (clip_end line n) line"
  by (simp add: clip_end_def suffix_drop)

lemma length_clip_end: "length (clip_end line n) \<le> n"
  using next_boundary_ge [of "length line - n" line] by (simp add: clip_end_def)

text \<open>The longest end of a list that satisfies \<open>P\<close>.\<close>

fun fitting_end :: "('a list \<Rightarrow> bool) \<Rightarrow> 'a list \<Rightarrow> 'a list" where
  "fitting_end P [] = []"
| "fitting_end P (x # xs) = (if P (x # xs) then x # xs else fitting_end P xs)"

lemma fitting_end_suffix: "suffix (fitting_end P xs) xs"
  by (induction xs) (auto simp: suffix_ConsI)

lemma fitting_end_P: "P [] \<Longrightarrow> P (fitting_end P xs)"
  by (induction xs) auto

lemma fitting_end_longest: "suffix ys xs \<Longrightarrow> P ys \<Longrightarrow> length ys \<le> length (fitting_end P xs)"
proof (induction xs)
  case (Cons x xs)
  then show ?case using suffix_length_le [OF Cons.prems(1)] by (auto simp: suffix_Cons)
qed simp

lemma fitting_end_snoc:
  assumes "\<And>xs y. P (xs @ [y]) \<Longrightarrow> P xs"
  shows "fitting_end P (fitting_end P xs @ [y]) = fitting_end P (xs @ [y])"
proof (induction xs)
  case (Cons x xs)
  show ?case
  proof (cases "P (x # xs)")
    case False
    then have "\<not> P ((x # xs) @ [y])" using assms by blast
    then show ?thesis using False Cons by simp
  qed simp
qed simp

definition fits :: "nat \<Rightarrow> nat \<Rightarrow> string list \<Rightarrow> bool" where
  "fits max_lines max_bytes ls \<longleftrightarrow> length ls \<le> max_lines \<and> length (concat ls) \<le> max_bytes"

lemma drop_front_fields:
  "tl_max_lines (drop_front t) = tl_max_lines t" "tl_max_bytes (drop_front t) = tl_max_bytes t"
  by (induction t rule: drop_front.induct; subst drop_front.simps; simp split: list.split)+

lemma drop_front_lines:
  "tl_bytes t = length (concat (tl_lines t)) \<Longrightarrow>
     tl_lines (drop_front t) = fitting_end (fits (tl_max_lines t) (tl_max_bytes t)) (tl_lines t) \<and>
     tl_bytes (drop_front t) = length (concat (tl_lines (drop_front t))) \<and>
     (tl_truncated (drop_front t) \<longleftrightarrow>
        tl_truncated t \<or> length (tl_lines (drop_front t)) < length (tl_lines t))"
proof (induction t rule: drop_front.induct)
  case (1 t)
  show ?case
  proof (cases "tl_lines t")
    case Nil
    then show ?thesis using 1(2) by (subst (1 2 3 4 5) drop_front.simps) simp
  next
    case (Cons x xs)
    show ?thesis
    proof (cases "fits (tl_max_lines t) (tl_max_bytes t) (x # xs)")
      case True
      then have "drop_front t = t" using 1(2) Cons by (subst drop_front.simps) (auto simp: fits_def)
      then show ?thesis using 1(2) True Cons by simp
    next
      case False
      define u where "u = t\<lparr>tl_lines := xs, tl_bytes := tl_bytes t - length x, tl_truncated := True\<rparr>"
      have c: "tl_max_lines t < length (tl_lines t) \<or> tl_max_bytes t < tl_bytes t"
        using False Cons 1(2) by (auto simp: fits_def)
      then have e: "drop_front t = drop_front u"
        using Cons by (subst drop_front.simps) (simp add: u_def)
      have "tl_bytes u = length (concat (tl_lines u))" using 1(2) Cons by (simp add: u_def)
      note IH = 1(1) [OF c Cons, folded u_def, OF this]
      have "length (tl_lines (drop_front u)) \<le> length xs"
        using IH fitting_end_suffix [of _ xs] by (simp add: u_def suffix_length_le)
      then show ?thesis using IH False Cons by (simp add: e u_def)
    qed
  qed
qed

lemma fits_butlast: "fits a b (xs @ [y]) \<Longrightarrow> fits a b xs"
  by (simp add: fits_def)

lemma push_line_state:
  fixes t :: tail and l :: string
  assumes "tl_bytes t = length (concat (tl_lines t))"
  defines "kept \<equiv> clip_end l (tl_max_bytes t)"
  shows "tl_max_lines (push_line t l) = tl_max_lines t" "tl_max_bytes (push_line t l) = tl_max_bytes t"
    and "tl_lines (push_line t l) = fitting_end (fits (tl_max_lines t) (tl_max_bytes t)) (tl_lines t @ [kept])"
    and "tl_bytes (push_line t l) = length (concat (tl_lines (push_line t l)))"
    and "tl_truncated (push_line t l) \<longleftrightarrow>
      tl_truncated t \<or> kept \<noteq> l \<or> length (tl_lines (push_line t l)) \<le> length (tl_lines t)"
proof -
  define u where "u = t\<lparr>tl_truncated := (tl_truncated t \<or> length kept < length l),
    tl_bytes := tl_bytes t + length kept, tl_lines := tl_lines t @ [kept]\<rparr>"
  have p: "push_line t l = drop_front u" by (simp add: push_line_def u_def kept_def Let_def)
  have "tl_bytes u = length (concat (tl_lines u))" using assms(1) by (simp add: u_def)
  note d = drop_front_lines [OF this]
  have "length kept < length l \<longleftrightarrow> kept \<noteq> l"
    using clip_end_suffix [of l "tl_max_bytes t"] by (auto simp: kept_def[symmetric] suffix_def)
  moreover have "tl_lines u = tl_lines t @ [kept]" "tl_max_lines u = tl_max_lines t" "tl_max_bytes u = tl_max_bytes t"
    "tl_truncated u \<longleftrightarrow> tl_truncated t \<or> length kept < length l"
    by (simp_all add: u_def)
  ultimately show "tl_max_lines (push_line t l) = tl_max_lines t" "tl_max_bytes (push_line t l) = tl_max_bytes t"
    "tl_lines (push_line t l) = fitting_end (fits (tl_max_lines t) (tl_max_bytes t)) (tl_lines t @ [kept])"
    "tl_bytes (push_line t l) = length (concat (tl_lines (push_line t l)))"
    "tl_truncated (push_line t l) \<longleftrightarrow>
      tl_truncated t \<or> kept \<noteq> l \<or> length (tl_lines (push_line t l)) \<le> length (tl_lines t)"
    using d by (auto simp: p drop_front_fields)
qed

lemma kept_all:
  assumes "suffix L' (L @ [k])" "length L \<le> length ls"
  shows "L \<noteq> ls \<or> k \<noteq> l \<or> length L' \<le> length L \<longleftrightarrow> L' \<noteq> ls @ [l]"
proof (cases "length L' \<le> length L")
  case False
  obtain zs where zs: "L @ [k] = zs @ L'" using assms(1) by (auto simp: suffix_def)
  have "length L + 1 = length zs + length L'" using arg_cong [OF zs, of length] by simp
  then have "length zs = 0" using False by linarith
  then have "L' = L @ [k]" using zs by simp
  then show ?thesis by auto
qed (use assms(2) in auto)

definition tail_of :: "nat \<Rightarrow> nat \<Rightarrow> string list \<Rightarrow> tail" where
  "tail_of max_lines max_bytes ls = foldl push_line (tail_new max_lines max_bytes) ls"

lemma tail_of_invariant:
  "tl_max_lines (tail_of a b ls) = a \<and> tl_max_bytes (tail_of a b ls) = b \<and>
   tl_bytes (tail_of a b ls) = length (concat (tl_lines (tail_of a b ls))) \<and>
   tl_lines (tail_of a b ls) = fitting_end (fits a b) (map (\<lambda>l. clip_end l b) ls) \<and>
   (tl_truncated (tail_of a b ls) \<longleftrightarrow> tl_lines (tail_of a b ls) \<noteq> ls)"
proof (induction ls rule: rev_induct)
  case Nil
  then show ?case by (simp add: tail_of_def tail_new_def)
next
  case (snoc l ls)
  define t where "t = tail_of a b ls"
  define L where "L = tl_lines t"
  define L' where "L' = tl_lines (push_line t l)"
  have IH: "tl_max_lines t = a" "tl_max_bytes t = b" "tl_bytes t = length (concat L)"
    "L = fitting_end (fits a b) (map (\<lambda>l. clip_end l b) ls)" "tl_truncated t \<longleftrightarrow> L \<noteq> ls"
    using snoc by (auto simp: t_def L_def)
  have step: "tail_of a b (ls @ [l]) = push_line t l" by (simp add: tail_of_def t_def)
  note p = push_line_state [of t l, folded L_def L'_def, OF IH(3), unfolded IH(1,2)]
  have L': "L' = fitting_end (fits a b) (map (\<lambda>l. clip_end l b) (ls @ [l]))"
    using p(3) fitting_end_snoc [of "fits a b" "map (\<lambda>l. clip_end l b) ls"] fits_butlast
    by (simp add: IH(4))
  have suf: "suffix L' (L @ [clip_end l b])" using p(3) fitting_end_suffix by metis
  have "length L \<le> length ls"
    using suffix_length_le [OF fitting_end_suffix, of "fits a b" "map (\<lambda>l. clip_end l b) ls"] by (simp add: IH(4))
  then have "tl_truncated (push_line t l) \<longleftrightarrow> L' \<noteq> ls @ [l]"
    using p(5) IH(5) kept_all [OF suf] by simp
  then show ?case using p L' by (simp add: step L'_def)
qed

text \<open>The tail of a watch's output is, after any lines were pushed, the longest end of those
  lines (each cut at its front to whole characters within the byte limit) that has at most the
  allowed number of lines and bytes; and it is marked truncated exactly when it differs from the
  lines pushed, so a line was dropped or cut.\<close>

theorem tail_keeps_longest_end:
  "let t = foldl push_line (tail_new max_lines max_bytes) ls
   in tl_lines t = fitting_end (fits max_lines max_bytes) (map (\<lambda>l. clip_end l max_bytes) ls) \<and>
      length (tl_lines t) \<le> max_lines \<and> length (concat (tl_lines t)) \<le> max_bytes \<and>
      tl_truncated t = (tl_lines t \<noteq> ls)"
  using tail_of_invariant [of max_lines max_bytes ls]
    fitting_end_P [of "fits max_lines max_bytes" "map (\<lambda>l. clip_end l max_bytes) ls"]
  by (simp add: Let_def tail_of_def fits_def)

subsection \<open>Which queued requests start\<close>

lemma plan_loop_ids:
  assumes "distinct (map ws_id (qp_start p))"
    and "set taken = used \<union> set (map ws_id (qp_start p))" and "used \<inter> set (map ws_id (qp_start p)) = {}"
  shows "distinct (map ws_id (qp_start (plan_loop at rs taken p)))"
    and "used \<inter> set (map ws_id (qp_start (plan_loop at rs taken p))) = {}"
    and "used \<union> set (map ws_id (qp_start (plan_loop at rs taken p))) = set taken \<union> set (map wr_id rs)"
    and "length (qp_start (plan_loop at rs taken p)) + length (qp_rejected (plan_loop at rs taken p)) =
      length (qp_start p) + length (qp_rejected p) + length rs"
  using assms by (induction at rs taken p rule: plan_loop.induct) (auto simp: into_spec_def)

text \<open>The queued watch requests that are started have pairwise different ids, none of them the id
  of a watch that is already running; together the running and the started watches have exactly the
  ids that were running or asked for; and every request is either started or answered with a
  rejection.\<close>

theorem plan_queued_no_duplicates:
  "let p = plan_queued rs used at; started = map ws_id (qp_start p)
   in distinct started \<and> set used \<inter> set started = {} \<and>
      set used \<union> set started = set used \<union> set (map wr_id rs) \<and>
      length (qp_start p) + length (qp_rejected p) = length rs"
  using plan_loop_ids [of "\<lparr>qp_start = [], qp_rejected = []\<rparr>" used "set used" at rs]
  by (simp add: plan_queued_def Let_def)

end
