(* ===== verification/Wrap.thy ===== *)
theory Wrap
  imports Rust_Str
begin

section \<open>Wrapping text to a width\<close>

text \<open>
  \<open>wrap\<close> of \<open>crates/core/src/chat_help.rs\<close>, which the help, the status of a run and other screens
  use. The displayed width of a string (\<open>w\<close>) and of a character (\<open>cw\<close>) come from the
  \<open>unicode-width\<close> crate and are parameters; the lemmas that bound widths assume that text is
  at most as wide as its parts together.
\<close>

fun pieces_from :: "(string \<Rightarrow> nat) \<Rightarrow> (string \<Rightarrow> nat) \<Rightarrow> nat \<Rightarrow> string \<Rightarrow> string list \<Rightarrow> string list" where
  "pieces_from w cw width piece [] = [piece]"
| "pieces_from w cw width piece (c # cs) =
     (if piece \<noteq> [] \<and> width < w piece + cw c then piece # pieces_from w cw width c cs
      else pieces_from w cw width (piece @ c) cs)"

definition pieces :: "(string \<Rightarrow> nat) \<Rightarrow> (string \<Rightarrow> nat) \<Rightarrow> string \<Rightarrow> nat \<Rightarrow> string list" where
  "pieces w cw word width = pieces_from w cw width [] (chars_of word)"

fun wrap_words :: "(string \<Rightarrow> nat) \<Rightarrow> nat \<Rightarrow> string \<Rightarrow> string list \<Rightarrow> string list" where
  "wrap_words w width line [] = [line]"
| "wrap_words w width line (x # xs) =
     (if line \<noteq> [] \<and> width < w line + 1 + w x then line # wrap_words w width x xs
      else wrap_words w width ((if line \<noteq> [] then line @ '' '' else []) @ x) xs)"

definition wrap :: "(string \<Rightarrow> nat) \<Rightarrow> (string \<Rightarrow> nat) \<Rightarrow> string \<Rightarrow> nat \<Rightarrow> string list" where
  "wrap w cw s width =
     (let width = max width 1
      in wrap_words w width [] (concat (map (\<lambda>x. pieces w cw x width) (split_whitespace s))))"

lemma concat_pieces: "concat (pieces w cw word width) = word"
proof -
  have "concat (pieces_from w cw width piece cs) = piece @ concat cs" for piece cs
    by (induction cs arbitrary: piece) auto
  then show ?thesis by (simp add: pieces_def)
qed

lemma wrap_words_text:
  "filter (\<lambda>c. c \<noteq> CHR '' '') (concat (wrap_words w width line xs)) = filter (\<lambda>c. c \<noteq> CHR '' '') (line @ concat xs)"
  by (induction w width line xs rule: wrap_words.induct) auto

text \<open>A piece or a line is within the width unless it is one character that alone exceeds it.\<close>

definition narrow :: "(string \<Rightarrow> nat) \<Rightarrow> nat \<Rightarrow> string list \<Rightarrow> string \<Rightarrow> bool" where
  "narrow w width chars s \<longleftrightarrow> s = [] \<or> w s \<le> width \<or> s \<in> set chars"

lemma pieces_from_narrow:
  assumes "\<And>a c. w (a @ c) \<le> w a + cw c" and "set cs \<subseteq> set chars" and "narrow w width chars piece"
  shows "list_all (narrow w width chars) (pieces_from w cw width piece cs)"
  using assms(2,3)
proof (induction cs arbitrary: piece)
  case (Cons c cs)
  show ?case
  proof (cases "piece \<noteq> [] \<and> width < w piece + cw c")
    case True
    have "narrow w width chars c" using Cons.prems(1) by (simp add: narrow_def)
    then show ?thesis using True Cons.IH [of c] Cons.prems by simp
  next
    case False
    have "narrow w width chars (piece @ c)"
    proof (cases "piece = []")
      case True
      then show ?thesis using Cons.prems(1) by (simp add: narrow_def)
    next
      case False
      then have "w (piece @ c) \<le> width" using \<open>\<not> (piece \<noteq> [] \<and> width < w piece + cw c)\<close> assms(1) [of piece c] by simp
      then show ?thesis by (simp add: narrow_def)
    qed
    then have "list_all (narrow w width chars) (pieces_from w cw width (piece @ c) cs)"
      using Cons.IH [of "piece @ c"] Cons.prems(1) by simp
    then show ?thesis using False by (auto simp del: append_is_Nil_conv)
  qed
qed simp

lemma wrap_words_narrow:
  assumes "\<And>a b. w (a @ '' '' @ b) \<le> w a + 1 + w b"
    and "list_all (narrow w width chars) xs" and "narrow w width chars line"
  shows "list_all (narrow w width chars) (wrap_words w width line xs)"
  using assms(2,3)
proof (induction xs arbitrary: line)
  case (Cons x xs)
  show ?case
  proof (cases "line \<noteq> [] \<and> width < w line + 1 + w x")
    case True
    then show ?thesis using Cons.IH [of x] Cons.prems by simp
  next
    case False
    define l where "l = (if line \<noteq> [] then line @ '' '' else []) @ x"
    have "narrow w width chars l"
    proof (cases "line = []")
      case True
      then show ?thesis using Cons.prems(1) by (simp add: l_def)
    next
      case nonempty: False
      then have "w l \<le> width" using False assms(1) [of line x] by (simp add: l_def)
      then show ?thesis by (simp add: narrow_def)
    qed
    then have "list_all (narrow w width chars) (wrap_words w width l xs)"
      using Cons.IH [of l] Cons.prems(1) by simp
    then show ?thesis using False by (simp only: wrap_words.simps if_False l_def)
  qed
qed simp

lemma wrap_space_free: "x \<in> set (split_whitespace s) \<Longrightarrow> CHR '' '' \<notin> set x"
proof -
  have ws: "is_ws '' ''" by code_simp
  have "ws_words acc chs = r \<Longrightarrow> list_all (\<lambda>c. \<not> is_ws c) acc \<Longrightarrow> list_all (list_all (\<lambda>c. \<not> is_ws c)) r" for acc chs r
    by (induction acc chs arbitrary: r rule: ws_words.induct) (auto split: if_splits)
  note no_ws = this [of "[]" "chars_of s", OF refl]
  assume "x \<in> set (split_whitespace s)"
  then obtain cs where cs: "cs \<in> set (ws_words [] (chars_of s))" "x = concat cs"
    by (auto simp: split_whitespace_def)
  have sub: "set (concat (ws_words acc chs)) \<subseteq> set acc \<union> set chs" for acc chs
    by (induction acc chs rule: ws_words.induct) auto
  show ?thesis
  proof
    assume "CHR '' '' \<in> set x"
    then obtain ch where ch: "ch \<in> set cs" "CHR '' '' \<in> set ch" using cs by auto
    then have "ch \<in> set (chars_of s)" using sub [of "[]" "chars_of s"] cs(1) by auto
    then have "ch = '' ''" using ch(2) by (rule chars_of_ascii) simp
    then show False using ws no_ws cs(1) ch(1) by (auto simp: list_all_iff)
  qed
qed

lemma wrap_facts:
  assumes "\<And>a c. w (a @ c) \<le> w a + cw c" and "\<And>a b. w (a @ '' '' @ b) \<le> w a + 1 + w b"
  shows "filter (\<lambda>c. c \<noteq> CHR '' '') (concat (wrap w cw s width)) = concat (split_whitespace s)"
    and "\<forall>line \<in> set (wrap w cw s width). w line \<le> max width 1 \<or> line = [] \<or> line \<in> set (concat (map chars_of (split_whitespace s)))"
proof -
  let ?ps = "concat (map (\<lambda>x. pieces w cw x (max width 1)) (split_whitespace s))"
  have "concat (concat (map (\<lambda>x. pieces w cw x n) xs)) = concat xs" for n xs
    by (induction xs) (simp_all add: concat_pieces)
  then have "concat ?ps = concat (split_whitespace s)" .
  moreover have "filter (\<lambda>c. c \<noteq> CHR '' '') (concat (split_whitespace s)) = concat (split_whitespace s)"
    using wrap_space_free by (fastforce intro: filter_True)
  ultimately show "filter (\<lambda>c. c \<noteq> CHR '' '') (concat (wrap w cw s width)) = concat (split_whitespace s)"
    by (simp add: wrap_def Let_def wrap_words_text)
  let ?chars = "concat (map chars_of (split_whitespace s))"
  have "list_all (narrow w (max width 1) ?chars) ?ps"
  proof -
    have "list_all (narrow w (max width 1) ?chars) (pieces w cw x (max width 1))" if "x \<in> set (split_whitespace s)" for x
      unfolding pieces_def using that by (intro pieces_from_narrow assms(1)) (auto simp: narrow_def)
    then show ?thesis by (auto simp: list_all_iff)
  qed
  then have "list_all (narrow w (max width 1) ?chars) (wrap w cw s width)"
    unfolding wrap_def Let_def by (intro wrap_words_narrow assms(2)) (auto simp: narrow_def)
  then show "\<forall>line \<in> set (wrap w cw s width). w line \<le> max width 1 \<or> line = [] \<or> line \<in> set ?chars"
    by (auto simp: list_all_iff narrow_def)
qed

text \<open>Wrapping keeps the text: apart from blanks the wrapped lines hold exactly the characters of
  the words of the text, in order; and no line is wider than the (positive) width unless it is a
  single character of the text that is wider alone.\<close>

theorem wrap_keeps_text_in_width:
  assumes "\<And>a c. w (a @ c) \<le> w a + cw c" and "\<And>a b. w (a @ '' '' @ b) \<le> w a + 1 + w b"
  shows "filter (\<lambda>c. c \<noteq> CHR '' '') (concat (wrap w cw s width)) = concat (split_whitespace s) \<and>
    (\<forall>line \<in> set (wrap w cw s width). w line \<le> max width 1 \<or> line = [] \<or> line \<in> set (concat (map chars_of (split_whitespace s))))"
  using wrap_facts [OF assms] by blast

theorem wrap_keeps_text_in_width_witness:
  "filter (\<lambda>c. c \<noteq> CHR '' '') (concat (wrap length length ''ab c'' 2)) = concat (split_whitespace ''ab c'')"
  using conjunct1 [OF wrap_keeps_text_in_width [of length length "''ab c''" 2]] by simp

end
