(* ===== verification/Send_It.thy ===== *)
theory Send_It
  imports Usd Watch Wrap
begin

section \<open>Approved runs: plans and progress\<close>

text \<open>
  \<open>/send-it\<close> lets the person approve a plan of steps once; the program then drives the model
  through the steps on its own (\<open>crates/core/src/chat_send_it.rs\<close>, \<open>chat_send_it/drive.rs\<close>).
  Each step has an exit criterion the program measures, the run has a turn cap and a cost cap, and
  it goes on only while the stored plan still has the hash that was approved. The hash
  (\<open>plan_hash\<close>: SHA-256 over the serialised plan) is the parameter \<open>h\<close> of the definitions.
\<close>

subsection \<open>Plans\<close>

datatype criterion = WorkerDone string | WatchPasses string | CheckPasses string | Judge string

datatype action = ASpawn harness_id | AReply | AClose | AWatch | AMerge | APush | APr | ALinearWrite | APaidRun usd

datatype grant = TurnCap nat | CostCap usd

record step =
  st_task :: string
  st_criterion :: criterion

record limits =
  li_max_turns :: nat
  li_max_usd :: usd

record run_plan =
  pl_goal :: string
  pl_steps :: "step list"
  pl_allowed :: "action list"
  pl_grants :: "grant list"
  pl_limits :: limits
  pl_judge_rounds :: nat

text \<open>The form a plan is stored and sent in; the deserialisation itself is \<open>serde\<close>'s.\<close>

record raw_step =
  rs_task :: string
  rs_criterion :: "criterion option"

record raw_plan =
  rw_goal :: string
  rw_steps :: "raw_step list"
  rw_allowed :: "action list"
  rw_grants :: "grant list"
  rw_turns :: "nat option"
  rw_usd :: "usd option"
  rw_judge_rounds :: "nat option"

definition DEFAULT_JUDGE_ROUNDS :: nat where
  "DEFAULT_JUDGE_ROUNDS = 2"

definition raw_of_plan :: "run_plan \<Rightarrow> raw_plan" where
  "raw_of_plan p =
     \<lparr>rw_goal = pl_goal p,
      rw_steps = map (\<lambda>s. \<lparr>rs_task = st_task s, rs_criterion = Some (st_criterion s)\<rparr>) (pl_steps p),
      rw_allowed = pl_allowed p, rw_grants = pl_grants p,
      rw_turns = Some (li_max_turns (pl_limits p)), rw_usd = Some (li_max_usd (pl_limits p)),
      rw_judge_rounds = Some (pl_judge_rounds p)\<rparr>"

definition parse_step :: "nat \<Rightarrow> raw_step \<Rightarrow> step result" where
  "parse_step number s =
     (let task = trim (rs_task s)
      in if task = [] then Inl (''Step '' @ dec number @ '' is empty. Say what the step does.'')
         else (case rs_criterion s of
             None \<Rightarrow> Inl (''Step '' @ dec number @ '' has no exit criterion. Give each step a check ralph can measure.'')
           | Some c \<Rightarrow> Inr \<lparr>st_task = task, st_criterion = c\<rparr>))"

fun parse_steps :: "nat \<Rightarrow> raw_step list \<Rightarrow> step list result" where
  "parse_steps number [] = Inr []"
| "parse_steps number (s # ss) =
     bind_result (parse_step number s) (\<lambda>t. bind_result (parse_steps (number + 1) ss) (\<lambda>ts. Inr (t # ts)))"

text \<open>\<open>parse_run\<close> on what \<open>RawPlan::deserialize\<close> returned.\<close>

definition parse_run :: "raw_plan result \<Rightarrow> limits \<Rightarrow> run_plan result" where
  "parse_run deserialized defaults = (case deserialized of
     Inl err \<Rightarrow> Inl (''Run plan is malformed: '' @ err @ ''.'')
   | Inr raw \<Rightarrow>
       let goal = trim (rw_goal raw)
       in if goal = [] then Inl ''Run plan has no goal. Say what the run delivers.''
          else if rw_steps raw = [] then Inl ''Run plan has no steps. List the steps in order.''
          else bind_result (parse_steps 1 (rw_steps raw)) (\<lambda>steps.
            let lim = \<lparr>li_max_turns = case_option (li_max_turns defaults) id (rw_turns raw),
                       li_max_usd = case_option (li_max_usd defaults) id (rw_usd raw)\<rparr>;
                rounds = case_option DEFAULT_JUDGE_ROUNDS id (rw_judge_rounds raw)
            in if li_max_turns lim = 0 \<or> rounds = 0 \<or> li_max_usd lim = NaN \<or> usd_ge (Fin 0) (li_max_usd lim)
               then Inl ''Run plan caps must be positive.''
               else Inr \<lparr>pl_goal = goal, pl_steps = steps, pl_allowed = rw_allowed raw,
                      pl_grants = rw_grants raw, pl_limits = lim, pl_judge_rounds = rounds\<rparr>))"

fun criterion_label :: "criterion \<Rightarrow> string" where
  "criterion_label (WorkerDone worker) = ''worker '' @ worker @ '' reports done''"
| "criterion_label (WatchPasses command) = ''watch `'' @ command @ ''` exits 0''"
| "criterion_label (CheckPasses command) = ''`'' @ command @ ''` exits 0''"
| "criterion_label (Judge question) = ''judged: '' @ question"

fun action_label :: "action \<Rightarrow> string" where
  "action_label (ASpawn harness) = ''spawn '' @ harness_name harness @ '' workers''"
| "action_label AReply = ''reply to workers''"
| "action_label AClose = ''close workers''"
| "action_label AWatch = ''start watches''"
| "action_label AMerge = ''merge''"
| "action_label APush = ''push''"
| "action_label APr = ''open PRs''"
| "action_label ALinearWrite = ''write to Linear''"
| "action_label (APaidRun max_usd) = ''paid runs up to $'' @ usd2 max_usd"

fun grant_label :: "grant \<Rightarrow> string" where
  "grant_label (TurnCap turns) = ''raise the turn cap to '' @ dec turns"
| "grant_label (CostCap usd) = ''raise the cost cap to $'' @ usd2 usd"

definition step_lines :: "nat \<Rightarrow> step \<Rightarrow> string list" where
  "step_lines index s =
     [''  '' @ dec (index + 1) @ ''. '' @ st_task s, ''     exit: '' @ criterion_label (st_criterion s)]"

definition render_run :: "run_plan \<Rightarrow> string" where
  "render_run p = join newline
     ([''Goal: '' @ pl_goal p, ''Steps:''] @
      concat (map (\<lambda>(i, s). step_lines i s) (List.enumerate 0 (pl_steps p))) @
      [if pl_allowed p = [] then ''Allowed: none''
       else ''Allowed: '' @ join '', '' (map action_label (pl_allowed p))] @
      [''Caps: '' @ dec (li_max_turns (pl_limits p)) @ '' turns, $'' @ usd2 (li_max_usd (pl_limits p)) @ '', ''
         @ dec (pl_judge_rounds p) @ '' judge rounds''] @
      [''You pre-approve:''] @
      (if pl_grants p = [] then [''  - nothing''] else []) @
      map (\<lambda>g. ''  - '' @ grant_label g) (pl_grants p))"

subsection \<open>The stored run\<close>

record stopped_at =
  sp_step :: nat
  sp_hash :: string

record run_file =
  rf_plan :: run_plan
  rf_approved :: "string option"
  rf_stopped :: "stopped_at option"

definition is_approved :: "(run_plan \<Rightarrow> string) \<Rightarrow> run_file \<Rightarrow> bool" where
  "is_approved h f \<longleftrightarrow> rf_approved f = Some (h (rf_plan f))"

definition approve :: "(run_plan \<Rightarrow> string) \<Rightarrow> run_file \<Rightarrow> string option \<Rightarrow> bool \<Rightarrow> run_file result" where
  "approve h f shown typed_at_prompt =
     (let hash = h (rf_plan f)
      in if \<not> typed_at_prompt then Inl ''/send-it go counts only when you type it at the prompt.''
         else if shown \<noteq> Some hash
           then Inl (''Plan '' @ hash @ '' is not the plan on screen. Show it with /send-it status, then type /send-it go.'')
         else Inr (f\<lparr>rf_approved := Some hash\<rparr>))"

definition stop_file :: "run_file \<Rightarrow> string \<Rightarrow> nat option \<Rightarrow> run_file option" where
  "stop_file f hash stopped =
     (if rf_approved f = Some hash
      then Some \<lparr>rf_plan = rf_plan f, rf_approved = None,
        rf_stopped = map_option (\<lambda>n. \<lparr>sp_step = n, sp_hash = hash\<rparr>) stopped\<rparr>
      else None)"

definition resume_step :: "(run_plan \<Rightarrow> string) \<Rightarrow> run_file \<Rightarrow> nat option" where
  "resume_step h f = (case rf_stopped f of
     Some s \<Rightarrow> if sp_hash s = h (rf_plan f) \<and> 1 \<le> sp_step s \<and> sp_step s \<le> length (pl_steps (rf_plan f))
       then Some (sp_step s) else None
   | None \<Rightarrow> None)"

definition leading :: "string \<Rightarrow> string" where
  "leading line = take (length line - length (trim_start line)) line"

text \<open>The \<open>map\<close> of \<open>hang_wrapped\<close>: the first part after its marker, the others under it.\<close>

fun hang_parts :: "string \<Rightarrow> string \<Rightarrow> string list \<Rightarrow> string list" where
  "hang_parts first pad [] = []"
| "hang_parts first pad (part # parts) = (first @ part) # map (\<lambda>q. pad @ q) parts"

definition hang_wrapped :: "(string \<Rightarrow> nat) \<Rightarrow> (string \<Rightarrow> nat) \<Rightarrow> string \<Rightarrow> nat \<Rightarrow> string" where
  "hang_wrapped w cw line width = (case split_once (CHR '' '') (trim_start line) of
     Some (marker, s) \<Rightarrow>
       if width < w line
       then (let hang = w (leading line) + w marker + 1
             in join newline (hang_parts (leading line @ marker @ '' '') (replicate hang (CHR '' '')) (wrap w cw s (width - hang))))
       else line
   | None \<Rightarrow> line)"

definition run_state :: "(run_plan \<Rightarrow> string) \<Rightarrow> run_file \<Rightarrow> string" where
  "run_state h f =
     (let hash = h (rf_plan f)
      in if is_approved h f then ''Plan '' @ hash @ '': approved.''
         else (case resume_step h f of
           Some s \<Rightarrow> ''Plan '' @ hash @ '': stopped at step '' @ dec s @ ''/'' @ dec (length (pl_steps (rf_plan f)))
             @ ''. Type /send-it go to resume from step '' @ dec s @ ''.''
         | None \<Rightarrow> ''Plan '' @ hash @ '': not approved. Type /send-it go to approve this plan.''))"

definition render_status ::
  "(run_plan \<Rightarrow> string) \<Rightarrow> (string \<Rightarrow> nat) \<Rightarrow> (string \<Rightarrow> nat) \<Rightarrow> run_file \<Rightarrow> nat \<Rightarrow> string" where
  "render_status h w cw f width =
     join newline (map (\<lambda>l. hang_wrapped w cw l width) (lines (render_run (rf_plan f) @ newline @ run_state h f)))"

definition propose_refusal :: "(run_plan \<Rightarrow> string) \<Rightarrow> run_file option \<Rightarrow> string option" where
  "propose_refusal h existing = (case existing of
     Some f \<Rightarrow> if is_approved h f
       then Some (''Plan '' @ h (rf_plan f) @ '' is approved and active. Stop it with /send-it off first.'')
       else None
   | None \<Rightarrow> None)"

definition propose_prompt :: "string \<Rightarrow> string" where
  "propose_prompt s = ''/send-it: restate these instructions as a run plan. Call `propose_run` once with the plan, then stop. Do not start the work: ralph shows the plan and the person approves it with /send-it go.'' @ newline @ newline @ s"

subsection \<open>The command\<close>

datatype send_it_command = CUsage | CPropose string | CEdit | CGo | CStatus | COff | CSave string "string option" | CTemplates

definition parse_send_it_args :: "string \<Rightarrow> send_it_command" where
  "parse_send_it_args a =
     (let t = trim a
      in if t = [] then CUsage
         else if t = ''edit'' then CEdit
         else if t = ''go'' then CGo
         else if t = ''status'' then CStatus
         else if t = ''off'' then COff
         else if t = ''templates'' then CTemplates
         else (case split_whitespace t of
             [a, name] \<Rightarrow> if a = ''save'' then CSave name None else CPropose t
           | [a, name, ticket] \<Rightarrow> if a = ''save'' then CSave name (Some ticket) else CPropose t
           | _ \<Rightarrow> CPropose t))"

text \<open>\<open>Command::SendIt.args\<close> of \<open>chat_help.rs\<close>.\<close>

definition send_it_args :: "string \<Rightarrow> string option" where
  "send_it_args line = (case strip_prefix ''/send-it'' line of
     None \<Rightarrow> None
   | Some a \<Rightarrow> if a = [] \<or> is_ws (hd (chars_of a)) then Some a else None)"

definition is_off :: "string \<Rightarrow> bool" where
  "is_off line \<longleftrightarrow> map_option parse_send_it_args (send_it_args (trim line)) = Some COff"

subsection \<open>Step results of judge turns\<close>

record step_result =
  sr_met :: bool
  sr_evidence :: string

definition STEP_RESULT_MAX_CHARS :: nat where
  "STEP_RESULT_MAX_CHARS = 300"

definition NO_STEP_RESULT :: string where
  "NO_STEP_RESULT = ''the judge turn made no step_result call''"

definition parse_step_result :: "args \<Rightarrow> step_result result" where
  "parse_step_result a = (case Option.bind (a ''met'') as_bool of
     None \<Rightarrow> Inl (''Missing boolean argument '' @ quoted ''met'' @ ''.'')
   | Some met \<Rightarrow> (case Option.bind (a ''evidence'') as_str of
       None \<Rightarrow> Inl (''Missing string argument '' @ quoted ''evidence'' @ ''.'')
     | Some e \<Rightarrow>
         let evidence = trim e
         in if evidence = [] then Inl ''The evidence is empty. Give the fact that decides the step.''
            else if list_ex is_control (chars_of evidence) then Inl ''The evidence must be one line.''
            else if STEP_RESULT_MAX_CHARS < length (chars_of evidence)
              then Inl (''The evidence is longer than '' @ dec STEP_RESULT_MAX_CHARS @ '' characters.'')
            else Inr \<lparr>sr_met = met, sr_evidence = evidence\<rparr>))"

subsection \<open>Progress\<close>

record run =
  rn_turns :: nat
  rn_spent_usd :: usd

record progress =
  pr_step :: nat
  pr_judge_rounds :: nat
  pr_probing :: bool

definition progress_default :: progress where
  "progress_default = \<lparr>pr_step = 0, pr_judge_rounds = 0, pr_probing = False\<rparr>"

record seen =
  se_last :: "string \<rightharpoonup> string"
  se_running :: "string list"

datatype event = Start | TurnEnded run | EReport report | Watched watch_outcome | Verdict "step_result option"

datatype stop_why = SRTurnCap | SRCostCap | SRUnmet nat | SRWorkerFlagged | SRJudgeRounds nat string
  | SRCheckFailed nat | SROff | SRPlanChanged | SRNoReply | SRNeedsYou | SRTookOver | SRRefused string

datatype next_move = Send string | Hold string | NWatch string | Check string | NJudge | NWait | Stop stop_why | NDone

definition grant_limit :: "limits \<Rightarrow> grant \<Rightarrow> limits" where
  "grant_limit l g = (case g of TurnCap n \<Rightarrow> l\<lparr>li_max_turns := n\<rparr> | CostCap u \<Rightarrow> l\<lparr>li_max_usd := u\<rparr>)"

definition granted_limits :: "run_plan \<Rightarrow> limits" where
  "granted_limits p = foldl grant_limit (pl_limits p) (pl_grants p)"

definition step_line :: "run_plan \<Rightarrow> nat \<Rightarrow> step \<Rightarrow> string" where
  "step_line p index s =
     ''[send-it '' @ dec (index + 1) @ ''/'' @ dec (length (pl_steps p)) @ ''] '' @ st_task s
       @ middle_dot @ ''exit: '' @ criterion_label (st_criterion s)"

fun wait_on :: "criterion \<Rightarrow> next_move" where
  "wait_on (WorkerDone worker) = Hold worker"
| "wait_on (WatchPasses command) = NWatch command"
| "wait_on (CheckPasses command) = Check command"
| "wait_on (Judge _) = NJudge"

definition nth_step :: "run_plan \<Rightarrow> nat \<Rightarrow> step option" where
  "nth_step p i = (if i < length (pl_steps p) then Some (pl_steps p ! i) else None)"

definition step_met :: "run_plan \<Rightarrow> progress \<Rightarrow> progress \<times> next_move" where
  "step_met p g =
     (let index = pr_step g + 1
      in case nth_step p index of
           Some s \<Rightarrow> (progress_default\<lparr>pr_step := index\<rparr>, Send (step_line p index s))
         | None \<Rightarrow> (g, NDone))"

definition verdict_evidence :: "step_result option \<Rightarrow> string" where
  "verdict_evidence r = (case r of Some x \<Rightarrow> sr_evidence x | None \<Rightarrow> NO_STEP_RESULT)"

text \<open>The arms of \<open>advance\<close>, one definition for each kind of event.\<close>

definition after_turn :: "run_plan \<Rightarrow> run \<Rightarrow> criterion \<Rightarrow> next_move" where
  "after_turn p r c =
     (let l = granted_limits p
      in if li_max_turns l \<le> rn_turns r then Stop SRTurnCap
         else if usd_ge (rn_spent_usd r) (li_max_usd l) then Stop SRCostCap
         else wait_on c)"

definition on_report :: "run_plan \<Rightarrow> progress \<Rightarrow> report \<Rightarrow> criterion \<Rightarrow> progress \<times> next_move" where
  "on_report p g r c = (case c of
     WorkerDone worker \<Rightarrow>
       if rp_worker r = worker
       then (if rp_status r = ''done'' then step_met p g else (g, Stop (SRUnmet (pr_step g + 1))))
       else (g, NWait)
   | _ \<Rightarrow> (g, NWait))"

definition on_watched :: "run_plan \<Rightarrow> progress \<Rightarrow> watch_outcome \<Rightarrow> step \<Rightarrow> progress \<times> next_move" where
  "on_watched p g w s =
     (if (case st_criterion s of WatchPasses _ \<Rightarrow> True | CheckPasses _ \<Rightarrow> True | _ \<Rightarrow> False)
      then (if w = Exited 0 then step_met p g
            else if pr_probing g then (g\<lparr>pr_probing := False\<rparr>, Send (step_line p (pr_step g) s))
            else (g, Stop (SRCheckFailed (pr_step g + 1))))
      else (g, NWait))"

definition on_verdict :: "run_plan \<Rightarrow> progress \<Rightarrow> step_result option \<Rightarrow> step \<Rightarrow> progress \<times> next_move" where
  "on_verdict p g r s = (case st_criterion s of
     Judge _ \<Rightarrow>
       if (case r of Some x \<Rightarrow> sr_met x | None \<Rightarrow> False) then step_met p g
       else let rounds = pr_judge_rounds g + (if pr_probing g then 0 else 1)
         in if pl_judge_rounds p \<le> rounds
            then (g, Stop (SRJudgeRounds (pr_step g + 1) (verdict_evidence r)))
            else (\<lparr>pr_step = pr_step g, pr_judge_rounds = rounds, pr_probing = False\<rparr>,
                  Send (step_line p (pr_step g) s @ newline @ ''judge: not met: '' @ verdict_evidence r))
   | _ \<Rightarrow> (g, NWait))"

definition advance :: "run_plan \<Rightarrow> progress \<Rightarrow> event \<Rightarrow> progress \<times> next_move" where
  "advance p g e = (case nth_step p (pr_step g) of
     None \<Rightarrow> (g, NDone)
   | Some s \<Rightarrow> (case e of
       Start \<Rightarrow> (g, Send (step_line p (pr_step g) s))
     | TurnEnded r \<Rightarrow> (g, after_turn p r (st_criterion s))
     | EReport r \<Rightarrow> on_report p g r (st_criterion s)
     | Watched w \<Rightarrow> on_watched p g w s
     | Verdict r \<Rightarrow> on_verdict p g r s))"

end
