(* ===== verification/Send_It_Drive.thy ===== *)
theory Send_It_Drive
  imports Send_It
begin

section \<open>Approved runs: driving the model\<close>

text \<open>
  One tick per ended turn (\<open>crates/core/src/chat_send_it/drive.rs\<close>) and what the chat does with
  its result (\<open>crates/ralph/src/chat/send_it.rs\<close>).
\<close>

subsection \<open>Ticks\<close>

datatype awaiting = ATurn | AVerdict | AReport string

record driving =
  dr_hash :: string
  dr_progress :: progress
  dr_run :: run
  dr_awaiting :: awaiting

record ended =
  en_file :: "run_file option"
  en_replied :: bool
  en_asked :: bool
  en_typed :: bool
  en_queued :: "string list"
  en_cost_usd :: usd
  en_step_result :: "step_result option"
  en_drained :: "report list"
  en_unread :: "report list"
  en_answered :: "string list"
  en_watched :: "watch_outcome option"
  en_refused :: "string option"

record ticked =
  ti_driving :: driving
  ti_next :: next_move
  ti_met :: "string option"

definition check_watch_id :: "nat \<Rightarrow> string" where
  "check_watch_id s = watch_id (''send-it-'' @ dec (s + 1))"

definition check_spec :: "nat \<Rightarrow> string \<Rightarrow> watch_spec" where
  "check_spec s command =
     \<lparr>ws_id = check_watch_id s, ws_command = command, ws_follow_up = None, ws_kind = Normal,
      ws_timeout = None, ws_limit = None\<rparr>"

fun awaiting_of :: "next_move \<Rightarrow> progress \<Rightarrow> awaiting" where
  "awaiting_of NJudge g = AVerdict"
| "awaiting_of (Hold worker) g = AReport worker"
| "awaiting_of (NWatch _) g = AReport (check_watch_id (pr_step g))"
| "awaiting_of (Check _) g = AReport (check_watch_id (pr_step g))"
| "awaiting_of _ g = ATurn"

definition probe :: "run_plan \<Rightarrow> progress \<Rightarrow> seen \<Rightarrow> progress \<times> next_move" where
  "probe p g seen = (case nth_step p (pr_step g) of
     None \<Rightarrow> (g, NDone)
   | Some s \<Rightarrow> (case st_criterion s of
       WorkerDone worker \<Rightarrow>
         if se_last seen worker = Some ''done'' then step_met p g
         else if se_last seen worker \<noteq> None \<or> worker \<in> set (se_running seen) then (g, Hold worker)
         else advance p g Start
     | c \<Rightarrow> (g\<lparr>pr_probing := True\<rparr>, wait_on c)))"

definition evidence_suffix :: "string option \<Rightarrow> string" where
  "evidence_suffix e = (case e of Some x \<Rightarrow> '': '' @ x | None \<Rightarrow> [])"

definition met_line :: "run_plan \<Rightarrow> nat \<Rightarrow> string option \<Rightarrow> string" where
  "met_line p s evidence =
     ''send-it: step '' @ dec (s + 1) @ ''/'' @ dec (length (pl_steps p)) @ '' met ('' @
     (case nth_step p s of Some x \<Rightarrow> criterion_label (st_criterion x) | None \<Rightarrow> []) @ '')'' @ evidence_suffix evidence"

definition run_intro :: "string \<Rightarrow> run_plan \<Rightarrow> string \<Rightarrow> string" where
  "run_intro hash p line =
     ''send-it run '' @ hash @ '' is approved. Work the current step only, and take only the allowed actions; ralph checks each exit criterion and sends the next step.''
     @ newline @ newline @ render_run p @ newline @ newline @ line"

definition introduce :: "string \<Rightarrow> run_plan \<Rightarrow> progress \<times> next_move \<Rightarrow> progress \<times> next_move" where
  "introduce hash p r = (case r of (g, Send line) \<Rightarrow> (g, Send (run_intro hash p line)) | _ \<Rightarrow> r)"

definition start_progress :: "(run_plan \<Rightarrow> string) \<Rightarrow> run_file \<Rightarrow> progress" where
  "start_progress h f =
     progress_default\<lparr>pr_step := (case resume_step h f of Some s \<Rightarrow> s - 1 | None \<Rightarrow> 0)\<rparr>"

definition first_move :: "(run_plan \<Rightarrow> string) \<Rightarrow> run_file \<Rightarrow> seen \<Rightarrow> progress \<times> next_move" where
  "first_move h f seen = (case resume_step h f of
     Some _ \<Rightarrow> probe (rf_plan f) (start_progress h f) seen
   | None \<Rightarrow> advance (rf_plan f) (start_progress h f) Start)"

definition run_default :: run where
  "run_default = \<lparr>rn_turns = 0, rn_spent_usd = Fin 0\<rparr>"

definition start_run :: "(run_plan \<Rightarrow> string) \<Rightarrow> run_file \<Rightarrow> seen \<Rightarrow> ticked option" where
  "start_run h f seen =
     (if \<not> is_approved h f then None
      else let hash = h (rf_plan f); start = start_progress h f;
               (g, n) = introduce hash (rf_plan f) (first_move h f seen)
        in Some \<lparr>ti_driving = \<lparr>dr_hash = hash, dr_progress = g, dr_run = run_default, dr_awaiting = awaiting_of n g\<rparr>,
             ti_next = n,
             ti_met = (if pr_step start < pr_step g \<or> n = NDone then Some (met_line (rf_plan f) (pr_step start) None) else None)\<rparr>)"

definition flagged :: "report \<Rightarrow> bool" where
  "flagged r \<longleftrightarrow> rp_status r = ''question'' \<or> rp_status r = ''blocked''"

definition worker_flagged :: "report list \<Rightarrow> bool" where
  "worker_flagged rs = list_ex flagged rs"

definition unanswered_flag :: "ended \<Rightarrow> run_file \<Rightarrow> bool" where
  "unanswered_flag e f \<longleftrightarrow>
     worker_flagged (en_unread e) \<or>
     list_ex (\<lambda>r. \<not> (AReply \<in> set (pl_allowed (rf_plan f)) \<and> rp_worker r \<in> set (en_answered e)))
       (filter flagged (en_drained e))"

definition stop_cause :: "(run_plan \<Rightarrow> string) \<Rightarrow> ended \<Rightarrow> run_file \<Rightarrow> string \<Rightarrow> stop_why option" where
  "stop_cause h e f hash =
     (if \<not> is_approved h f \<or> h (rf_plan f) \<noteq> hash then Some SRPlanChanged
      else if en_refused e \<noteq> None then Some (SRRefused (the (en_refused e)))
      else if \<not> en_replied e then Some SRNoReply
      else if en_typed e \<or> en_queued e \<noteq> [] then Some SRTookOver
      else if en_asked e then Some SRNeedsYou
      else if unanswered_flag e f then Some SRWorkerFlagged
      else None)"

definition admitted :: "(run_plan \<Rightarrow> string) \<Rightarrow> ended \<Rightarrow> string \<Rightarrow> stop_why + run_file" where
  "admitted h e hash = (case en_file e of
     None \<Rightarrow> Inl SROff
   | Some f \<Rightarrow>
       if list_ex is_off (en_queued e) then Inl SROff
       else (case stop_cause h e f hash of Some why \<Rightarrow> Inl why | None \<Rightarrow> Inr f))"

definition events :: "awaiting \<Rightarrow> ended \<Rightarrow> event list" where
  "events a e = (case a of
     ATurn \<Rightarrow> []
   | AVerdict \<Rightarrow> [Verdict (en_step_result e)]
   | AReport source \<Rightarrow>
       (case en_watched e of Some w \<Rightarrow> [Watched w] | None \<Rightarrow> []) @
       map EReport (filter (\<lambda>r. rp_worker r = source \<and> \<not> flagged r) (en_drained e)))"

fun fold_events :: "run_plan \<Rightarrow> progress \<Rightarrow> event list \<Rightarrow> progress \<times> next_move" where
  "fold_events p g [] = (g, NWait)"
| "fold_events p g (e # es) =
     (case advance p g e of (g', n) \<Rightarrow> if n = NWait then fold_events p g' es else (g', n))"

fun is_stop :: "next_move \<Rightarrow> bool" where
  "is_stop (Stop _) = True"
| "is_stop _ = False"

definition finish :: "driving \<Rightarrow> run \<Rightarrow> progress \<Rightarrow> next_move \<Rightarrow> string option \<Rightarrow> ticked" where
  "finish d r g n m =
     \<lparr>ti_driving = \<lparr>dr_hash = dr_hash d, dr_progress = g, dr_run = r, dr_awaiting = awaiting_of n g\<rparr>,
      ti_next = n, ti_met = m\<rparr>"

definition counted :: "driving \<Rightarrow> ended \<Rightarrow> run" where
  "counted d e =
     \<lparr>rn_turns = rn_turns (dr_run d) + 1, rn_spent_usd = usd_add (rn_spent_usd (dr_run d)) (en_cost_usd e)\<rparr>"

text \<open>A settled report costs no turn: the program acted on it without asking the model.\<close>

definition charged :: "driving \<Rightarrow> ended \<Rightarrow> next_move \<Rightarrow> run" where
  "charged d e decided =
     (case dr_awaiting d of
        AReport _ \<Rightarrow> if decided \<noteq> NWait then (counted d e)\<lparr>rn_turns := rn_turns (dr_run d)\<rparr> else counted d e
      | _ \<Rightarrow> counted d e)"

definition tick_met :: "run_plan \<Rightarrow> driving \<Rightarrow> ended \<Rightarrow> progress \<Rightarrow> next_move \<Rightarrow> string option" where
  "tick_met p d e g decided =
     (if pr_step (dr_progress d) < pr_step g \<or> decided = NDone
      then Some (met_line p (pr_step (dr_progress d))
        (if dr_awaiting d = AVerdict then map_option sr_evidence (en_step_result e) else None))
      else None)"

definition after_caps :: "run_plan \<Rightarrow> progress \<Rightarrow> run \<Rightarrow> next_move \<Rightarrow> next_move" where
  "after_caps p g r decided =
     (let n = snd (advance p g (TurnEnded r))
      in if is_stop n then n else if decided = NWait then n else decided)"

definition tick :: "(run_plan \<Rightarrow> string) \<Rightarrow> driving \<Rightarrow> ended \<Rightarrow> ticked" where
  "tick h d e = (case admitted h e (dr_hash d) of
     Inl reason \<Rightarrow> finish d (counted d e) (dr_progress d) (Stop reason) None
   | Inr f \<Rightarrow>
       let p = rf_plan f;
           (g, decided) = fold_events p (dr_progress d) (events (dr_awaiting d) e);
           r = charged d e decided;
           m = tick_met p d e g decided
       in if decided = NDone \<or> is_stop decided then finish d r g decided m
          else finish d r g (after_caps p g r decided) m)"

subsection \<open>Notices\<close>

definition RESTART_HINT :: string where
  "RESTART_HINT = ''To run it again, show the plan with /send-it status, then type /send-it go.''"

definition trim_dots :: "string \<Rightarrow> string" where
  "trim_dots s = rev (dropWhile (\<lambda>c. c = CHR ''.'') (rev s))"

fun stop_text :: "stop_why \<Rightarrow> run \<Rightarrow> string" where
  "stop_text SRTurnCap r = ''turn cap reached after '' @ dec (rn_turns r) @ '' turns''"
| "stop_text SRCostCap r = ''cost cap reached at $'' @ usd2 (rn_spent_usd r)"
| "stop_text (SRUnmet s) r = ''step '' @ dec s @ '' missed its exit criterion''"
| "stop_text SRWorkerFlagged r = ''a worker asked a question or is blocked''"
| "stop_text (SRJudgeRounds s evidence) r =
     ''step '' @ dec s @ '' was still not met after the last judge round: '' @ trim_dots evidence"
| "stop_text (SRCheckFailed s) r = ''step '' @ dec s @ '' check did not exit 0''"
| "stop_text SROff r = ''send-it off: the run stopped and its plan is deleted.''"
| "stop_text SRPlanChanged r = ''the run plan changed or lost its approval''"
| "stop_text SRNoReply r = ''a turn ended without a reply''"
| "stop_text SRNeedsYou r = ''a schedule waits for your approval''"
| "stop_text SRTookOver r = ''you took over''"
| "stop_text (SRRefused tool) r = ''the plan does not allow `'' @ tool @ ''`''"

definition stop_notice :: "(run_plan \<Rightarrow> string) \<Rightarrow> stop_why \<Rightarrow> run \<Rightarrow> run_file option \<Rightarrow> string" where
  "stop_notice h why r kept =
     (if why = SROff then stop_text SROff r
      else (case Option.bind kept (\<lambda>f. map_option (\<lambda>s. (s, length (pl_steps (rf_plan f)))) (resume_step h f)) of
        Some (s, steps) \<Rightarrow> ''send-it stopped at step '' @ dec s @ ''/'' @ dec steps @ '': '' @ stop_text why r
          @ ''. The plan is kept. Fix the cause, show it with /send-it status, then type /send-it go to resume from step ''
          @ dec s @ ''. /send-it off deletes it.''
      | None \<Rightarrow> ''send-it stopped: '' @ stop_text why r @ ''. '' @ RESTART_HINT))"

definition judge_prompt :: "run_plan \<Rightarrow> progress \<Rightarrow> string option" where
  "judge_prompt p g = (case nth_step p (pr_step g) of
     None \<Rightarrow> None
   | Some s \<Rightarrow> (case st_criterion s of
       Judge question \<Rightarrow> Some (step_line p (pr_step g) s @ newline @ ''/send-it judge: '' @ question @ newline
         @ ''Answer from what this chat already shows and take no other actions. Call `step_result` once with `met` and one line of `evidence`, then reply in one short line.'')
     | _ \<Rightarrow> None))"

definition done_notice :: "run_plan \<Rightarrow> run \<Rightarrow> string" where
  "done_notice p r =
     (let n = dec (length (pl_steps p))
      in ''send-it done: '' @ n @ ''/'' @ n @ '' steps in '' @ dec (rn_turns r) @ '' turns, $'' @ usd2 (rn_spent_usd r)
         @ ''. '' @ RESTART_HINT)"

definition running_line :: "run_plan \<Rightarrow> driving \<Rightarrow> string" where
  "running_line p d =
     (let l = granted_limits p
      in ''Running: step '' @ dec (pr_step (dr_progress d) + 1) @ ''/'' @ dec (length (pl_steps p)) @ '', ''
         @ dec (rn_turns (dr_run d)) @ '' of '' @ dec (li_max_turns l) @ '' turns, $'' @ usd2 (rn_spent_usd (dr_run d))
         @ '' of $'' @ usd2 (li_max_usd l) @ ''.'')"

end
