(* ===== verification/Send_It_Chat.thy ===== *)
theory Send_It_Chat
  imports Send_It_Drive
begin

section \<open>Approved runs: the chat around them\<close>

text \<open>
  \<open>crates/ralph/src/chat/send_it.rs\<close> and the loop of \<open>chat/mod.rs\<close>: the stored run on disk, the
  plan on screen, the active run, and what each command, tool call and ended turn does to them.
  Anything may also rewrite the file on disk at any time (\<open>Tamper\<close>): an editor, the model's own
  tools, a failed write.
\<close>

subsection \<open>The stored run\<close>

datatype disk = Missing | Unreadable string | Stored raw_plan "string option" "stopped_at option"

definition read_run :: "raw_plan \<Rightarrow> string option \<Rightarrow> stopped_at option \<Rightarrow> limits \<Rightarrow> run_file result" where
  "read_run raw approved stopped defaults =
     bind_result (parse_run (Inr raw) defaults)
       (\<lambda>p. Inr \<lparr>rf_plan = p, rf_approved = approved, rf_stopped = stopped\<rparr>)"

fun load :: "limits \<Rightarrow> disk \<Rightarrow> run_file option result" where
  "load defaults Missing = Inr None"
| "load defaults (Unreadable err) = Inl err"
| "load defaults (Stored raw a s) = bind_result (read_run raw a s defaults) (\<lambda>f. Inr (Some f))"

text \<open>\<open>load().ok().flatten()\<close>.\<close>

definition loaded :: "limits \<Rightarrow> disk \<Rightarrow> run_file option" where
  "loaded defaults d = (case load defaults d of Inr f \<Rightarrow> f | Inl _ \<Rightarrow> None)"

definition stored :: "run_file \<Rightarrow> disk" where
  "stored f = Stored (raw_of_plan (rf_plan f)) (rf_approved f) (rf_stopped f)"

text \<open>A save either writes the file or fails with a message and leaves the old one.\<close>

definition save :: "string option \<Rightarrow> run_file \<Rightarrow> disk \<Rightarrow> unit result \<times> disk" where
  "save err f d = (case err of Some e \<Rightarrow> (Inl e, d) | None \<Rightarrow> (Inr (), stored f))"

record screen =
  sc_text :: string
  sc_shown :: "string option"

definition NO_RUN :: string where
  "NO_RUN = ''No send-it run. Start one with /send-it <instructions>.''"

definition NOT_PROPOSED :: string where
  "NOT_PROPOSED = ''No new run plan was stored. Try /send-it again with clearer instructions.''"

definition text_screen :: "string \<Rightarrow> screen" where
  "text_screen t = \<lparr>sc_text = t, sc_shown = None\<rparr>"

text \<open>\<open>render\<close> is \<open>render_status\<close> at the width of the terminal.\<close>

definition status :: "(run_plan \<Rightarrow> string) \<Rightarrow> (run_file \<Rightarrow> string) \<Rightarrow> limits \<Rightarrow> disk \<Rightarrow> screen" where
  "status h render defaults d = (case load defaults d of
     Inr (Some f) \<Rightarrow> \<lparr>sc_text = render f, sc_shown = Some (h (rf_plan f))\<rparr>
   | Inr None \<Rightarrow> text_screen NO_RUN
   | Inl e \<Rightarrow> text_screen e)"

definition proposed :: "(run_plan \<Rightarrow> string) \<Rightarrow> (run_file \<Rightarrow> string) \<Rightarrow> limits \<Rightarrow> string option \<Rightarrow> disk \<Rightarrow> screen" where
  "proposed h render defaults before d =
     (let s = status h render defaults d;
          stored_new = (case sc_shown s of Some hash \<Rightarrow> before \<noteq> Some hash | None \<Rightarrow> sc_text s \<noteq> NO_RUN)
      in if stored_new then s else text_screen NOT_PROPOSED)"

definition propose ::
  "(run_plan \<Rightarrow> string) \<Rightarrow> limits \<Rightarrow> raw_plan result \<Rightarrow> string option \<Rightarrow> disk \<Rightarrow> string result \<times> disk" where
  "propose h defaults raw err d = (case propose_refusal h (loaded defaults d) of
     Some refusal \<Rightarrow> (Inl refusal, d)
   | None \<Rightarrow> (case parse_run raw defaults of
       Inl e \<Rightarrow> (Inl e, d)
     | Inr p \<Rightarrow> (case save err \<lparr>rf_plan = p, rf_approved = None, rf_stopped = None\<rparr> d of
         (Inl e, d') \<Rightarrow> (Inl e, d')
       | (Inr _, d') \<Rightarrow> (Inr (''Stored run plan '' @ h p @ ''. Stop here: ralph shows the plan and the person approves it with /send-it go.''), d'))))"

definition go ::
  "(run_plan \<Rightarrow> string) \<Rightarrow> limits \<Rightarrow> string option \<Rightarrow> bool \<Rightarrow> seen \<Rightarrow> string option \<Rightarrow> disk
     \<Rightarrow> (string \<times> ticked option) \<times> disk" where
  "go h defaults shown typed_at_prompt seen err d = (case load defaults d of
     Inr None \<Rightarrow> ((NO_RUN, None), d)
   | Inl e \<Rightarrow> ((e, None), d)
   | Inr (Some f) \<Rightarrow> (case approve h f shown typed_at_prompt of
       Inl e \<Rightarrow> ((e, None), d)
     | Inr f' \<Rightarrow> (case save err f' d of
         (Inl e, d') \<Rightarrow> ((e, None), d')
       | (Inr _, d') \<Rightarrow> ((''Plan '' @ h (rf_plan f') @ '' approved. Running it.'', start_run h f' seen), d'))))"

definition clear_approval ::
  "(run_plan \<Rightarrow> string) \<Rightarrow> (run_file \<Rightarrow> string) \<Rightarrow> limits \<Rightarrow> string option \<Rightarrow> disk \<Rightarrow> screen \<times> disk" where
  "clear_approval h render defaults err d = (case load defaults d of
     Inr (Some f) \<Rightarrow> (case save err (f\<lparr>rf_approved := None\<rparr>) d of
         (Inr _, d') \<Rightarrow> (status h render defaults d', d')
       | (Inl e, d') \<Rightarrow> (text_screen e, d'))
   | Inr None \<Rightarrow> (text_screen NO_RUN, d)
   | Inl e \<Rightarrow> (text_screen (e @ newline @ ''Fix it with /send-it edit.''), d))"

text \<open>\<open>edit\<close>: \<open>d\<close> is what the editor left; \<open>opened\<close> its error, if it did not run.\<close>

definition edit ::
  "(run_plan \<Rightarrow> string) \<Rightarrow> (run_file \<Rightarrow> string) \<Rightarrow> limits \<Rightarrow> bool \<Rightarrow> string option \<Rightarrow> string option \<Rightarrow> disk \<Rightarrow> screen \<times> disk" where
  "edit h render defaults existed opened err d =
     (if \<not> existed then (text_screen NO_RUN, d)
      else case clear_approval h render defaults err d of
        (s, d') \<Rightarrow> (case opened of
          None \<Rightarrow> (s, d')
        | Some e \<Rightarrow> (s\<lparr>sc_text := ''Editor failed: '' @ e @ newline @ sc_text s\<rparr>, d')))"

definition release ::
  "limits \<Rightarrow> string \<Rightarrow> nat option \<Rightarrow> string option \<Rightarrow> disk \<Rightarrow> run_file option result \<times> disk" where
  "release defaults hash stopped err d = (case load defaults d of
     Inl e \<Rightarrow> (Inl e, d)
   | Inr f \<Rightarrow> (case Option.bind f (\<lambda>f. stop_file f hash stopped) of
       None \<Rightarrow> (Inr None, d)
     | Some released \<Rightarrow> (case save err released d of
         (Inl e, d') \<Rightarrow> (Inl e, d')
       | (Inr _, d') \<Rightarrow> (Inr (Some released), d'))))"

definition off :: "string option \<Rightarrow> disk \<Rightarrow> string \<times> disk" where
  "off err d = (case err of
     Some e \<Rightarrow> (e, d)
   | None \<Rightarrow> if d = Missing then (NO_RUN, Missing) else (''send-it off: the run plan is deleted.'', Missing))"

subsection \<open>The chat\<close>

text \<open>
  \<open>ac_slot\<close>: whether the run started a watch whose outcome the next tick reads. The last three
  fields record what happened: hashes of plans put on screen, hashes the person typed
  \<open>/send-it go\<close> for, and the lines sent to the model with the hash of their run.
\<close>

record active =
  ac_driving :: driving
  ac_slot :: bool

record chat =
  ct_disk :: disk
  ct_shown :: "string option"
  ct_active :: "active option"
  ct_screens :: "string list"
  ct_granted :: "string list"
  ct_sent :: "(string \<times> string) list"

text \<open>\<open>stopped\<close> and \<open>ended\<close> of the code: the approval is released and the run is over.\<close>

definition end_run :: "limits \<Rightarrow> driving \<Rightarrow> nat option \<Rightarrow> string option \<Rightarrow> chat \<Rightarrow> chat" where
  "end_run defaults d stopped err c =
     c\<lparr>ct_disk := snd (release defaults (dr_hash d) stopped err (ct_disk c)), ct_active := None\<rparr>"

definition stop_here :: "limits \<Rightarrow> driving \<Rightarrow> string option \<Rightarrow> chat \<Rightarrow> chat" where
  "stop_here defaults d err c = end_run defaults d (Some (pr_step (dr_progress d) + 1)) err c"

definition send_line :: "driving \<Rightarrow> string \<Rightarrow> chat \<Rightarrow> chat" where
  "send_line d line c =
     c\<lparr>ct_active := Some \<lparr>ac_driving = d, ac_slot = False\<rparr>, ct_sent := ct_sent c @ [(dr_hash d, line)]\<rparr>"

definition hold_for :: "driving \<Rightarrow> bool \<Rightarrow> chat \<Rightarrow> chat" where
  "hold_for d slot c = c\<lparr>ct_active := Some \<lparr>ac_driving = d, ac_slot = slot\<rparr>\<rparr>"

text \<open>\<open>dispatch\<close>; \<open>started\<close> says whether the watch could be started.\<close>

definition dispatch :: "limits \<Rightarrow> bool \<Rightarrow> string option \<Rightarrow> ticked \<Rightarrow> chat \<Rightarrow> chat" where
  "dispatch defaults started err t c =
     (let d = ti_driving t; p = map_option rf_plan (loaded defaults (ct_disk c))
      in case ti_next t of
        Send line \<Rightarrow> send_line d line c
      | NJudge \<Rightarrow> (case Option.bind p (\<lambda>p. judge_prompt p (dr_progress d)) of
          Some prompt \<Rightarrow> send_line d prompt c
        | None \<Rightarrow> stop_here defaults d err c)
      | Hold worker \<Rightarrow> hold_for d False c
      | NWatch command \<Rightarrow> if started then hold_for d True c else stop_here defaults d err c
      | Check command \<Rightarrow> if started then hold_for d True c else stop_here defaults d err c
      | Stop reason \<Rightarrow> stop_here defaults d err c
      | NDone \<Rightarrow> if p = None then c\<lparr>ct_active := None\<rparr> else end_run defaults d None err c
      | NWait \<Rightarrow> c\<lparr>ct_active := None\<rparr>)"

definition show_screen :: "screen \<Rightarrow> chat \<Rightarrow> chat" where
  "show_screen s c =
     c\<lparr>ct_shown := sc_shown s, ct_screens := ct_screens c @ (case sc_shown s of Some hash \<Rightarrow> [hash] | None \<Rightarrow> [])\<rparr>"

definition go_step :: "(run_plan \<Rightarrow> string) \<Rightarrow> limits \<Rightarrow> bool \<Rightarrow> seen \<Rightarrow> string option \<Rightarrow> bool \<Rightarrow> string option \<Rightarrow> chat \<Rightarrow> chat" where
  "go_step h defaults typed seen err started err' c =
     (case go h defaults (ct_shown c) typed seen err (ct_disk c) of
        ((_, None), d) \<Rightarrow> c\<lparr>ct_disk := d\<rparr>
      | ((_, Some t), d) \<Rightarrow>
          dispatch defaults started err' t
            (c\<lparr>ct_disk := d, ct_shown := None, ct_granted := ct_granted c @ [dr_hash (ti_driving t)]\<rparr>))"

text \<open>\<open>SendIt::tick\<close>: the file is read again, the outcome only of a watch this run started.\<close>

definition tick_ended :: "limits \<Rightarrow> chat \<Rightarrow> active \<Rightarrow> ended \<Rightarrow> ended" where
  "tick_ended defaults c a e =
     e\<lparr>en_file := loaded defaults (ct_disk c), en_watched := (if ac_slot a then en_watched e else None)\<rparr>"

datatype input =
    IPropose "raw_plan result" "string option"
  | IProposed "string option"
  | IStatus
  | IEdit disk "string option" "string option"
  | IGo bool seen "string option" bool "string option"
  | IOff "string option"
  | ITurnEnded ended bool "string option"
  | ITookOver "string option"
  | ITamper disk

inductive chat_step ::
  "(run_plan \<Rightarrow> string) \<Rightarrow> (run_file \<Rightarrow> string) \<Rightarrow> limits \<Rightarrow> chat \<Rightarrow> input \<Rightarrow> chat \<Rightarrow> bool"
  for h :: "run_plan \<Rightarrow> string" and render :: "run_file \<Rightarrow> string" and defaults :: limits where
  Propose: "chat_step h render defaults c (IPropose raw err)
     (c\<lparr>ct_disk := snd (propose h defaults raw err (ct_disk c))\<rparr>)"
| Proposed: "chat_step h render defaults c (IProposed before)
     (show_screen (proposed h render defaults before (ct_disk c)) c)"
| Status: "chat_step h render defaults c IStatus (show_screen (status h render defaults (ct_disk c)) c)"
| Edit: "edit h render defaults (ct_disk c \<noteq> Missing) opened err (if ct_disk c = Missing then Missing else d) = (s, d') \<Longrightarrow>
     chat_step h render defaults c (IEdit d opened err) (show_screen s (c\<lparr>ct_disk := d'\<rparr>))"
| Go: "chat_step h render defaults c (IGo typed seen err started err')
     (go_step h defaults typed seen err started err' c)"
| Off: "chat_step h render defaults c (IOff err)
     (c\<lparr>ct_disk := snd (off err (ct_disk c)), ct_shown := None\<rparr>)"
| Turn_Ended: "ct_active c = Some a \<Longrightarrow>
     chat_step h render defaults c (ITurnEnded e started err)
       (dispatch defaults started err (tick h (ac_driving a) (tick_ended defaults c a e)) c)"
| Took_Over: "ct_active c = Some a \<Longrightarrow>
     chat_step h render defaults c (ITookOver err) (stop_here defaults (ac_driving a) err c)"
| Tamper: "chat_step h render defaults c (ITamper d) (c\<lparr>ct_disk := d\<rparr>)"

inductive_cases chat_stepE: "chat_step h render defaults c i c'"

definition chat_start :: "disk \<Rightarrow> chat" where
  "chat_start d = \<lparr>ct_disk = d, ct_shown = None, ct_active = None, ct_screens = [], ct_granted = [], ct_sent = []\<rparr>"

inductive reachable ::
  "(run_plan \<Rightarrow> string) \<Rightarrow> (run_file \<Rightarrow> string) \<Rightarrow> limits \<Rightarrow> chat \<Rightarrow> bool"
  for h :: "run_plan \<Rightarrow> string" and render :: "run_file \<Rightarrow> string" and defaults :: limits where
  init: "reachable h render defaults (chat_start d)"
| step: "reachable h render defaults c \<Longrightarrow> chat_step h render defaults c i c' \<Longrightarrow> reachable h render defaults c'"

end
