(* ===== verification/Send_It_Facts.thy ===== *)
theory Send_It_Facts
  imports Send_It_Chat
begin

section \<open>What holds of approved runs\<close>

subsection \<open>A stored plan is read back\<close>

definition wf_plan :: "run_plan \<Rightarrow> bool" where
  "wf_plan p \<longleftrightarrow>
     trim (pl_goal p) = pl_goal p \<and> pl_goal p \<noteq> [] \<and> pl_steps p \<noteq> [] \<and>
     list_all (\<lambda>s. trim (st_task s) = st_task s \<and> st_task s \<noteq> []) (pl_steps p) \<and>
     li_max_turns (pl_limits p) \<noteq> 0 \<and> pl_judge_rounds p \<noteq> 0 \<and>
     li_max_usd (pl_limits p) \<noteq> NaN \<and> \<not> usd_ge (Fin 0) (li_max_usd (pl_limits p))"

lemma parse_step_Inr:
  "parse_step n s = Inr t \<longleftrightarrow>
     trim (rs_task s) \<noteq> [] \<and> (\<exists>c. rs_criterion s = Some c \<and> t = \<lparr>st_task = trim (rs_task s), st_criterion = c\<rparr>)"
  by (auto simp: parse_step_def Let_def split: option.splits)

lemma parse_steps_tasks:
  "parse_steps n ss = Inr ts \<Longrightarrow>
     list_all (\<lambda>s. trim (st_task s) = st_task s \<and> st_task s \<noteq> []) ts \<and> length ts = length ss"
  by (induction n ss arbitrary: ts rule: parse_steps.induct) (auto simp: parse_step_Inr)

lemma parse_steps_raw:
  "list_all (\<lambda>s. trim (st_task s) = st_task s \<and> st_task s \<noteq> []) ts \<Longrightarrow>
     parse_steps n (map (\<lambda>s. \<lparr>rs_task = st_task s, rs_criterion = Some (st_criterion s)\<rparr>) ts) = Inr ts"
  by (induction ts arbitrary: n) (auto simp: parse_step_def Let_def)

lemma parse_run_wf: "parse_run raw defaults = Inr p \<Longrightarrow> wf_plan p"
  by (auto simp: parse_run_def wf_plan_def Let_def dest!: parse_steps_tasks split: sum.splits if_splits)

lemma parse_run_raw: "wf_plan p \<Longrightarrow> parse_run (Inr (raw_of_plan p)) defaults = Inr p"
  by (simp add: parse_run_def wf_plan_def raw_of_plan_def Let_def parse_steps_raw)

text \<open>C30: a run that was read and is saved is read back unchanged: the same plan (so the same hash),
  the same approval and the same stop, whatever the configured default caps have become meanwhile.\<close>

theorem saved_run_reads_back:
  assumes "load defaults d = Inr (Some f)" and "save None f d' = (r, d'')"
  shows "load defaults' d'' = Inr (Some f)"
proof -
  have "wf_plan (rf_plan f)"
    using assms(1) by (cases d) (auto simp: read_run_def dest: parse_run_wf)
  then show ?thesis
    using assms(2) parse_run_raw [of "rf_plan f" defaults']
    by (auto simp: save_def stored_def read_run_def)
qed

lemma load_stored: "wf_plan (rf_plan f) \<Longrightarrow> load defaults (stored f) = Inr (Some f)"
  using parse_run_raw [of "rf_plan f" defaults] by (simp add: stored_def read_run_def)

subsection \<open>Ticks\<close>

lemma step_met_cases:
  "step_met p g = (if pr_step g + 1 < length (pl_steps p)
     then (progress_default\<lparr>pr_step := pr_step g + 1\<rparr>,
           Send (step_line p (pr_step g + 1) (pl_steps p ! (pr_step g + 1))))
     else (g, NDone))"
  by (simp add: step_met_def nth_step_def Let_def)

lemma finish_fields [simp]:
  "dr_hash (ti_driving (finish d r g n m)) = dr_hash d" "dr_progress (ti_driving (finish d r g n m)) = g"
  "dr_run (ti_driving (finish d r g n m)) = r" "ti_next (finish d r g n m) = n" "ti_met (finish d r g n m) = m"
  "dr_awaiting (ti_driving (finish d r g n m)) = awaiting_of n g"
  by (simp_all add: finish_def)

lemma tick_hash [simp]: "dr_hash (ti_driving (tick h d e)) = dr_hash d"
  by (simp add: tick_def Let_def split: sum.split prod.split)

text \<open>What makes the exit criterion of a step met.\<close>

definition evidence_for :: "criterion \<Rightarrow> ended \<Rightarrow> bool" where
  "evidence_for c e = (case c of
     WorkerDone worker \<Rightarrow> list_ex (\<lambda>r. rp_worker r = worker \<and> rp_status r = ''done'') (en_drained e)
   | WatchPasses _ \<Rightarrow> en_watched e = Some (Exited 0)
   | CheckPasses _ \<Rightarrow> en_watched e = Some (Exited 0)
   | Judge _ \<Rightarrow> (case en_step_result e of Some r \<Rightarrow> sr_met r | None \<Rightarrow> False))"

text \<open>An event that an ended turn offers.\<close>

definition offered :: "ended \<Rightarrow> event \<Rightarrow> bool" where
  "offered e v = (case v of
     EReport r \<Rightarrow> r \<in> set (en_drained e)
   | Watched w \<Rightarrow> en_watched e = Some w
   | Verdict r \<Rightarrow> r = en_step_result e
   | _ \<Rightarrow> False)"

lemma events_offered: "v \<in> set (events a e) \<Longrightarrow> offered e v"
  by (auto simp: events_def offered_def split: awaiting.splits option.splits)

text \<open>What one event can do while the step exists.\<close>

definition moves_on :: "progress \<Rightarrow> progress \<times> next_move \<Rightarrow> bool" where
  "moves_on g r \<longleftrightarrow> pr_step (fst r) \<noteq> pr_step g \<or> snd r = NDone"

lemma advance_evidence:
  assumes "offered e v" and "nth_step p (pr_step g) = Some s" and "moves_on g (advance p g v)"
  shows "evidence_for (st_criterion s) e"
  using assms
  by (cases v; cases "st_criterion s")
    (auto simp: advance_def offered_def moves_on_def evidence_for_def on_report_def on_watched_def
      on_verdict_def Let_def list_ex_iff split: if_splits option.splits)

lemma advance_wait: "advance p g v = (g', NWait) \<Longrightarrow> g' = g"
  by (cases v) (auto simp: advance_def on_report_def on_watched_def on_verdict_def step_met_cases Let_def
      split: option.splits criterion.splits if_splits)

lemma fold_events_cases:
  "fold_events p g es = (g', n) \<Longrightarrow> (n = NWait \<and> g' = g) \<or> (n \<noteq> NWait \<and> (\<exists>v \<in> set es. advance p g v = (g', n)))"
proof (induction p g es rule: fold_events.induct)
  case (2 p g e es)
  obtain g1 n1 where a: "advance p g e = (g1, n1)" by fastforce
  show ?case
  proof (cases "n1 = NWait")
    case True
    then have "g1 = g" using a advance_wait by blast
    then show ?thesis using 2 a True by auto
  next
    case False
    then show ?thesis using 2(2) a by auto
  qed
qed auto

lemma after_caps_done:
  "nth_step p (pr_step g) = Some s \<Longrightarrow> decided \<noteq> NDone \<Longrightarrow> after_caps p g r decided \<noteq> NDone"
  by (cases "st_criterion s")
    (auto simp: after_caps_def advance_def after_turn_def Let_def split: if_splits)

lemma advance_in_range:
  "nth_step p (pr_step g) = Some s \<Longrightarrow> advance p g v = (g', n) \<Longrightarrow> \<exists>s'. nth_step p (pr_step g') = Some s'"
  by (cases v) (auto simp: advance_def on_report_def on_watched_def on_verdict_def step_met_cases Let_def nth_step_def
      split: option.splits criterion.splits if_splits)

lemma advance_moves:
  assumes "nth_step p (pr_step g0) = Some s" and "advance p g0 v = (g, n)" and "offered e v"
    and "n = NDone \<or> pr_step g \<noteq> pr_step g0"
  shows "(n = NDone \<and> pr_step g0 + 1 = length (pl_steps p) \<and> g = g0) \<or> (n \<noteq> NDone \<and> pr_step g = pr_step g0 + 1)"
  using assms
  by (cases v; cases "st_criterion s")
    (auto simp: advance_def offered_def on_report_def on_watched_def on_verdict_def step_met_cases nth_step_def Let_def
      split: if_splits option.splits)

text \<open>The parts of an admitted tick.\<close>

lemma tick_admitted:
  assumes "admitted h e (dr_hash d) = Inr f" and "fold_events (rf_plan f) (dr_progress d) (events (dr_awaiting d) e) = (g, decided)"
  shows "dr_progress (ti_driving (tick h d e)) = g" "dr_run (ti_driving (tick h d e)) = charged d e decided"
    and "ti_next (tick h d e) =
      (if decided = NDone \<or> is_stop decided then decided else after_caps (rf_plan f) g (charged d e decided) decided)"
    and "dr_awaiting (ti_driving (tick h d e)) = awaiting_of (ti_next (tick h d e)) g"
  using assms by (simp_all add: tick_def Let_def)

lemma tick_refused:
  "admitted h e (dr_hash d) = Inl why \<Longrightarrow> tick h d e = finish d (counted d e) (dr_progress d) (Stop why) None"
  by (simp add: tick_def)

lemma admitted_Inr:
  "admitted h e hash = Inr f \<longleftrightarrow>
     en_file e = Some f \<and> \<not> list_ex is_off (en_queued e) \<and> is_approved h f \<and> h (rf_plan f) = hash \<and>
     en_refused e = None \<and> en_replied e \<and> \<not> en_typed e \<and> en_queued e = [] \<and> \<not> en_asked e \<and> \<not> unanswered_flag e f"
  by (auto simp: admitted_def stop_cause_def split: option.splits if_splits)

lemma evidence_of_moves:
  assumes "ti_next (tick h d e) = NDone \<or> pr_step (dr_progress (ti_driving (tick h d e))) \<noteq> pr_step (dr_progress d)"
    and "en_file e = Some f" and "pr_step (dr_progress d) < length (pl_steps (rf_plan f))"
  shows "is_approved h f" and "h (rf_plan f) = dr_hash d"
    and "evidence_for (st_criterion (pl_steps (rf_plan f) ! pr_step (dr_progress d))) e"
    and "if ti_next (tick h d e) = NDone then pr_step (dr_progress d) + 1 = length (pl_steps (rf_plan f))
      else pr_step (dr_progress (ti_driving (tick h d e))) = pr_step (dr_progress d) + 1"
proof -
  obtain f' where adm: "admitted h e (dr_hash d) = Inr f'"
    using assms(1) by (cases "admitted h e (dr_hash d)") (auto simp: tick_refused)
  then have "f' = f" using assms(2) by (simp add: admitted_Inr)
  then show "is_approved h f" "h (rf_plan f) = dr_hash d" using adm by (simp_all add: admitted_Inr)
  define g0 where "g0 = dr_progress d"
  define st where "st = pl_steps (rf_plan f) ! pr_step g0"
  have st: "nth_step (rf_plan f) (pr_step g0) = Some st" using assms(3) by (simp add: nth_step_def st_def g0_def)
  obtain g decided where f: "fold_events (rf_plan f) g0 (events (dr_awaiting d) e) = (g, decided)" by fastforce
  note t = tick_admitted [OF adm, unfolded \<open>f' = f\<close>, folded g0_def, OF f]
  have moved: "decided = NDone \<or> pr_step g \<noteq> pr_step g0"
  proof (rule ccontr)
    assume "\<not> ?thesis"
    then have "decided \<noteq> NDone" "pr_step g = pr_step g0" by auto
    then have "ti_next (tick h d e) \<noteq> NDone"
      using t(3) after_caps_done [of "rf_plan f" g st decided] st by (cases "is_stop decided") auto
    then show False using assms(1) t(1) \<open>pr_step g = pr_step g0\<close> by (simp add: g0_def)
  qed
  then obtain v where v: "v \<in> set (events (dr_awaiting d) e)" "advance (rf_plan f) g0 v = (g, decided)"
    using fold_events_cases [OF f] by auto
  show "evidence_for (st_criterion (pl_steps (rf_plan f) ! pr_step (dr_progress d))) e"
  proof -
    have "moves_on g0 (advance (rf_plan f) g0 v)" using moved v(2) by (auto simp: moves_on_def)
    then show ?thesis using advance_evidence [OF events_offered [OF v(1)] st] by (simp add: st_def g0_def)
  qed
  have step: "(decided = NDone \<and> pr_step g0 + 1 = length (pl_steps (rf_plan f)) \<and> g = g0) \<or>
      (decided \<noteq> NDone \<and> pr_step g = pr_step g0 + 1)"
    using advance_moves [OF st v(2) events_offered [OF v(1)] moved] .
  show "if ti_next (tick h d e) = NDone then pr_step (dr_progress d) + 1 = length (pl_steps (rf_plan f))
      else pr_step (dr_progress (ti_driving (tick h d e))) = pr_step (dr_progress d) + 1"
  proof (cases "decided = NDone")
    case True
    then show ?thesis using step t(3) by (simp add: g0_def)
  next
    case False
    obtain s' where "nth_step (rf_plan f) (pr_step g) = Some s'" using advance_in_range [OF st v(2)] by blast
    then have "ti_next (tick h d e) \<noteq> NDone" using t(3) False after_caps_done by simp
    then show ?thesis using False step t(1) by (simp add: g0_def)
  qed
qed

text \<open>C3: the run moves to another step, or ends as done, only on evidence: the stored plan is still
  approved with the run's hash, and the criterion of the step it was at is met by what the ended
  turn brought (a done report of the named worker, exit code 0 of the check, a verdict that it is
  met). It then is at the next step, or the step was the last one.\<close>

theorem steps_need_evidence:
  assumes "ti_next (tick h d e) = NDone \<or> pr_step (dr_progress (ti_driving (tick h d e))) \<noteq> pr_step (dr_progress d)"
    and "en_file e = Some f" and "pr_step (dr_progress d) < length (pl_steps (rf_plan f))"
  shows "is_approved h f \<and> h (rf_plan f) = dr_hash d \<and>
    evidence_for (st_criterion (pl_steps (rf_plan f) ! pr_step (dr_progress d))) e \<and>
    (if ti_next (tick h d e) = NDone then pr_step (dr_progress d) + 1 = length (pl_steps (rf_plan f))
     else pr_step (dr_progress (ti_driving (tick h d e))) = pr_step (dr_progress d) + 1)"
  using evidence_of_moves [OF assms] by blast

text \<open>A run of one step at the person's request: "say hello", exit when worker a reports done.\<close>

definition demo_plan :: run_plan where
  "demo_plan = \<lparr>pl_goal = ''g'', pl_steps = [\<lparr>st_task = ''s'', st_criterion = WorkerDone ''a''\<rparr>],
     pl_allowed = [], pl_grants = [], pl_limits = \<lparr>li_max_turns = 3, li_max_usd = Fin 5\<rparr>, pl_judge_rounds = 2\<rparr>"

definition demo_file :: run_file where
  "demo_file = \<lparr>rf_plan = demo_plan, rf_approved = Some ''x'', rf_stopped = None\<rparr>"

definition demo_driving :: driving where
  "demo_driving = \<lparr>dr_hash = ''x'', dr_progress = progress_default,
     dr_run = run_default, dr_awaiting = AReport ''a''\<rparr>"

definition demo_ended :: ended where
  "demo_ended = \<lparr>en_file = Some demo_file, en_replied = True, en_asked = False, en_typed = False, en_queued = [],
     en_cost_usd = Fin 0, en_step_result = None,
     en_drained = [\<lparr>rp_worker = ''a'', rp_at = ''t'', rp_status = ''done'', rp_text = ''ok''\<rparr>],
     en_unread = [], en_answered = [], en_watched = None, en_refused = None\<rparr>"

lemmas demo_defs = demo_plan_def demo_file_def demo_driving_def demo_ended_def progress_default_def run_default_def

lemma demo_admitted: "admitted (\<lambda>_. ''x'') demo_ended ''x'' = Inr demo_file"
  by (simp add: admitted_Inr is_approved_def unanswered_flag_def worker_flagged_def flagged_def demo_defs)

lemma demo_tick: "ti_next (tick (\<lambda>_. ''x'') demo_driving demo_ended) = NDone"
proof -
  have "fold_events (rf_plan demo_file) (dr_progress demo_driving) (events (dr_awaiting demo_driving) demo_ended) =
      (progress_default, NDone)"
    by (simp add: events_def flagged_def advance_def nth_step_def on_report_def step_met_def Let_def demo_defs)
  then show ?thesis using tick_admitted(3) [of "\<lambda>_. ''x''" demo_ended demo_driving] demo_admitted
    by (simp add: demo_driving_def)
qed

theorem steps_need_evidence_witness:
  "evidence_for (WorkerDone ''a'') demo_ended"
  using steps_need_evidence [of "\<lambda>_. ''x''" demo_driving demo_ended demo_file] demo_tick
  by (simp add: demo_defs)

theorem saved_run_reads_back_witness:
  "load \<lparr>li_max_turns = 1, li_max_usd = Fin 1\<rparr> (snd (save None demo_file Missing)) = Inr (Some demo_file)"
proof -
  have t: "trim ''g'' = ''g''" "trim ''s'' = ''s''" by (simp_all add: trim_single is_ws_ascii)
  have "load \<lparr>li_max_turns = 9, li_max_usd = Fin 9\<rparr> (stored demo_file) = Inr (Some demo_file)"
    by (rule load_stored) (simp add: wf_plan_def demo_defs t)
  then show ?thesis
    by (rule saved_run_reads_back [where r = "fst (save None demo_file Missing)"]) simp
qed

subsection \<open>Every run ends\<close>

definition goes_on :: "next_move \<Rightarrow> bool" where
  "goes_on n \<longleftrightarrow> \<not> is_stop n \<and> n \<noteq> NDone"

text \<open>How many of the ticks the run survives: it is over at the first stop or at its end.\<close>

fun survived :: "(run_plan \<Rightarrow> string) \<Rightarrow> driving \<Rightarrow> ended list \<Rightarrow> nat" where
  "survived h d [] = 0"
| "survived h d (e # es) =
     (if goes_on (ti_next (tick h d e)) then Suc (survived h (ti_driving (tick h d e)) es) else 0)"

definition budget :: "run_plan \<Rightarrow> driving \<Rightarrow> nat" where
  "budget p d =
     (li_max_turns (granted_limits p) - rn_turns (dr_run d)) +
     2 * (length (pl_steps p) - pr_step (dr_progress d)) + (if pr_probing (dr_progress d) then 1 else 0)"

text \<open>The part of the budget that steps and probes take.\<close>

definition step_budget :: "run_plan \<Rightarrow> progress \<Rightarrow> nat" where
  "step_budget p g = 2 * (length (pl_steps p) - pr_step g) + (if pr_probing g then 1 else 0)"

lemma advance_budget:
  assumes "nth_step p (pr_step g) = Some s" and "advance p g v = (g', n)" and "goes_on n" "n \<noteq> NWait" and "offered e v"
  shows "step_budget p g' \<le> step_budget p g"
    and "(case v of Verdict _ \<Rightarrow> True | _ \<Rightarrow> step_budget p g' < step_budget p g)"
  using assms
  by (cases v; auto simp: advance_def offered_def on_report_def on_watched_def on_verdict_def step_met_cases Let_def
      step_budget_def goes_on_def nth_step_def progress_default_def split: option.splits criterion.splits if_splits)+

lemma caps_goes_on:
  assumes "nth_step p (pr_step g) = Some s" and "goes_on (after_caps p g r decided)"
  shows "rn_turns r < li_max_turns (granted_limits p)"
  using assms by (auto simp: after_caps_def advance_def after_turn_def goes_on_def Let_def split: if_splits)

lemma charged_turns:
  "rn_turns (charged d e decided) =
     (if decided \<noteq> NWait \<and> (\<exists>w. dr_awaiting d = AReport w) then rn_turns (dr_run d) else Suc (rn_turns (dr_run d)))"
  by (auto simp: charged_def counted_def split: awaiting.split)

lemma tick_budget:
  assumes "goes_on (ti_next (tick h d e))" and "\<forall>f. en_file e = Some f \<longrightarrow> rf_plan f = p"
  shows "budget p (ti_driving (tick h d e)) < budget p d"
proof -
  obtain f where adm: "admitted h e (dr_hash d) = Inr f"
    using assms(1) by (cases "admitted h e (dr_hash d)") (auto simp: tick_refused goes_on_def)
  then have p: "rf_plan f = p" using assms(2) by (simp add: admitted_Inr)
  define g0 where "g0 = dr_progress d"
  obtain g decided where f: "fold_events p g0 (events (dr_awaiting d) e) = (g, decided)" by fastforce
  note t = tick_admitted [OF adm, unfolded p, folded g0_def, OF f]
  have on: "goes_on (after_caps p g (charged d e decided) decided)" and dec: "goes_on decided"
    using assms(1) t(3) by (auto simp: goes_on_def split: if_splits)
  obtain s where s: "nth_step p (pr_step g) = Some s"
  proof (cases "nth_step p (pr_step g)")
    case None
    then have "after_caps p g (charged d e decided) decided = NDone \<or> decided \<noteq> NWait" for decided
      by (simp add: after_caps_def advance_def)
    then have "decided \<noteq> NWait" using on by (auto simp: goes_on_def)
    then obtain v where v: "advance p g0 v = (g, decided)" using fold_events_cases [OF f] by auto
    then obtain s0 where "nth_step p (pr_step g0) = Some s0"
      using dec by (cases "nth_step p (pr_step g0)") (auto simp: advance_def goes_on_def)
    then show ?thesis using None advance_in_range [OF _ v] by auto
  qed
  have less: "rn_turns (charged d e decided) < li_max_turns (granted_limits p)"
    using caps_goes_on [OF s on] .
  have "budget p (ti_driving (tick h d e)) =
      (li_max_turns (granted_limits p) - rn_turns (charged d e decided)) + step_budget p g"
    by (simp add: budget_def step_budget_def t(1,2))
  also have "\<dots> < (li_max_turns (granted_limits p) - rn_turns (dr_run d)) + step_budget p g0"
  proof (cases "decided = NWait")
    case True
    then have "g = g0" using fold_events_cases [OF f] by auto
    then show ?thesis using True less by (simp add: charged_turns)
  next
    case False
    then obtain v where v: "v \<in> set (events (dr_awaiting d) e)" "advance p g0 v = (g, decided)"
      using fold_events_cases [OF f] by auto
    obtain s0 where s0: "nth_step p (pr_step g0) = Some s0"
      using v(2) dec by (cases "nth_step p (pr_step g0)") (auto simp: advance_def goes_on_def)
    note b = advance_budget [OF s0 v(2) dec False events_offered [OF v(1)]]
    show ?thesis
    proof (cases "\<exists>w. dr_awaiting d = AReport w")
      case True
      then have "\<forall>r. v \<noteq> Verdict r" using v(1) by (auto simp: events_def split: option.splits)
      then have "step_budget p g < step_budget p g0" using b(2) by (cases v) auto
      then show ?thesis using True False by (simp add: charged_turns)
    next
      case not_report: False
      then show ?thesis using b(1) less by (simp add: charged_turns)
    qed
  qed
  finally show ?thesis by (simp add: budget_def step_budget_def g0_def)
qed

text \<open>C12: a run ends: as long as the stored plan stays the same, it survives at most as many ticks as
  turns are left under the granted turn cap, plus two for each step still to do and one for the
  probe of a resumed step. The ticks that cost no turn are covered by the steps.\<close>

theorem run_ends:
  assumes "\<forall>e \<in> set es. \<forall>f. en_file e = Some f \<longrightarrow> rf_plan f = p"
  shows "survived h d es \<le>
    (li_max_turns (granted_limits p) - rn_turns (dr_run d)) +
    2 * (length (pl_steps p) - pr_step (dr_progress d)) + (if pr_probing (dr_progress d) then 1 else 0)"
proof -
  have "survived h d es \<le> budget p d"
    using assms
  proof (induction es arbitrary: d)
    case (Cons e es)
    show ?case
    proof (cases "goes_on (ti_next (tick h d e))")
      case True
      have "budget p (ti_driving (tick h d e)) < budget p d" using Cons.prems by (intro tick_budget True) auto
      moreover have "survived h (ti_driving (tick h d e)) es \<le> budget p (ti_driving (tick h d e))"
        using Cons by auto
      ultimately show ?thesis using True by simp
    qed simp
  qed simp
  then show ?thesis by (simp add: budget_def)
qed

theorem run_ends_witness: "survived (\<lambda>_. ''x'') demo_driving (replicate 9 demo_ended) \<le> 5"
  using run_ends [of "replicate 9 demo_ended" demo_plan "\<lambda>_. ''x''" demo_driving]
  by (simp add: demo_defs granted_limits_def)

subsection \<open>Only what the person approved is sent\<close>

definition asked_for :: "chat \<Rightarrow> bool" where
  "asked_for c \<longleftrightarrow>
     (\<forall>a. ct_active c = Some a \<longrightarrow> dr_hash (ac_driving a) \<in> set (ct_granted c)) \<and>
     fst ` set (ct_sent c) \<subseteq> set (ct_granted c) \<and> set (ct_granted c) \<subseteq> set (ct_screens c) \<and>
     (\<forall>hash. ct_shown c = Some hash \<longrightarrow> hash \<in> set (ct_screens c))"

lemma end_run_asked_for: "asked_for c \<Longrightarrow> asked_for (end_run defaults d stopped err c)"
  by (auto simp: asked_for_def end_run_def)

lemma dispatch_asked_for:
  assumes "asked_for c" and "dr_hash (ti_driving t) \<in> set (ct_granted c)"
  shows "asked_for (dispatch defaults started err t c)"
  using assms end_run_asked_for [of c]
  by (auto simp: dispatch_def Let_def stop_here_def send_line_def hold_for_def asked_for_def split: next_move.split option.split)

lemma approve_Inr:
  "approve h f shown typed = Inr f' \<longleftrightarrow> typed \<and> shown = Some (h (rf_plan f)) \<and> f' = f\<lparr>rf_approved := Some (h (rf_plan f))\<rparr>"
  by (auto simp: approve_def Let_def)

lemma start_run_hash: "start_run h f seen = Some t \<Longrightarrow> dr_hash (ti_driving t) = h (rf_plan f)"
  by (auto simp: start_run_def Let_def split: if_splits prod.splits)

lemma go_started:
  assumes "go h defaults shown typed seen err d = ((m, Some t), d')"
  shows "typed" and "shown = Some (dr_hash (ti_driving t))"
  using assms
  by (auto simp: go_def approve_Inr save_def dest: start_run_hash split: sum.splits option.splits prod.splits)

lemma show_screen_asked_for: "asked_for c \<Longrightarrow> asked_for (show_screen s c)"
  by (auto simp: asked_for_def show_screen_def split: option.split)

lemma step_asked_for:
  assumes "chat_step h render defaults c i c'" and "asked_for c"
  shows "asked_for c'"
  using assms
proof (cases rule: chat_step.cases)
  case (Edit opened err d s d')
  then show ?thesis using assms(2) show_screen_asked_for [of "c\<lparr>ct_disk := d'\<rparr>"] by (simp add: asked_for_def)
next
  case (Go typed seen err started err')
  obtain m t d where g: "go h defaults (ct_shown c) typed seen err (ct_disk c) = ((m, t), d)"
    by (metis prod.exhaust)
  show ?thesis
  proof (cases t)
    case None
    then show ?thesis using Go g assms(2) by (simp add: go_step_def asked_for_def)
  next
    case (Some x)
    have "ct_shown c = Some (dr_hash (ti_driving x))" using go_started(2) g Some by blast
    then have "asked_for (c\<lparr>ct_disk := d, ct_shown := None, ct_granted := ct_granted c @ [dr_hash (ti_driving x)]\<rparr>)"
      using assms(2) by (auto simp: asked_for_def)
    then show ?thesis using Go g Some by (simp add: go_step_def dispatch_asked_for)
  qed
next
  case (Turn_Ended a e started err)
  then have "dr_hash (ac_driving a) \<in> set (ct_granted c)" using assms(2) by (simp add: asked_for_def)
  then show ?thesis using Turn_Ended assms(2) by (simp add: dispatch_asked_for)
qed (auto simp: show_screen_asked_for stop_here_def end_run_asked_for, auto simp: asked_for_def)

lemma reachable_asked_for: "reachable h render defaults c \<Longrightarrow> asked_for c"
  by (induction rule: reachable.induct) (auto simp: step_asked_for, simp add: asked_for_def chat_start_def)


lemma undisturbed_facts:
  assumes "goes_on (ti_next (tick h d e))" and "en_file e = Some f"
    and "pr_step (dr_progress d) < length (pl_steps (rf_plan f))"
  shows "is_approved h f" and "h (rf_plan f) = dr_hash d" and "en_replied e" and "\<not> en_typed e" and "en_queued e = []"
    and "\<not> en_asked e" and "en_refused e = None" and "\<not> unanswered_flag e f"
    and "rn_turns (dr_run (ti_driving (tick h d e))) < li_max_turns (granted_limits (rf_plan f))"
    and "\<not> usd_ge (rn_spent_usd (dr_run (ti_driving (tick h d e)))) (li_max_usd (granted_limits (rf_plan f)))"
proof -
  obtain f' where adm: "admitted h e (dr_hash d) = Inr f'"
    using assms(1) by (cases "admitted h e (dr_hash d)") (auto simp: tick_refused goes_on_def)
  then have "f' = f" using assms(2) by (simp add: admitted_Inr)
  then show "is_approved h f" "h (rf_plan f) = dr_hash d" "en_replied e" "\<not> en_typed e" "en_queued e = []"
    "\<not> en_asked e" "en_refused e = None" "\<not> unanswered_flag e f"
    using adm by (simp_all add: admitted_Inr)
  define g0 where "g0 = dr_progress d"
  obtain s where s: "nth_step (rf_plan f) (pr_step g0) = Some s" using assms(3) by (simp add: nth_step_def g0_def)
  obtain g decided where ev: "fold_events (rf_plan f) g0 (events (dr_awaiting d) e) = (g, decided)" by fastforce
  note t = tick_admitted [OF adm, unfolded \<open>f' = f\<close>, folded g0_def, OF ev]
  have on: "goes_on (after_caps (rf_plan f) g (charged d e decided) decided)"
    using assms(1) t(3) by (auto simp: goes_on_def split: if_splits)
  obtain s' where s': "nth_step (rf_plan f) (pr_step g) = Some s'"
    using fold_events_cases [OF ev] advance_in_range [OF s] s by metis
  then show "rn_turns (dr_run (ti_driving (tick h d e))) < li_max_turns (granted_limits (rf_plan f))"
    "\<not> usd_ge (rn_spent_usd (dr_run (ti_driving (tick h d e)))) (li_max_usd (granted_limits (rf_plan f)))"
    using on by (auto simp: t(2) after_caps_def advance_def after_turn_def goes_on_def Let_def split: if_splits)
qed

text \<open>C25: an ended turn leads to a further line or wait only if the run is undisturbed: the stored run
  still is approved and has the run's hash, the turn brought a reply, nothing was typed or queued,
  no schedule waits for the person, no tool was refused, every worker that asked or is blocked was
  answered where the plan allows replies, and the turns are below the granted cap.\<close>

theorem run_goes_on_undisturbed:
  assumes "goes_on (ti_next (tick h d e))" and "en_file e = Some f"
    and "pr_step (dr_progress d) < length (pl_steps (rf_plan f))"
  shows "is_approved h f \<and> h (rf_plan f) = dr_hash d \<and> en_replied e \<and> \<not> en_typed e \<and> en_queued e = [] \<and>
    \<not> en_asked e \<and> en_refused e = None \<and> \<not> unanswered_flag e f \<and>
    rn_turns (dr_run (ti_driving (tick h d e))) < li_max_turns (granted_limits (rf_plan f)) \<and>
    \<not> usd_ge (rn_spent_usd (dr_run (ti_driving (tick h d e)))) (li_max_usd (granted_limits (rf_plan f)))"
  using undisturbed_facts [OF assms] by blast

text \<open>A run that starts: shown, approved, and its first line sent.\<close>

definition demo_chat :: chat where
  "demo_chat = (chat_start (stored (demo_file\<lparr>rf_approved := None\<rparr>)))"

lemma demo_reaches:
  "\<exists>c line. reachable (\<lambda>_. ''x'') (\<lambda>_. ''r'') \<lparr>li_max_turns = 1, li_max_usd = Fin 1\<rparr> c \<and> (''x'', line) \<in> set (ct_sent c)"
proof -
  let ?h = "\<lambda>_ :: run_plan. ''x''" and ?r = "\<lambda>_ :: run_file. ''r''" and ?l = "\<lparr>li_max_turns = 1, li_max_usd = Fin 1\<rparr>"
  let ?f = "demo_file\<lparr>rf_approved := None\<rparr>"
  have t: "trim ''g'' = ''g''" "trim ''s'' = ''s''" by (simp_all add: trim_single is_ws_ascii)
  have ld: "load ?l (stored ?f) = Inr (Some ?f)" by (rule load_stored) (simp add: wf_plan_def demo_defs t)
  define c1 where "c1 = show_screen (status ?h ?r ?l (ct_disk demo_chat)) demo_chat"
  have s1: "chat_step ?h ?r ?l demo_chat IStatus c1" unfolding c1_def by (rule Status)
  have c1: "ct_shown c1 = Some ''x''" "ct_disk c1 = stored ?f" "ct_sent c1 = []"
    using ld by (simp_all add: c1_def show_screen_def status_def demo_chat_def chat_start_def)
  let ?s = "\<lparr>se_last = Map.empty, se_running = []\<rparr>"
  have s2: "chat_step ?h ?r ?l c1 (IGo True ?s None True None) (go_step ?h ?l True ?s None True None c1)" by (rule Go)
  let ?f' = "?f\<lparr>rf_approved := Some ''x''\<rparr>"
  obtain t where t: "start_run ?h ?f' ?s = Some t" "\<exists>line. ti_next t = Send line" "dr_hash (ti_driving t) = ''x''"
    by (simp add: start_run_def is_approved_def introduce_def first_move_def resume_step_def start_progress_def advance_def nth_step_def demo_defs Let_def)
  then obtain line where line: "ti_next t = Send line" by blast
  have "go ?h ?l (ct_shown c1) True ?s None (ct_disk c1) = ((''Plan '' @ ''x'' @ '' approved. Running it.'', Some t), stored ?f')"
    using ld t(1) by (simp add: go_def c1 approve_def save_def)
  then have "(''x'', line) \<in> set (ct_sent (go_step ?h ?l True ?s None True None c1))"
    using line t(3) by (simp add: go_step_def dispatch_def send_line_def)
  moreover have "reachable ?h ?r ?l demo_chat" unfolding demo_chat_def by (rule reachable.init)
  ultimately show ?thesis using s1 s2 reachable.step by metis
qed


theorem run_goes_on_undisturbed_witness:
  "en_replied (demo_ended\<lparr>en_drained := []\<rparr>)"
proof -
  let ?e = "demo_ended\<lparr>en_drained := []\<rparr>" and ?h = "\<lambda>_ :: run_plan. ''x''"
  have a: "admitted ?h ?e (dr_hash demo_driving) = Inr demo_file"
    by (simp add: admitted_Inr is_approved_def unanswered_flag_def worker_flagged_def flagged_def demo_defs)
  have ev: "fold_events (rf_plan demo_file) (dr_progress demo_driving) (events (dr_awaiting demo_driving) ?e) =
      (progress_default, NWait)"
    by (simp add: events_def flagged_def demo_defs)
  have "goes_on (ti_next (tick ?h demo_driving ?e))"
    unfolding tick_admitted(3) [OF a ev]
    by (simp add: goes_on_def after_caps_def advance_def nth_step_def after_turn_def granted_limits_def charged_def counted_def
        f64_add_def f64_round_def Let_def f64_limit_def demo_defs)
  then show ?thesis using run_goes_on_undisturbed [where f = demo_file] by (simp add: demo_defs)
qed

end
