(* ===== verification/Schedule.thy ===== *)
theory Schedule
  imports Watch
begin

section \<open>Scheduled tasks\<close>

text \<open>
  One-shot tasks that run later: a shell command as a watch, or a worker with a brief
  (\<open>crates/core/src/schedule.rs\<close>, \<open>schedule_worker.rs\<close>, \<open>schedule_request.rs\<close>,
  \<open>schedule_command.rs\<close>). Instants are nanoseconds since the epoch. What the code takes from
  \<open>chrono\<close> is a parameter: which instants exist (\<open>valid\<close>), how an instant is printed in the local
  zone (\<open>hm\<close> for \<open>%H:%M\<close>, \<open>day\<close> for the date) and how RFC 3339 text is read.
\<close>

subsection \<open>Tasks\<close>

type_synonym instant = int

definition SCHEDULE_ID_PREFIX :: string where
  "SCHEDULE_ID_PREFIX = ''schedule:''"

definition WORKER_DEFAULT_TIMEOUT_SECS :: nat where
  "WORKER_DEFAULT_TIMEOUT_SECS = 2 * 3600"

definition WORKER_MAX_TIMEOUT_SECS :: nat where
  "WORKER_MAX_TIMEOUT_SECS = 8 * 3600"

datatype task_kind = Command string | Worker string

datatype task_status = Proposed | Pending | TRunning

record task =
  tk_id :: string
  tk_kind :: task_kind
  tk_follow_up :: "string option"
  tk_at :: instant
  tk_timeout_secs :: "nat option"
  tk_status :: task_status
  tk_late :: bool
  tk_deadline :: "instant option"

fun is_command :: "task_kind \<Rightarrow> bool" where
  "is_command (Command _) = True"
| "is_command (Worker _) = False"

definition is_worker_task :: "task \<Rightarrow> bool" where
  "is_worker_task t \<longleftrightarrow> \<not> is_command (tk_kind t)"

definition schedule_watch_id :: "string \<Rightarrow> string" where
  "schedule_watch_id i = SCHEDULE_ID_PREFIX @ i"

definition WORKER_ID_PREFIX :: string where
  "WORKER_ID_PREFIX = ''sched-''"

definition worker_id :: "string \<Rightarrow> string" where
  "worker_id i = WORKER_ID_PREFIX @ i"

subsection \<open>Spans of time\<close>

definition unit_secs :: "string \<Rightarrow> nat option" where
  "unit_secs ch = (if ch = ''h'' then Some 3600 else if ch = ''m'' then Some 60 else if ch = ''s'' then Some 1 else None)"

definition after_error :: "string \<Rightarrow> string \<Rightarrow> string" where
  "after_error raw what = ''after '' @ quoted raw @ what"

text \<open>The \<open>while\<close> loop of \<open>parse_after\<close>.\<close>

function parse_units :: "string \<Rightarrow> string \<Rightarrow> nat \<Rightarrow> nat \<Rightarrow> nat result" where
  "parse_units raw rest acc previous =
     (if rest = [] then Inr acc
      else let tail = dropWhile is_digit rest
        in case chars_of tail of
             [] \<Rightarrow> Inl (after_error raw '' is missing a unit (h, m or s).'')
           | c # _ \<Rightarrow> (case parse_uint u64_max (takeWhile is_digit rest) of
               None \<Rightarrow> Inl (after_error raw '' must use whole numbers like 1h30m.'')
             | Some amount \<Rightarrow> (case unit_secs c of
                 None \<Rightarrow> Inl (after_error raw ('' has unknown unit '' @ quoted c @ ''.''))
               | Some u \<Rightarrow>
                   if previous \<le> u then Inl (after_error raw '' must list each unit once, largest first.'')
                   else (case Option.bind (checked_mul amount u) (checked_add acc) of
                       None \<Rightarrow> Inl (after_error raw '' is too large.'')
                     | Some acc' \<Rightarrow> parse_units raw (drop (length c) tail) acc' u))))"
  by pat_completeness auto
termination
proof (relation "measure (\<lambda>(raw, rest, acc, previous). length rest)", goal_cases)
  case (2 raw rest acc previous tail c cs amount u acc')
  have c: "c \<noteq> []" using 2 chars_of_nonempty [of c tail] by simp
  have "chars_of tail = c # cs" using 2 by simp
  then have t: "tail \<noteq> []" by (metis chars_of.simps(1) list.distinct(1))
  have "length (drop (length c) tail) < length tail" using c t by (cases c; cases tail) auto
  also have "length tail \<le> length rest" using 2 length_dropWhile_le [of is_digit rest] by simp
  finally show ?case by simp
qed simp

declare parse_units.simps [simp del]

definition parse_after :: "string \<Rightarrow> duration result" where
  "parse_after raw =
     (let s = trim raw
      in if s = [] then Inl ''after must not be empty.''
         else bind_result (parse_units raw s 0 u64_max) (\<lambda>n.
           if n = 0 then Inl ''after must be longer than zero.'' else Inr (from_secs n)))"

definition span_part :: "nat \<Rightarrow> char \<Rightarrow> string" where
  "span_part n u = (if n = 0 then [] else dec n @ [u])"

definition format_span :: "nat \<Rightarrow> string" where
  "format_span secs =
     (let parts = span_part (secs div 3600) (CHR ''h'') @ span_part (secs mod 3600 div 60) (CHR ''m'') @ span_part (secs mod 60) (CHR ''s'')
      in if parts = [] then ''0s'' else parts)"

subsection \<open>What the person is asked\<close>

definition hex2 :: "nat \<Rightarrow> string" where
  "hex2 n = replicate (2 - length (hex n)) (CHR ''0'') @ map ascii_lower (hex n)"

definition spoof_char :: "nat \<Rightarrow> bool" where
  "spoof_char c \<longleftrightarrow> 0x200b \<le> c \<and> c \<le> 0x200f \<or> 0x202a \<le> c \<and> c \<le> 0x202e \<or> 0x2066 \<le> c \<and> c \<le> 0x2069 \<or> c = 0xfeff"

definition backslash :: string where
  "backslash = [CHR 0x5C]"

definition escape_char :: "string \<Rightarrow> string" where
  "escape_char ch =
     (if ch = newline then backslash @ ''n''
      else if ch = [CHR 0x0D] then backslash @ ''r''
      else if ch = [CHR 0x09] then backslash @ ''t''
      else if is_control ch then backslash @ ''x'' @ hex2 (code_point ch)
      else if spoof_char (code_point ch) then backslash @ ''u{'' @ map ascii_lower (hex4 (code_point ch)) @ ''}''
      else ch)"

definition escape_controls :: "string \<Rightarrow> string" where
  "escape_controls s = concat (map escape_char (chars_of s))"

definition indent_brief :: "string \<Rightarrow> string" where
  "indent_brief brief = join newline (map (\<lambda>l. ''  '' @ escape_controls l) (lines brief))"

text \<open>Seconds between two instants, truncated towards zero as \<open>num_seconds\<close> does.\<close>

definition secs_between :: "instant \<Rightarrow> instant \<Rightarrow> int" where
  "secs_between a b = (let d = a - b in if 0 \<le> d then d div 10 ^ 9 else - (- d div 10 ^ 9))"

definition timeout_or_default :: "task \<Rightarrow> nat" where
  "timeout_or_default t = (case tk_timeout_secs t of Some s \<Rightarrow> s | None \<Rightarrow> WORKER_DEFAULT_TIMEOUT_SECS)"

definition when_label :: "(instant \<Rightarrow> string) \<Rightarrow> (instant \<Rightarrow> string) \<Rightarrow> task \<Rightarrow> instant \<Rightarrow> string" where
  "when_label hm day t now = (if day (tk_at t) = day now then hm (tk_at t) else day (tk_at t) @ '' '' @ hm (tk_at t))"

definition approval_question ::
  "(instant \<Rightarrow> string) \<Rightarrow> (instant \<Rightarrow> string) \<Rightarrow> task \<Rightarrow> instant \<Rightarrow> duration \<Rightarrow> string" where
  "approval_question hm day t now default_timeout =
     (let remaining = secs_between (tk_at t) now;
          relative = (if 0 < remaining then ''in '' @ format_span (nat remaining) else ''now'');
          (heading, timeout) = (case tk_kind t of
             Command command \<Rightarrow>
               (''Scheduled command '' @ escape_controls (tk_id t) @ '':'' @ newline @ ''  '' @ escape_controls command @ newline,
                case tk_timeout_secs t of Some s \<Rightarrow> ''timeout '' @ format_span s
                | None \<Rightarrow> ''default timeout '' @ format_span (as_secs default_timeout))
           | Worker brief \<Rightarrow>
               (''Scheduled worker '' @ escape_controls (tk_id t) @ '':'' @ newline @ indent_brief brief @ newline
                  @ ''Base: origin/main at fire time. Never pushes.'' @ newline,
                ''timeout '' @ format_span (timeout_or_default t)))
      in heading @ ''Runs at '' @ when_label hm day t now @ '' ('' @ relative @ ''), '' @ timeout @ ''.'' @ newline @ ''Arm it? [y/n] '')"

datatype answer = Yes | No | Ask

definition parse_answer :: "string \<Rightarrow> answer" where
  "parse_answer raw =
     (let s = map ascii_lower (trim raw)
      in if s = ''y'' \<or> s = ''yes'' then Yes else if s = ''n'' \<or> s = ''no'' then No else Ask)"

subsection \<open>Which tasks run, and when\<close>

definition due :: "task list \<Rightarrow> instant \<Rightarrow> task list" where
  "due tasks now = filter (\<lambda>t. tk_status t = Pending \<and> tk_at t \<le> now) tasks"

definition restore_task :: "instant \<Rightarrow> string list \<Rightarrow> task \<Rightarrow> task" where
  "restore_task now alive t = (case tk_status t of
     TRunning \<Rightarrow>
       if is_worker_task t \<and> worker_id (tk_id t) \<in> set alive then t
       else t\<lparr>tk_status := Pending, tk_late := (tk_late t \<or> tk_at t < now), tk_deadline := None\<rparr>
   | Pending \<Rightarrow> t\<lparr>tk_late := (tk_late t \<or> tk_at t < now)\<rparr>
   | Proposed \<Rightarrow> t)"

definition plan_restore :: "task list \<Rightarrow> instant \<Rightarrow> string list \<Rightarrow> task list" where
  "plan_restore tasks now alive = map (restore_task now alive) tasks"

record tick_plan =
  tp_fire :: "task list"
  tp_finished :: "task list"

definition plan_tick :: "task list \<Rightarrow> string list \<Rightarrow> instant \<Rightarrow> tick_plan" where
  "plan_tick tasks active now =
     \<lparr>tp_fire = filter (\<lambda>t. is_command (tk_kind t)) (due tasks now),
      tp_finished = filter (\<lambda>t. is_command (tk_kind t) \<and> tk_status t = TRunning \<and> schedule_watch_id (tk_id t) \<notin> set active) tasks\<rparr>"

definition late_notice :: "(instant \<Rightarrow> string) \<Rightarrow> task \<Rightarrow> instant \<Rightarrow> string" where
  "late_notice hm t now = ''Ran late: due '' @ hm (tk_at t) @ '', started '' @ hm now @ ''.''"

definition follow_up :: "(instant \<Rightarrow> string) \<Rightarrow> task \<Rightarrow> instant \<Rightarrow> string option" where
  "follow_up hm t now =
     (if \<not> tk_late t then tk_follow_up t
      else Some (case tk_follow_up t of Some s \<Rightarrow> late_notice hm t now @ newline @ s | None \<Rightarrow> late_notice hm t now))"

definition to_watch_spec :: "(instant \<Rightarrow> string) \<Rightarrow> task \<Rightarrow> instant \<Rightarrow> watch_spec option" where
  "to_watch_spec hm t now = (case tk_kind t of
     Command command \<Rightarrow> Some \<lparr>ws_id = schedule_watch_id (tk_id t), ws_command = command,
       ws_follow_up = follow_up hm t now, ws_kind = Normal,
       ws_timeout = map_option from_secs (tk_timeout_secs t), ws_limit = map_option from_secs (tk_timeout_secs t)\<rparr>
   | Worker _ \<Rightarrow> None)"

text \<open>\<open>sort_by\<close> the time and then the id: a stable insertion sort; ids are compared as byte strings.\<close>

definition sooner :: "task \<Rightarrow> task \<Rightarrow> bool" where
  "sooner a b \<longleftrightarrow> tk_at a < tk_at b \<or> tk_at a = tk_at b \<and> bytes_le (tk_id a) (tk_id b)"

fun insert_task :: "task \<Rightarrow> task list \<Rightarrow> task list" where
  "insert_task t [] = [t]"
| "insert_task t (u # us) = (if sooner t u then t # u # us else u # insert_task t us)"

definition by_time :: "task list \<Rightarrow> task list" where
  "by_time ts = foldr insert_task ts []"

definition proposed :: "task list \<Rightarrow> task list" where
  "proposed tasks = by_time (filter (\<lambda>t. tk_status t = Proposed) tasks)"

subsection \<open>Worker tasks\<close>

definition WORKER_CAP :: nat where
  "WORKER_CAP = 2"

definition STARTUP_GRACE_SECS :: int where
  "STARTUP_GRACE_SECS = 60"

datatype worker_end = EDone | EAttention | ETimedOut | EVanished

record worker_fire =
  wf_task :: task
  wf_late :: bool

record worker_tick_plan =
  wp_ended :: "(task \<times> worker_end) list"
  wp_fire :: "worker_fire list"

definition secs :: "int \<Rightarrow> int" where
  "secs n = n * 10 ^ 9"

definition checked_instant :: "(instant \<Rightarrow> bool) \<Rightarrow> instant \<Rightarrow> instant option" where
  "checked_instant valid t = (if valid t then Some t else None)"

definition timeout_of :: "task \<Rightarrow> int" where
  "timeout_of t = secs (int (timeout_or_default t))"

definition worker_deadline :: "(instant \<Rightarrow> bool) \<Rightarrow> task \<Rightarrow> instant \<Rightarrow> instant" where
  "worker_deadline valid t now =
     (case checked_instant valid (now + timeout_of t) of Some d \<Rightarrow> d | None \<Rightarrow> now)"

definition started_at :: "(instant \<Rightarrow> bool) \<Rightarrow> task \<Rightarrow> instant" where
  "started_at valid t =
     (case Option.bind (tk_deadline t) (\<lambda>d. checked_instant valid (d - timeout_of t)) of
        Some s \<Rightarrow> s | None \<Rightarrow> tk_at t)"

definition worker_brief :: "(instant \<Rightarrow> string) \<Rightarrow> task \<Rightarrow> instant \<Rightarrow> string option" where
  "worker_brief hm t now = (case tk_kind t of
     Worker brief \<Rightarrow> Some (if tk_late t then late_notice hm t now @ newline @ newline @ brief else brief)
   | Command _ \<Rightarrow> None)"

text \<open>\<open>rfc3339\<close> is \<open>DateTime::parse_from_rfc3339\<close>.\<close>

definition report_counts :: "(instant \<Rightarrow> bool) \<Rightarrow> (string \<Rightarrow> instant option) \<Rightarrow> task \<Rightarrow> report \<Rightarrow> bool" where
  "report_counts valid rfc3339 t r \<longleftrightarrow>
     rp_worker r = worker_id (tk_id t) \<and>
     (case rfc3339 (rp_at r) of Some at \<Rightarrow> started_at valid t \<le> at | None \<Rightarrow> False)"

fun end_of_status :: "report_status \<Rightarrow> worker_end" where
  "end_of_status Done = EDone"
| "end_of_status Blocked = EAttention"
| "end_of_status Question = EAttention"

definition report_end ::
  "(instant \<Rightarrow> bool) \<Rightarrow> (string \<Rightarrow> instant option) \<Rightarrow> task \<Rightarrow> report list \<Rightarrow> worker_end option" where
  "report_end valid rfc3339 t reports =
     (let known = List.map_filter (\<lambda>r. find (\<lambda>s. status_name s = rp_status r) ALL_STATUSES)
            (filter (report_counts valid rfc3339 t) reports)
      in if known = [] then None else Some (end_of_status (last known)))"

definition running_end ::
  "(instant \<Rightarrow> bool) \<Rightarrow> (string \<Rightarrow> instant option) \<Rightarrow> task \<Rightarrow> report list \<Rightarrow> string list \<Rightarrow> instant \<Rightarrow> worker_end option" where
  "running_end valid rfc3339 t reports alive now =
     (case (case tk_deadline t of Some d \<Rightarrow> Some d
            | None \<Rightarrow> checked_instant valid (started_at valid t + timeout_of t)) of
        None \<Rightarrow> None
      | Some deadline \<Rightarrow> (case report_end valid rfc3339 t reports of
          Some e \<Rightarrow> Some e
        | None \<Rightarrow>
            if deadline \<le> now then Some ETimedOut
            else if worker_id (tk_id t) \<notin> set alive \<and> started_at valid t + secs STARTUP_GRACE_SECS \<le> now
              then Some EVanished
            else None))"

definition worker_tick ::
  "(task \<Rightarrow> worker_end option) \<Rightarrow> task list \<Rightarrow> instant \<Rightarrow> int \<Rightarrow> worker_tick_plan" where
  "worker_tick end_of tasks now tick =
     (let running = by_time (filter (\<lambda>t. is_worker_task t \<and> tk_status t = TRunning) tasks);
          still = filter (\<lambda>t. end_of t = None) running;
          due = by_time (filter (\<lambda>t. is_worker_task t \<and> tk_status t = Pending \<and> tk_at t \<le> now) tasks)
      in \<lparr>wp_ended = List.map_filter (\<lambda>t. map_option (\<lambda>e. (t, e)) (end_of t)) running,
          wp_fire = map (\<lambda>t. \<lparr>wf_task = t, wf_late = (tk_late t \<or> tick < now - tk_at t)\<rparr>)
            (take (WORKER_CAP - length still) due)\<rparr>)"

definition plan_worker_tick ::
  "(instant \<Rightarrow> bool) \<Rightarrow> (string \<Rightarrow> instant option) \<Rightarrow> task list \<Rightarrow> report list \<Rightarrow> string list \<Rightarrow> instant \<Rightarrow> int
     \<Rightarrow> worker_tick_plan" where
  "plan_worker_tick valid rfc3339 tasks reports alive now tick =
     worker_tick (\<lambda>t. running_end valid rfc3339 t reports alive now) tasks now tick"

definition alive_with_starting :: "string list \<Rightarrow> string list \<Rightarrow> string list" where
  "alive_with_starting alive starting = alive @ map worker_id starting"

definition is_still_running :: "task list \<Rightarrow> string \<Rightarrow> bool" where
  "is_still_running tasks i = list_ex (\<lambda>t. tk_id t = i \<and> tk_status t = TRunning) tasks"

definition is_scheduled_worker_id :: "string \<Rightarrow> bool" where
  "is_scheduled_worker_id i = starts_with WORKER_ID_PREFIX i"

definition reply_refusal :: "string \<Rightarrow> task list \<Rightarrow> string option" where
  "reply_refusal i tasks =
     map_option (\<lambda>t. ''Worker '' @ i @ '' belongs to scheduled task `'' @ tk_id t
       @ ''`; it takes no replies. Cancel the task with /schedule cancel '' @ tk_id t @ ''.'')
       (find (\<lambda>t. is_worker_task t \<and> worker_id (tk_id t) = i) tasks)"

definition source_matches_worker :: "string \<Rightarrow> string \<Rightarrow> bool" where
  "source_matches_worker source worker \<longleftrightarrow>
     source = worker \<or>
     (case strip_prefix SCHEDULE_ID_PREFIX source of Some i \<Rightarrow> i \<noteq> [] \<and> worker = worker_id i | None \<Rightarrow> False)"

definition chat_report :: "string \<Rightarrow> string \<Rightarrow> string \<Rightarrow> report" where
  "chat_report task_id s at =
     \<lparr>rp_worker = schedule_watch_id task_id, rp_at = at, rp_status = WATCH_STATUS, rp_text = s\<rparr>"

definition start_failure_text :: "string \<Rightarrow> string \<Rightarrow> string" where
  "start_failure_text task_id err = ''Scheduled worker `'' @ task_id @ ''` did not start: '' @ err @ ''.''"

definition kept_text :: "task \<Rightarrow> string" where
  "kept_text t = ''Worktree and branch '' @ branch_name (worker_id (tk_id t)) @ '' are kept.''"

definition timed_out_text :: "task \<Rightarrow> string option \<Rightarrow> string" where
  "timed_out_text t stop_error =
     ''Scheduled worker `'' @ tk_id t @ ''` timed out after '' @ format_span (timeout_or_default t) @ ''. '' @
     (case stop_error of None \<Rightarrow> ''Its harness was stopped.''
      | Some e \<Rightarrow> ''Its harness could not be stopped: '' @ e @ ''.'') @ '' '' @ kept_text t"

definition vanished_text :: "task \<Rightarrow> string" where
  "vanished_text t = ''Scheduled worker `'' @ tk_id t @ ''` stopped without a report. '' @ kept_text t"

definition is_new_report :: "report list \<Rightarrow> report \<Rightarrow> bool" where
  "is_new_report known r \<longleftrightarrow>
     starts_with WORKER_ID_PREFIX (rp_worker r) \<and> list_ex (\<lambda>s. status_name s = rp_status r) ALL_STATUSES \<and>
     \<not> list_ex (\<lambda>old. rp_worker old = rp_worker r \<and> rp_at old = rp_at r) known"

fun new_reports_loop :: "report list \<Rightarrow> report list \<Rightarrow> report list \<Rightarrow> report list" where
  "new_reports_loop known fresh [] = fresh"
| "new_reports_loop known fresh (r # rs) =
     new_reports_loop known (if is_new_report (known @ fresh) r then fresh @ [r] else fresh) rs"

definition new_scheduled_reports :: "report list \<Rightarrow> report list \<Rightarrow> report list" where
  "new_scheduled_reports known incoming = new_reports_loop known [] incoming"

subsection \<open>Requests\<close>

datatype when_spec = At string | After duration

record schedule_request =
  sq_id :: string
  sq_kind :: task_kind
  sq_follow_up :: "string option"
  sq_when :: when_spec
  sq_timeout_secs :: "nat option"

text \<open>
  What \<open>parse_at\<close> takes from \<open>chrono\<close> and the time zone: RFC 3339 text and \<open>HH:MM\<close> text read, an
  instant as local day and time of day, the instants a local day and time stand for (none in a gap,
  two in an overlap, earliest first), and the texts of a day and an instant.
\<close>

record zone =
  zn_rfc3339 :: "string \<Rightarrow> instant option"
  zn_hm :: "string \<Rightarrow> int option"
  zn_local :: "instant \<Rightarrow> int \<times> int"
  zn_resolve :: "int \<Rightarrow> int \<Rightarrow> instant list"
  zn_day_text :: "int \<Rightarrow> string"
  zn_instant_text :: "instant \<Rightarrow> string"

definition at_error :: "string \<Rightarrow> string \<Rightarrow> string" where
  "at_error raw what = ''at '' @ quoted raw @ what"

text \<open>The \<open>for\<close> loop over today and tomorrow.\<close>

fun try_days :: "zone \<Rightarrow> string \<Rightarrow> instant \<Rightarrow> int \<Rightarrow> int list \<Rightarrow> instant result" where
  "try_days z raw now time [] = Inl (at_error raw '' is not a valid local time.'')"
| "try_days z raw now time (day # days) =
     (let resolved = zn_resolve z day time; (today, clock) = zn_local z now
      in if resolved = [] \<and> (today < day \<or> today = day \<and> clock < time)
         then Inl (at_error raw ('' does not exist on '' @ zn_day_text z day @ '' in the local time zone (a daylight saving change skips it). Give another time, or use after.''))
         else (case find (\<lambda>m. now < m) resolved of
             Some moment \<Rightarrow> Inr moment
           | None \<Rightarrow> try_days z raw now time days))"

definition parse_at :: "zone \<Rightarrow> string \<Rightarrow> instant \<Rightarrow> instant result" where
  "parse_at z raw now =
     (let s = trim raw
      in case zn_rfc3339 z s of
           Some moment \<Rightarrow>
             if moment \<le> now
             then Inl (at_error raw ('' is in the past (now is '' @ zn_instant_text z now @ ''). Give a future time, or use after.''))
             else Inr moment
         | None \<Rightarrow> (case zn_hm z s of
             None \<Rightarrow> Inl (at_error raw '' must be an RFC 3339 timestamp or a local HH:MM time.'')
           | Some time \<Rightarrow> (let today = fst (zn_local z now) in try_days z raw now time [today, today + 1])))"

text \<open>\<open>delay_ok\<close>: whether \<open>ChronoDuration::from_std\<close> can hold the delay.\<close>

definition into_task ::
  "(instant \<Rightarrow> bool) \<Rightarrow> (duration \<Rightarrow> bool) \<Rightarrow> zone \<Rightarrow> schedule_request \<Rightarrow> instant \<Rightarrow> task result" where
  "into_task valid delay_ok z r now =
     bind_result
       (case sq_when r of
          At raw \<Rightarrow> parse_at z raw now
        | After delay \<Rightarrow>
            (if delay_ok delay \<and> valid (now + int delay) then Inr (now + int delay) else Inl ''after is too large.''))
       (\<lambda>at. Inr \<lparr>tk_id = sq_id r, tk_kind = sq_kind r, tk_follow_up = sq_follow_up r, tk_at = at,
          tk_timeout_secs = sq_timeout_secs r, tk_status = Proposed, tk_late = False, tk_deadline = None\<rparr>)"

definition optional_string :: "args \<Rightarrow> string \<Rightarrow> string option result" where
  "optional_string a key = (case a key of
     None \<Rightarrow> Inr None
   | Some ANull \<Rightarrow> Inr None
   | Some _ \<Rightarrow> bind_result (string_arg a key) (\<lambda>s. Inr (Some s)))"

definition when_arg :: "args \<Rightarrow> when_spec result" where
  "when_arg a =
     bind_result (optional_string a ''at'') (\<lambda>at.
     bind_result (optional_string a ''after'') (\<lambda>aft.
       case (at, aft) of
         (Some raw, None) \<Rightarrow> Inr (At raw)
       | (None, Some raw) \<Rightarrow> bind_result (parse_after raw) (\<lambda>d. Inr (After d))
       | _ \<Rightarrow> Inl ''Give exactly one of at or after.''))"

definition is_dashed_token :: "string \<Rightarrow> bool" where
  "is_dashed_token s \<longleftrightarrow> list_all (\<lambda>c. is_ascii_alnum c \<or> c = CHR ''-'') s"

definition kind_arg :: "string \<Rightarrow> string option \<Rightarrow> nat option \<Rightarrow> string option \<Rightarrow> string option \<Rightarrow> task_kind result" where
  "kind_arg i follow timeout_secs command brief = (case (command, brief) of
     (Some c, None) \<Rightarrow> Inr (Command c)
   | (None, Some b) \<Rightarrow>
       if follow \<noteq> None then Inl ''follow_up applies to commands only.''
       else if \<not> is_dashed_token i
         then Inl (''Schedule id '' @ quoted (escape_controls i) @ '' for a worker may only use letters, digits and dashes.'')
       else if (case timeout_secs of Some s \<Rightarrow> WORKER_MAX_TIMEOUT_SECS < s | None \<Rightarrow> False)
         then Inl (''timeout_secs for a worker must be at most '' @ dec WORKER_MAX_TIMEOUT_SECS @ '' (8 hours).'')
       else Inr (Worker b)
   | _ \<Rightarrow> Inl ''Give exactly one of command or brief.'')"

definition parse_schedule_request :: "args \<Rightarrow> schedule_request result" where
  "parse_schedule_request a =
     bind_result (string_arg a ''id'') (\<lambda>i.
       if list_ex (\<lambda>c. c = ''/'' \<or> is_ws c \<or> is_control c) (chars_of i)
       then Inl (''Schedule id '' @ quoted (escape_controls i) @ '' must not contain spaces, slashes or control characters.'')
       else
         bind_result (optional_string a ''follow_up'') (\<lambda>follow.
         bind_result (timeout_arg a) (\<lambda>timeout_secs.
         bind_result (optional_string a ''command'') (\<lambda>command.
         bind_result (optional_string a ''brief'') (\<lambda>brief.
         bind_result (kind_arg i follow timeout_secs command brief) (\<lambda>kind.
         bind_result (when_arg a) (\<lambda>whn.
           Inr \<lparr>sq_id = i, sq_kind = kind, sq_follow_up = follow, sq_when = whn, sq_timeout_secs = timeout_secs\<rparr>)))))))"

subsection \<open>The command\<close>

datatype schedule_command = SList | SCancel string | SUsage

definition parse_schedule_command :: "string \<Rightarrow> schedule_command" where
  "parse_schedule_command a = (case split_whitespace a of
     [] \<Rightarrow> SList
   | [x] \<Rightarrow> if x = ''list'' then SList else SUsage
   | [x, i] \<Rightarrow>
       if x = ''cancel''
       then (let i' = (case strip_prefix SCHEDULE_ID_PREFIX i of Some j \<Rightarrow> j | None \<Rightarrow> i)
             in if i' = [] then SUsage else SCancel i')
       else SUsage
   | _ \<Rightarrow> SUsage)"

datatype cancel_stop = StopWatch string | StopWorker string

datatype cancel_plan = Remove string "cancel_stop option" | Unknown string

definition plan_cancel :: "string \<Rightarrow> task list \<Rightarrow> cancel_plan" where
  "plan_cancel i tasks = (case find (\<lambda>t. tk_id t = i) tasks of
     Some t \<Rightarrow> Remove (tk_id t)
       (if tk_status t = TRunning
        then Some (case tk_kind t of
          Command _ \<Rightarrow> StopWatch (schedule_watch_id (tk_id t)) | Worker _ \<Rightarrow> StopWorker (worker_id (tk_id t)))
        else None)
   | None \<Rightarrow> Unknown i)"

fun cancel_message :: "cancel_plan \<Rightarrow> string" where
  "cancel_message (Remove i None) = ''Cancelled scheduled task '' @ i @ ''.''"
| "cancel_message (Remove i (Some (StopWatch _))) = ''Cancelled scheduled task '' @ i @ '' and stopped its running watch.''"
| "cancel_message (Remove i (Some (StopWorker w))) =
     ''Cancelled scheduled task '' @ i @ '': stopped worker '' @ w @ '', kept its branch worker/'' @ w @ ''.''"
| "cancel_message (Unknown i) = ''No scheduled task '' @ i @ ''. /schedule list shows the tasks.''"

fun status_label :: "task_status \<Rightarrow> string" where
  "status_label Proposed = ''proposed''"
| "status_label Pending = ''armed''"
| "status_label TRunning = ''running''"

fun kind_label :: "task_kind \<Rightarrow> string" where
  "kind_label (Command _) = ''cmd''"
| "kind_label (Worker _) = ''worker''"

definition relative_label :: "task \<Rightarrow> instant \<Rightarrow> string" where
  "relative_label t now =
     (let remaining = secs_between (tk_at t) now;
          relative = (if 0 < remaining then ''in '' @ format_span (nat remaining) else ''due'')
      in if tk_late t then relative @ '' late'' else relative)"

definition task_text :: "task \<Rightarrow> string" where
  "task_text t = (case tk_kind t of
     Command command \<Rightarrow> command
   | Worker brief \<Rightarrow>
       let first = (case lines brief of l # _ \<Rightarrow> l | [] \<Rightarrow> [])
       in if tk_status t = TRunning then worker_id (tk_id t) @ '': '' @ first else first)"

text \<open>\<open>{:<w}\<close>: padded with blanks to a number of characters.\<close>

definition pad_right :: "nat \<Rightarrow> string \<Rightarrow> string" where
  "pad_right w s = s @ replicate (w - length (chars_of s)) (CHR '' '')"

definition task_row :: "(instant \<Rightarrow> string) \<Rightarrow> (instant \<Rightarrow> string) \<Rightarrow> instant \<Rightarrow> task \<Rightarrow> string list" where
  "task_row hm day now t =
     [escape_controls (tk_id t), kind_label (tk_kind t), status_label (tk_status t), when_label hm day t now, relative_label t now]"

definition column_width :: "string list list \<Rightarrow> nat \<Rightarrow> nat" where
  "column_width rows column = foldr (\<lambda>row m. max (length (chars_of (row ! column))) m) rows 0"

definition list_tasks :: "(instant \<Rightarrow> string) \<Rightarrow> (instant \<Rightarrow> string) \<Rightarrow> task list \<Rightarrow> instant \<Rightarrow> string" where
  "list_tasks hm day tasks now =
     (if tasks = [] then ''No scheduled tasks.''
      else let sorted = by_time tasks; rows = map (task_row hm day now) sorted;
               widths = map (column_width rows) [0..<5]
        in join newline (map (\<lambda>(row, t). concat (map (\<lambda>(w, cell). pad_right w cell @ ''  '') (zip widths row))
             @ escape_controls (task_text t)) (zip rows sorted)))"

end
