(* ===== verification/Scheduler.thy ===== *)
theory Scheduler
  imports Schedule
begin

section \<open>The scheduler of a chat\<close>

text \<open>
  The store of tasks and what the chat does to it: \<open>crates/ralph/src/chat/schedule.rs\<close>,
  \<open>chat/schedule_worker.rs\<close>, \<open>chat/socket.rs\<close> (\<open>propose_schedule\<close>) and \<open>schedule_store.rs\<close>. One
  file per task id; errors of the file system are not modelled. \<open>sd_armed\<close> records the ids and
  commands or briefs the person has said yes to and whose task still exists; it is kept for the
  statements only and no operation reads it.
\<close>

definition save_task :: "task \<Rightarrow> task list \<Rightarrow> task list" where
  "save_task t ts =
     (if list_ex (\<lambda>u. tk_id u = tk_id t) ts then map (\<lambda>u. if tk_id u = tk_id t then t else u) ts else ts @ [t])"

definition remove_task :: "string \<Rightarrow> task list \<Rightarrow> task list" where
  "remove_task i ts = filter (\<lambda>t. tk_id t \<noteq> i) ts"

record sched =
  sd_tasks :: "task list"
  sd_armed :: "(string \<times> task_kind) set"

definition sd_save :: "task \<Rightarrow> sched \<Rightarrow> sched" where
  "sd_save t s = s\<lparr>sd_tasks := save_task t (sd_tasks s)\<rparr>"

definition sd_remove :: "string \<Rightarrow> sched \<Rightarrow> sched" where
  "sd_remove i s = s\<lparr>sd_tasks := remove_task i (sd_tasks s), sd_armed := {a \<in> sd_armed s. fst a \<noteq> i}\<rparr>"

text \<open>\<open>propose_schedule\<close>.\<close>

definition propose_schedule ::
  "(instant \<Rightarrow> bool) \<Rightarrow> (duration \<Rightarrow> bool) \<Rightarrow> zone \<Rightarrow> schedule_request \<Rightarrow> instant \<Rightarrow> sched \<Rightarrow> string result \<times> sched" where
  "propose_schedule valid delay_ok z r now s =
     (if list_ex (\<lambda>t. tk_id t = sq_id r) (sd_tasks s)
      then (Inl (''schedule `'' @ sq_id r @ ''` already exists''), s)
      else case into_task valid delay_ok z r now of
        Inl e \<Rightarrow> (Inl e, s)
      | Inr t \<Rightarrow> (Inr (''schedule `'' @ tk_id t @ ''` proposed; the chat will ask the person to approve it; do not suggest a reply to approve it''), sd_save t s))"

text \<open>
  \<open>ask_answer\<close>: the question is repeated until a line answers it; \<open>None\<close> when there is no further
  line. A refusal and no answer both cancel.
\<close>

fun ask_answer :: "string list \<Rightarrow> bool option \<times> string list" where
  "ask_answer [] = (None, [])"
| "ask_answer (l # ls) = (case parse_answer l of Yes \<Rightarrow> (Some True, ls) | No \<Rightarrow> (Some False, ls) | Ask \<Rightarrow> ask_answer ls)"

fun approve_loop :: "task list \<Rightarrow> string list \<Rightarrow> sched \<Rightarrow> sched" where
  "approve_loop [] ls s = s"
| "approve_loop (t # ts) ls s =
     (case ask_answer ls of (a, ls') \<Rightarrow>
        approve_loop ts ls' (if a = Some True then sd_save (t\<lparr>tk_status := Pending\<rparr>) s else sd_remove (tk_id t) s))"

definition approve_proposed :: "string list \<Rightarrow> sched \<Rightarrow> bool \<times> sched" where
  "approve_proposed ls s = (let ts = proposed (sd_tasks s) in (ts \<noteq> [], approve_loop ts ls s))"

definition restore_schedule :: "instant \<Rightarrow> string list \<Rightarrow> sched \<Rightarrow> sched" where
  "restore_schedule now alive s =
     foldl (\<lambda>s t. sd_save t s) s
       (filter (\<lambda>t. t \<notin> set (sd_tasks s)) (plan_restore (sd_tasks s) now alive))"

text \<open>\<open>fire_due\<close>: \<open>starts\<close> says whether the watch of a task can be started.\<close>

definition fire_one :: "(string \<Rightarrow> bool) \<Rightarrow> sched \<Rightarrow> task \<Rightarrow> sched" where
  "fire_one starts s t =
     (if starts (tk_id t) then sd_save (t\<lparr>tk_status := TRunning\<rparr>) s else sd_remove (tk_id t) s)"

definition fire_due :: "(string \<Rightarrow> bool) \<Rightarrow> string list \<Rightarrow> instant \<Rightarrow> sched \<Rightarrow> sched" where
  "fire_due starts active now s =
     (let p = plan_tick (sd_tasks s) active now
      in foldl (fire_one starts) (foldl (\<lambda>s t. sd_remove (tk_id t) s) s (tp_finished p)) (tp_fire p))"

text \<open>\<open>tick_workers\<close>, \<open>end_task\<close>, \<open>start_task\<close>.\<close>

definition started_task :: "(instant \<Rightarrow> bool) \<Rightarrow> instant \<Rightarrow> worker_fire \<Rightarrow> task" where
  "started_task valid now f =
     (wf_task f)\<lparr>tk_status := TRunning, tk_late := wf_late f, tk_deadline := Some (worker_deadline valid (wf_task f) now)\<rparr>"

definition tick_workers ::
  "(instant \<Rightarrow> bool) \<Rightarrow> (task \<Rightarrow> worker_end option) \<Rightarrow> instant \<Rightarrow> int \<Rightarrow> sched \<Rightarrow> sched" where
  "tick_workers valid end_of now tick s =
     (let p = worker_tick end_of (sd_tasks s) now tick
      in foldl (\<lambda>s f. sd_save (started_task valid now f) s)
           (foldl (\<lambda>s (t, e). sd_remove (tk_id t) s) s (wp_ended p)) (wp_fire p))"

text \<open>
  What the person said yes to, read off the answers alone: the tasks asked about in order, each with
  the first clear answer among the lines that are left.
\<close>

fun said_yes :: "task list \<Rightarrow> string list \<Rightarrow> (string \<times> task_kind) set" where
  "said_yes [] ls = {}"
| "said_yes (t # ts) ls =
     (case dropWhile (\<lambda>l. parse_answer l = Ask) ls of
        [] \<Rightarrow> {}
      | l # ls' \<Rightarrow> (if parse_answer l = Yes then {(tk_id t, tk_kind t)} else {}) \<union> said_yes ts ls')"

datatype sched_event =
    EvPropose "duration \<Rightarrow> bool" zone schedule_request instant
  | EvApprove "string list"
  | EvRestore instant "string list"
  | EvFire "string \<Rightarrow> bool" "string list" instant
  | EvWorkers "string \<Rightarrow> instant option" "report list" "string list" instant int
  | EvWorkerFailed string
  | EvCancel string

fun sched_step :: "(instant \<Rightarrow> bool) \<Rightarrow> sched_event \<Rightarrow> sched \<Rightarrow> sched" where
  "sched_step valid (EvPropose delay_ok z r now) s = snd (propose_schedule valid delay_ok z r now s)"
| "sched_step valid (EvApprove ls) s =
     (let s' = snd (approve_proposed ls s)
      in s'\<lparr>sd_armed := sd_armed s' \<union> said_yes (proposed (sd_tasks s)) ls\<rparr>)"
| "sched_step valid (EvRestore now alive) s = restore_schedule now alive s"
| "sched_step valid (EvFire starts active now) s = fire_due starts active now s"
| "sched_step valid (EvWorkers rfc3339 reports alive now tick) s =
     tick_workers valid (\<lambda>t. running_end valid rfc3339 t reports alive now) now tick s"
| "sched_step valid (EvWorkerFailed i) s = (if is_still_running (sd_tasks s) i then sd_remove i s else s)"
| "sched_step valid (EvCancel i) s = (case plan_cancel i (sd_tasks s) of Remove j _ \<Rightarrow> sd_remove j s | Unknown _ \<Rightarrow> s)"

text \<open>The tasks an event starts.\<close>

fun fires :: "(instant \<Rightarrow> bool) \<Rightarrow> sched_event \<Rightarrow> sched \<Rightarrow> task list" where
  "fires valid (EvFire starts active now) s =
     filter (\<lambda>t. starts (tk_id t)) (tp_fire (plan_tick (sd_tasks s) active now))"
| "fires valid (EvWorkers rfc3339 reports alive now tick) s =
     map wf_task (wp_fire (plan_worker_tick valid rfc3339 (sd_tasks s) reports alive now tick))"
| "fires valid _ s = []"

inductive sched_reachable :: "(instant \<Rightarrow> bool) \<Rightarrow> sched \<Rightarrow> bool" for valid :: "instant \<Rightarrow> bool" where
  start: "sched_reachable valid \<lparr>sd_tasks = [], sd_armed = {}\<rparr>"
| event: "sched_reachable valid s \<Longrightarrow> sched_reachable valid (sched_step valid e s)"

end
