(* ===== verification/Schedule_Facts.thy ===== *)
theory Schedule_Facts
  imports Scheduler "HOL-Library.Multiset"
begin

section \<open>What holds of scheduled tasks\<close>

subsection \<open>Only armed tasks run, at most two workers at a time\<close>

definition ids :: "sched \<Rightarrow> string list" where
  "ids s = map tk_id (sd_tasks s)"

definition armed_ok :: "sched \<Rightarrow> bool" where
  "armed_ok s \<longleftrightarrow> (\<forall>t \<in> set (sd_tasks s). tk_status t \<noteq> Proposed \<longrightarrow> (tk_id t, tk_kind t) \<in> sd_armed s)"

definition busy_worker :: "task \<Rightarrow> bool" where
  "busy_worker t \<longleftrightarrow> is_worker_task t \<and> tk_status t = TRunning"

definition busy :: "sched \<Rightarrow> nat" where
  "busy s = length (filter busy_worker (sd_tasks s))"

lemma save_armed_ok:
  "armed_ok s \<Longrightarrow> tk_status t \<noteq> Proposed \<longrightarrow> (tk_id t, tk_kind t) \<in> sd_armed s \<Longrightarrow> armed_ok (sd_save t s)"
  by (auto simp: armed_ok_def sd_save_def save_task_def split: if_splits)

lemma remove_armed_ok: "armed_ok s \<Longrightarrow> armed_ok (sd_remove i s)"
  by (auto simp: armed_ok_def sd_remove_def remove_task_def)

lemma ids_save: "ids (sd_save t s) = (if tk_id t \<in> set (ids s) then ids s else ids s @ [tk_id t])"
proof -
  have "list_ex (\<lambda>u. tk_id u = tk_id t) ts \<longleftrightarrow> tk_id t \<in> set (map tk_id ts)" for ts :: "task list"
    by (induction ts) auto
  moreover have "map tk_id (map (\<lambda>u. if tk_id u = tk_id t then t else u) ts) = map tk_id ts" for ts :: "task list"
    by (induction ts) auto
  ultimately show ?thesis by (simp add: ids_def sd_save_def save_task_def del: map_map set_map)
qed

lemma ids_remove: "ids (sd_remove i s) = filter (\<lambda>j. j \<noteq> i) (ids s)"
  by (simp add: ids_def sd_remove_def remove_task_def filter_map comp_def)

lemma sd_armed_save [simp]: "sd_armed (sd_save t s) = sd_armed s"
  by (simp add: sd_save_def)

lemma sd_armed_remove: "a \<in> sd_armed (sd_remove i s) \<longleftrightarrow> a \<in> sd_armed s \<and> fst a \<noteq> i"
  by (simp add: sd_remove_def)

lemma busy_remove: "busy (sd_remove i s) \<le> busy s"
proof -
  have "filter busy_worker (remove_task i ts) = filter (\<lambda>t. tk_id t \<noteq> i) (filter busy_worker ts)" for ts
    by (induction ts) (simp_all add: remove_task_def)
  then have "filter busy_worker (sd_tasks (sd_remove i s)) = filter (\<lambda>t. tk_id t \<noteq> i) (filter busy_worker (sd_tasks s))"
    by (simp add: sd_remove_def)
  then show ?thesis by (metis busy_def length_filter_le)
qed

lemma busy_replace:
  "distinct (map tk_id ts) \<Longrightarrow>
     length (filter busy_worker (map (\<lambda>u. if tk_id u = tk_id t then t else u) ts)) \<le>
     length (filter busy_worker ts) + (if busy_worker t then 1 else 0)"
proof (induction ts)
  case (Cons u us)
  show ?case
  proof (cases "tk_id u = tk_id t")
    case True
    then have "map (\<lambda>u. if tk_id u = tk_id t then t else u) us = us"
      using Cons.prems by (intro map_idI) (auto simp: image_iff)
    then have "map (\<lambda>u. if tk_id u = tk_id t then t else u) (u # us) = t # us" using True by simp
    then show ?thesis by (simp only:) simp
  qed (use Cons in auto)
qed simp

lemma busy_save: "distinct (ids s) \<Longrightarrow> busy (sd_save t s) \<le> busy s + (if busy_worker t then 1 else 0)"
  using busy_replace [of "sd_tasks s" t] by (auto simp: busy_def sd_save_def save_task_def ids_def)

lemma mset_by_time: "mset (by_time ts) = mset ts"
proof -
  have "mset (insert_task t us) = add_mset t (mset us)" for t us
    by (induction us) auto
  then show ?thesis unfolding by_time_def by (induction ts) simp_all
qed

lemma set_by_time [simp]: "set (by_time ts) = set ts"
  using mset_by_time by (metis set_mset_mset)

lemma length_filter_by_time: "length (filter P (by_time ts)) = length (filter P ts)"
  using mset_by_time by (metis mset_filter size_mset)

lemma distinct_by_time: "distinct (map f (by_time ts)) \<longleftrightarrow> distinct (map f ts)"
  using mset_by_time by (metis mset_map mset_eq_imp_distinct_iff)

text \<open>What every operation keeps.\<close>

definition sound :: "sched \<Rightarrow> bool" where
  "sound s \<longleftrightarrow> armed_ok s \<and> distinct (ids s) \<and> busy s \<le> WORKER_CAP"

lemma sound_remove: "sound s \<Longrightarrow> sound (sd_remove i s)"
  using busy_remove [of i s] by (simp add: sound_def remove_armed_ok ids_remove)

lemma sound_save:
  assumes "sound s" and "tk_status t \<noteq> Proposed \<longrightarrow> (tk_id t, tk_kind t) \<in> sd_armed s" and "\<not> busy_worker t"
  shows "sound (sd_save t s)"
  using assms busy_save [of s t] by (simp add: sound_def save_armed_ok ids_save)

lemma sound_propose: "sound s \<Longrightarrow> sound (snd (propose_schedule valid delay_ok z r now s))"
  by (auto simp: propose_schedule_def into_task_def busy_worker_def intro!: sound_save split: sum.split)

text \<open>What the loop arms is what the person said yes to.\<close>

lemma ask_answer_eq:
  "ask_answer ls = (case dropWhile (\<lambda>l. parse_answer l = Ask) ls of
     [] \<Rightarrow> (None, []) | l # ls' \<Rightarrow> (Some (parse_answer l = Yes), ls'))"
  by (induction ls) (auto split: answer.split)

lemma said_yes_Nil [simp]: "said_yes ts [] = {}"
  by (cases ts) simp_all

lemma said_yes_step:
  "ask_answer ls = (a, ls') \<Longrightarrow>
     said_yes (t # ts) ls = (if a = Some True then {(tk_id t, tk_kind t)} else {}) \<union> said_yes ts ls'"
  by (cases "dropWhile (\<lambda>l. parse_answer l = Ask) ls") (auto simp: ask_answer_eq simp del: dropWhile_eq_Nil_conv)

lemma armed_grows:
  "armed_ok s \<Longrightarrow> sd_armed s \<subseteq> A \<Longrightarrow> armed_ok (s\<lparr>sd_armed := A\<rparr>)"
  by (auto simp: armed_ok_def)

lemma sound_grows: "sound s \<Longrightarrow> sd_armed s \<subseteq> A \<Longrightarrow> sound (s\<lparr>sd_armed := A\<rparr>)"
  by (simp add: sound_def armed_grows ids_def busy_def)

lemma sound_approve_loop:
  "sound (s\<lparr>sd_armed := sd_armed s \<union> A\<rparr>) \<Longrightarrow> distinct (map tk_id ts) \<Longrightarrow> fst ` A \<inter> tk_id ` set ts = {} \<Longrightarrow>
   sound ((approve_loop ts ls s)\<lparr>sd_armed := sd_armed (approve_loop ts ls s) \<union> A \<union> said_yes ts ls\<rparr>)"
proof (induction ts ls s arbitrary: A rule: approve_loop.induct)
  case (2 t ts ls s)
  obtain a ls' where a: "ask_answer ls = (a, ls')" by fastforce
  note IH = 2(1) [OF a [symmetric]]
  let ?S = "s\<lparr>sd_armed := sd_armed s \<union> A\<rparr>" and ?x = "(tk_id t, tk_kind t)"
  show ?case
  proof (cases "a = Some True")
    case True
    let ?s = "sd_save (t\<lparr>tk_status := Pending\<rparr>) s"
    have "sound (sd_save (t\<lparr>tk_status := Pending\<rparr>) (?S\<lparr>sd_armed := sd_armed ?S \<union> {?x}\<rparr>))"
      by (intro sound_save sound_grows 2(2)) (auto simp: busy_worker_def)
    moreover have "sd_save (t\<lparr>tk_status := Pending\<rparr>) (?S\<lparr>sd_armed := sd_armed ?S \<union> {?x}\<rparr>) =
        ?s\<lparr>sd_armed := sd_armed ?s \<union> (A \<union> {?x})\<rparr>"
      by (simp add: sd_save_def Un_assoc)
    moreover have "fst ` (A \<union> {?x}) \<inter> tk_id ` set ts = {}" using 2(3,4) by auto
    ultimately show ?thesis
      using IH [of "A \<union> {?x}"] 2(3) a True said_yes_step [OF a, of t ts] by (simp add: Un_ac)
  next
    case False
    let ?s = "sd_remove (tk_id t) s"
    have "?s\<lparr>sd_armed := sd_armed ?s \<union> A\<rparr> = sd_remove (tk_id t) ?S"
    proof -
      have "{x \<in> sd_armed s \<union> A. fst x \<noteq> tk_id t} = {x \<in> sd_armed s. fst x \<noteq> tk_id t} \<union> A"
        using 2(4) by force
      then show ?thesis by (simp add: sd_remove_def)
    qed
    moreover have "fst ` A \<inter> tk_id ` set ts = {}" using 2(4) by auto
    ultimately show ?thesis
      using IH [of A] sound_remove [OF 2(2), of "tk_id t"] 2(3) a False said_yes_step [OF a, of t ts] by simp
  qed
qed simp

lemma sound_approve:
  assumes "sound s"
  shows "sound (sched_step valid (EvApprove ls) s)"
proof -
  have "distinct (map tk_id (proposed (sd_tasks s)))"
    using assms by (simp add: proposed_def distinct_by_time sound_def ids_def distinct_map_filter)
  then show ?thesis
    using sound_approve_loop [of s "{}" "proposed (sd_tasks s)" ls] assms by (simp add: approve_proposed_def Let_def)
qed

lemma sound_restore: "sound s \<Longrightarrow> sound (restore_schedule now alive s)"
proof -
  assume s: "sound s"
  have "sound (foldl (\<lambda>s t. sd_save t s) s us) \<and> sd_armed (foldl (\<lambda>s t. sd_save t s) s us) = sd_armed s"
    if "sound s" "\<forall>u \<in> set us. \<not> busy_worker u \<and> (tk_status u \<noteq> Proposed \<longrightarrow> (tk_id u, tk_kind u) \<in> sd_armed s)" for s us
    using that by (induction us arbitrary: s) (simp_all add: sound_save)
  note fold = this [OF s]
  have r: "\<not> busy_worker (restore_task now alive t) \<and>
      (tk_status (restore_task now alive t) \<noteq> Proposed \<longrightarrow> (tk_id (restore_task now alive t), tk_kind (restore_task now alive t)) \<in> sd_armed s)"
    if "t \<in> set (sd_tasks s)" "restore_task now alive t \<notin> set (sd_tasks s)" for t
    using that s by (auto simp: restore_task_def busy_worker_def sound_def armed_ok_def split: task_status.splits if_splits)
  have "\<forall>u \<in> set (filter (\<lambda>t. t \<notin> set (sd_tasks s)) (plan_restore (sd_tasks s) now alive)).
      \<not> busy_worker u \<and> (tk_status u \<noteq> Proposed \<longrightarrow> (tk_id u, tk_kind u) \<in> sd_armed s)"
    using r by (auto simp: plan_restore_def)
  then show ?thesis using fold by (simp add: restore_schedule_def)
qed

text \<open>Several removals; the tasks with other ids stay armed.\<close>

lemma sound_removes:
  "sound s \<Longrightarrow> sound (foldl (\<lambda>s t. sd_remove (f t) s) s ts)"
  by (induction ts arbitrary: s) (simp_all add: sound_remove)

lemma armed_removes:
  "a \<in> sd_armed (foldl (\<lambda>s t. sd_remove (f t) s) s ts) \<longleftrightarrow> a \<in> sd_armed s \<and> fst a \<notin> f ` set ts"
  by (induction ts arbitrary: s) (auto simp: sd_armed_remove)

lemma same_id: "distinct (ids s) \<Longrightarrow> t \<in> set (sd_tasks s) \<Longrightarrow> u \<in> set (sd_tasks s) \<Longrightarrow> tk_id t = tk_id u \<Longrightarrow> t = u"
  by (auto simp: ids_def distinct_map inj_on_def)

lemma sound_fires:
  "sound s \<Longrightarrow> distinct (map tk_id ts) \<Longrightarrow>
   \<forall>t \<in> set ts. is_command (tk_kind t) \<and> (tk_id t, tk_kind t) \<in> sd_armed s \<Longrightarrow> sound (foldl (fire_one starts) s ts)"
proof (induction ts arbitrary: s)
  case (Cons t ts)
  have "sound (fire_one starts s t)"
    using Cons.prems by (auto simp: fire_one_def busy_worker_def is_worker_task_def intro!: sound_save sound_remove)
  moreover have "\<forall>u \<in> set ts. (tk_id u, tk_kind u) \<in> sd_armed (fire_one starts s t)"
    using Cons.prems by (auto simp: fire_one_def sd_armed_remove image_iff)
  ultimately show ?case using Cons by simp
qed simp

lemma sound_fire_due: "sound s \<Longrightarrow> sound (fire_due starts active now s)"
proof -
  assume s: "sound s"
  let ?p = "plan_tick (sd_tasks s) active now"
  let ?s = "foldl (\<lambda>s t. sd_remove (tk_id t) s) s (tp_finished ?p)"
  have d: "distinct (map tk_id (tp_fire ?p))"
    using s by (auto simp: sound_def ids_def plan_tick_def due_def distinct_map inj_on_def)
  have "(tk_id t, tk_kind t) \<in> sd_armed ?s" if "t \<in> set (tp_fire ?p)" for t
  proof -
    have t: "t \<in> set (sd_tasks s)" "tk_status t = Pending" using that by (auto simp: plan_tick_def due_def)
    have "tk_id t \<notin> tk_id ` set (tp_finished ?p)"
    proof
      assume "tk_id t \<in> tk_id ` set (tp_finished ?p)"
      then obtain u where "u \<in> set (sd_tasks s)" "tk_status u = TRunning" "tk_id t = tk_id u"
        by (auto simp: plan_tick_def)
      then show False using same_id [of s t u] s t by (simp add: sound_def)
    qed
    then show ?thesis using s t by (simp add: armed_removes sound_def armed_ok_def)
  qed
  then have "sound (foldl (fire_one starts) ?s (tp_fire ?p))"
    by (intro sound_fires sound_removes s d) (auto simp: plan_tick_def)
  then show ?thesis by (simp add: fire_due_def Let_def)
qed

lemma started_task_fields [simp]:
  "tk_id (started_task valid now f) = tk_id (wf_task f)" "tk_kind (started_task valid now f) = tk_kind (wf_task f)"
  by (simp_all add: started_task_def)

text \<open>Starting workers: each start adds at most one busy worker.\<close>

lemma starts_sound:
  "armed_ok s \<Longrightarrow> distinct (ids s) \<Longrightarrow> \<forall>f \<in> set fs. (tk_id (wf_task f), tk_kind (wf_task f)) \<in> sd_armed s \<Longrightarrow>
   busy s + length fs \<le> WORKER_CAP \<Longrightarrow> sound (foldl (\<lambda>s f. sd_save (started_task valid now f) s) s fs)"
proof (induction fs arbitrary: s)
  case (Cons f fs)
  let ?s = "sd_save (started_task valid now f) s"
  have "busy ?s \<le> busy s + 1"
    using busy_save [OF Cons.prems(2), of "started_task valid now f"] by (simp split: if_splits)
  then show ?case using Cons.prems by (simp add: Cons.IH save_armed_ok ids_save)
qed (simp add: sound_def)

lemma sd_tasks_removes:
  "sd_tasks (foldl (\<lambda>s t. sd_remove (f t) s) s ts) = filter (\<lambda>t. tk_id t \<notin> f ` set ts) (sd_tasks s)"
  by (induction ts arbitrary: s) (auto simp: sd_remove_def remove_task_def intro: filter_cong)

lemma set_map_filter: "set (List.map_filter f xs) = {y. \<exists>x \<in> set xs. f x = Some y}"
  by (induction xs) (auto simp: List.map_filter_simps split: option.split)

lemma sound_tick_workers: "sound s \<Longrightarrow> sound (tick_workers valid end_of now tick s)"
proof -
  assume s: "sound s"
  let ?p = "worker_tick end_of (sd_tasks s) now tick"
  let ?f = "\<lambda>te :: task \<times> worker_end. tk_id (fst te)"
  let ?s = "foldl (\<lambda>s te. sd_remove (?f te) s) s (wp_ended ?p)"
  let ?still = "filter (\<lambda>t. end_of t = None) (by_time (filter busy_worker (sd_tasks s)))"
  have ended: "set (wp_ended ?p) = {(t, e). t \<in> set (sd_tasks s) \<and> busy_worker t \<and> end_of t = Some e}"
    by (auto simp: worker_tick_def Let_def busy_worker_def set_map_filter)
  have fire: "set (map wf_task (wp_fire ?p)) \<subseteq> {t \<in> set (sd_tasks s). is_worker_task t \<and> tk_status t = Pending}"
    by (auto simp: worker_tick_def Let_def dest!: in_set_takeD)
  have s': "sound ?s" by (rule sound_removes [OF s])
  have "filter busy_worker (sd_tasks ?s) = filter (\<lambda>t. tk_id t \<notin> ?f ` set (wp_ended ?p) \<and> end_of t = None) (filter busy_worker (sd_tasks s))"
  proof -
    have "t \<in> set (sd_tasks s) \<Longrightarrow> busy_worker t \<Longrightarrow> tk_id t \<notin> ?f ` set (wp_ended ?p) \<Longrightarrow> end_of t = None" for t
      unfolding ended by (cases "end_of t") force+
    then show ?thesis unfolding sd_tasks_removes by (auto intro: filter_cong)
  qed
  then have "filter busy_worker (sd_tasks ?s) =
      filter (\<lambda>t. tk_id t \<notin> ?f ` set (wp_ended ?p)) (filter (\<lambda>t. end_of t = None) (filter busy_worker (sd_tasks s)))"
    by (simp add: conj_ac)
  then have "busy ?s \<le> length (filter (\<lambda>t. end_of t = None) (filter busy_worker (sd_tasks s)))"
    unfolding busy_def by (simp only: length_filter_le)
  also have "\<dots> = length ?still" by (simp add: length_filter_by_time)
  finally have b: "busy ?s \<le> length ?still" .
  have "length ?still \<le> WORKER_CAP"
    using s length_filter_le [of "\<lambda>t. end_of t = None" "filter busy_worker (sd_tasks s)"]
    by (simp add: length_filter_by_time sound_def busy_def)
  moreover have "length (wp_fire ?p) \<le> WORKER_CAP - length ?still"
    by (simp add: worker_tick_def Let_def busy_worker_def [abs_def])
  ultimately have c: "busy ?s + length (wp_fire ?p) \<le> WORKER_CAP" using b by linarith
  have "(tk_id (wf_task f), tk_kind (wf_task f)) \<in> sd_armed ?s" if "f \<in> set (wp_fire ?p)" for f
  proof -
    have t: "wf_task f \<in> set (sd_tasks s)" "tk_status (wf_task f) = Pending" using fire that by auto
    have "tk_id (wf_task f) \<notin> ?f ` set (wp_ended ?p)"
    proof
      assume "tk_id (wf_task f) \<in> ?f ` set (wp_ended ?p)"
      then obtain u where "u \<in> set (sd_tasks s)" "tk_status u = TRunning" "tk_id (wf_task f) = tk_id u"
        by (auto simp: ended busy_worker_def)
      then show False using same_id [of s "wf_task f" u] s t by (simp add: sound_def)
    qed
    then show ?thesis using s t by (simp add: armed_removes sound_def armed_ok_def)
  qed
  then have "sound (foldl (\<lambda>s f. sd_save (started_task valid now f) s) ?s (wp_fire ?p))"
    using s' c by (intro starts_sound) (auto simp: sound_def)
  then show ?thesis by (simp add: tick_workers_def Let_def split_def)
qed

lemma sound_step: "sound s \<Longrightarrow> sound (sched_step valid e s)"
  by (cases e) (simp_all add: sound_propose sound_approve [of _ valid, unfolded sched_step.simps] sound_restore sound_fire_due
      sound_tick_workers sound_remove split: cancel_plan.split)

lemma reachable_sound: "sched_reachable valid s \<Longrightarrow> sound s"
  by (induction rule: sched_reachable.induct)
    (simp_all add: sound_step, simp add: sound_def armed_ok_def ids_def busy_def)

lemma fires_armed:
  assumes "sound s" and "t \<in> set (fires valid e s)"
  shows "(tk_id t, tk_kind t) \<in> sd_armed s"
proof -
  have "t \<in> set (sd_tasks s) \<and> tk_status t = Pending"
    using assms(2)
    by (cases e) (auto simp: plan_tick_def due_def plan_worker_tick_def worker_tick_def Let_def comp_def dest!: in_set_takeD)
  then show ?thesis using assms(1) by (auto simp: sound_def armed_ok_def)
qed

text \<open>C38: whatever the model proposes and however the tasks, their watches and their workers end, are
  restored or cancelled, a task that is started has the very command or brief the person answered
  yes to for that id, and that approval has not been withdrawn by the task's removal since.\<close>

theorem only_armed_tasks_run:
  assumes "sched_reachable valid s" and "t \<in> set (fires valid e s)"
  shows "(tk_id t, tk_kind t) \<in> sd_armed s"
  using fires_armed [OF reachable_sound [OF assms(1)] assms(2)] .


text \<open>A worker task proposed, armed and due.\<close>

definition demo_zone :: zone where
  "demo_zone = \<lparr>zn_rfc3339 = (\<lambda>_. None), zn_hm = (\<lambda>_. None), zn_local = (\<lambda>_. (0, 0)), zn_resolve = (\<lambda>_ _. []),
     zn_day_text = (\<lambda>_. []), zn_instant_text = (\<lambda>_. [])\<rparr>"

definition demo_request :: schedule_request where
  "demo_request = \<lparr>sq_id = ''a'', sq_kind = Worker ''b'', sq_follow_up = None, sq_when = After 1, sq_timeout_secs = None\<rparr>"

definition demo_task :: task where
  "demo_task = \<lparr>tk_id = ''a'', tk_kind = Worker ''b'', tk_follow_up = None, tk_at = 1, tk_timeout_secs = None,
     tk_status = Pending, tk_late = False, tk_deadline = None\<rparr>"

lemma demo_armed: "sched_reachable (\<lambda>_. True) \<lparr>sd_tasks = [demo_task], sd_armed = {(''a'', Worker ''b'')}\<rparr>"
proof -
  let ?v = "\<lambda>_ :: instant. True"
  let ?s0 = "\<lparr>sd_tasks = [], sd_armed = {}\<rparr>"
  let ?s1 = "\<lparr>sd_tasks = [demo_task\<lparr>tk_status := Proposed\<rparr>], sd_armed = {}\<rparr>"
  have "sched_step ?v (EvPropose (\<lambda>_. True) demo_zone demo_request 0) ?s0 = ?s1"
    by (simp add: propose_schedule_def into_task_def demo_request_def demo_task_def sd_save_def save_task_def)
  then have "sched_reachable ?v ?s1" using sched_reachable.event [OF sched_reachable.start] by metis
  moreover have "parse_answer ''y'' = Yes" by code_simp
  then have "sched_step ?v (EvApprove [''y'']) ?s1 = \<lparr>sd_tasks = [demo_task], sd_armed = {(''a'', Worker ''b'')}\<rparr>"
    by (simp add: approve_proposed_def proposed_def by_time_def demo_task_def sd_save_def save_task_def)
  ultimately show ?thesis using sched_reachable.event by metis
qed

theorem only_armed_tasks_run_witness:
  "(''a'', Worker ''b'') \<in> sd_armed \<lparr>sd_tasks = [demo_task], sd_armed = {(''a'', Worker ''b'')}\<rparr>"
proof -
  let ?s = "\<lparr>sd_tasks = [demo_task], sd_armed = {(''a'', Worker ''b'')}\<rparr>"
  have "demo_task \<in> set (fires (\<lambda>_. True) (EvWorkers (\<lambda>_. None) [] [] 1 0) ?s)"
    by (simp add: plan_worker_tick_def worker_tick_def by_time_def demo_task_def is_worker_task_def WORKER_CAP_def)
  then have "(tk_id demo_task, tk_kind demo_task) \<in> sd_armed ?s" by (rule only_armed_tasks_run [OF demo_armed])
  then show ?thesis by (simp add: demo_task_def)
qed


subsection \<open>Spans of time are read back\<close>

lemma takeWhile_dec: "\<not> is_digit u \<Longrightarrow> takeWhile is_digit (dec n @ u # s) = dec n"
  using dec_digits [of n] by (simp add: takeWhile_append list_all_iff)

lemma dropWhile_dec: "\<not> is_digit u \<Longrightarrow> dropWhile is_digit (dec n @ u # s) = u # s"
  using dec_digits [of n] by (simp add: dropWhile_append list_all_iff)

lemma unit_chars:
  "\<not> is_digit (CHR ''h'')" "\<not> is_digit (CHR ''m'')" "\<not> is_digit (CHR ''s'')"
  "unit_secs ''h'' = Some 3600" "unit_secs ''m'' = Some 60" "unit_secs ''s'' = Some 1"
  by (simp_all add: is_digit_def unit_secs_def)

lemma parse_units_dec:
  assumes "\<not> is_digit u" and "(of_char u :: nat) < 192" and "unit_secs [u] = Some k" and "k < previous"
    and "n \<le> u64_max" and "n * k \<le> u64_max" and "acc + n * k \<le> u64_max"
  shows "parse_units raw (dec n @ u # s) acc previous = parse_units raw s (acc + n * k) k"
proof -
  have "Option.bind (checked_mul n k) (checked_add acc) = Some (acc + n * k)"
    using assms(6,7) by (simp add: bind_eq_Some_conv)
  then show ?thesis
    using assms by (subst parse_units.simps) (simp add: takeWhile_dec dropWhile_dec Let_def)
qed

lemma parse_units_part:
  assumes "\<not> is_digit u" and "(of_char u :: nat) < 192" and "unit_secs [u] = Some k" and "k < previous"
    and "0 < k" and "acc + n * k \<le> u64_max"
  shows "\<exists>p. (p = k \<or> p = previous) \<and> parse_units raw (span_part n u @ s) acc previous = parse_units raw s (acc + n * k) p"
proof (cases "n = 0")
  case False
  have "n \<le> n * k" using assms(5) by simp
  then have "n \<le> u64_max" using assms(6) by linarith
  then show ?thesis using False parse_units_dec [OF assms(1-4)] assms(6) by (auto simp: span_part_def)
qed (auto simp: span_part_def)

definition span_parts :: "nat \<Rightarrow> string" where
  "span_parts n = span_part (n div 3600) (CHR ''h'') @ span_part (n mod 3600 div 60) (CHR ''m'') @ span_part (n mod 60) (CHR ''s'')"

lemma span_sum: "(n :: nat) div 3600 * 3600 + n mod 3600 div 60 * 60 + n mod 60 = n"
proof -
  have "n div 3600 * 3600 + n mod 3600 = n" by (rule div_mult_mod_eq)
  moreover have "n mod 3600 div 60 * 60 + n mod 3600 mod 60 = n mod 3600" by (rule div_mult_mod_eq)
  moreover have "n mod 3600 mod 60 = n mod 60" by (simp add: mod_mod_cancel)
  ultimately show ?thesis by linarith
qed

lemma span_parts_Nil: "span_parts n = [] \<longleftrightarrow> n = 0"
proof
  assume "span_parts n = []"
  then have "n div 3600 = 0" "n mod 3600 div 60 = 0" "n mod 60 = 0"
    by (auto simp: span_parts_def span_part_def split: if_splits)
  then show "n = 0" using span_sum [of n] by simp
qed (simp add: span_parts_def span_part_def)

lemma format_span_eq: "format_span n = (if n = 0 then ''0s'' else span_parts n)"
  using span_parts_Nil [of n] by (simp add: format_span_def Let_def flip: span_parts_def)

lemma parse_units_span: "n \<le> u64_max \<Longrightarrow> parse_units raw (span_parts n) 0 u64_max = Inr n"
proof -
  assume n: "n \<le> u64_max"
  let ?h = "n div 3600" and ?m = "n mod 3600 div 60" and ?s = "n mod 60"
  have sum: "?h * 3600 + ?m * 60 + ?s = n" by (rule span_sum)
  have big: "3600 < u64_max" by (simp add: u64_max_def)
  have "\<exists>p. (p = 3600 \<or> p = u64_max) \<and> parse_units raw (span_parts n) 0 u64_max =
      parse_units raw (span_part ?m (CHR ''m'') @ span_part ?s (CHR ''s'')) (0 + ?h * 3600) p"
    unfolding span_parts_def
    by (rule parse_units_part) (use n sum big unit_chars in simp_all, linarith?)
  then obtain p where p: "p = 3600 \<or> p = u64_max"
    and h: "parse_units raw (span_parts n) 0 u64_max =
      parse_units raw (span_part ?m (CHR ''m'') @ span_part ?s (CHR ''s'')) (0 + ?h * 3600) p" by blast
  have "\<exists>q. (q = 60 \<or> q = p) \<and> parse_units raw (span_part ?m (CHR ''m'') @ span_part ?s (CHR ''s'')) (0 + ?h * 3600) p =
      parse_units raw (span_part ?s (CHR ''s'')) (0 + ?h * 3600 + ?m * 60) q"
    by (rule parse_units_part) (use n sum big p unit_chars in \<open>auto\<close>, linarith?)
  then obtain q where q: "q = 60 \<or> q = p"
    and m: "parse_units raw (span_part ?m (CHR ''m'') @ span_part ?s (CHR ''s'')) (0 + ?h * 3600) p =
      parse_units raw (span_part ?s (CHR ''s'')) (0 + ?h * 3600 + ?m * 60) q" by blast
  have "\<exists>r. (r = 1 \<or> r = q) \<and> parse_units raw (span_part ?s (CHR ''s'') @ []) (0 + ?h * 3600 + ?m * 60) q =
      parse_units raw [] (0 + ?h * 3600 + ?m * 60 + ?s * 1) r"
    by (rule parse_units_part) (use n sum big p q unit_chars in \<open>auto\<close>, linarith?)
  then obtain r where "parse_units raw (span_part ?s (CHR ''s'') @ []) (0 + ?h * 3600 + ?m * 60) q =
      parse_units raw [] (0 + ?h * 3600 + ?m * 60 + ?s * 1) r" by blast
  then have s: "parse_units raw (span_part ?s (CHR ''s'')) (0 + ?h * 3600 + ?m * 60) q = parse_units raw [] n r"
    by (simp only: append_Nil2 add_0 mult_1_right sum)
  show ?thesis unfolding h m s by (subst parse_units.simps) simp
qed

lemma span_parts_plain: "list_all (\<lambda>c. (of_char c :: nat) < 192 \<and> \<not> is_ws [c]) (span_parts n)"
proof -
  have "\<not> is_ws ''h''" "\<not> is_ws ''m''" "\<not> is_ws ''s''" by (simp_all add: is_ws_ascii)
  moreover have "is_digit c \<Longrightarrow> \<not> is_ws [c]" for c by (auto simp: is_ws_ascii is_digit_def)
  ultimately show ?thesis
    using dec_digits by (auto simp: span_parts_def span_part_def list_all_iff dest: is_digit_lead)
qed

text \<open>A span of time printed for the person is read back as that span: \<open>parse_after\<close> accepts what
  \<open>format_span\<close> prints for every positive number of seconds a \<open>u64\<close> holds, and returns it.\<close>

theorem span_roundtrip:
  assumes "0 < n" and "n \<le> u64_max"
  shows "parse_after (format_span n) = Inr (from_secs n)"
proof -
  have "trim (span_parts n) = span_parts n" by (rule trim_no_ws [OF span_parts_plain])
  moreover have "span_parts n \<noteq> []" using assms(1) by (simp add: span_parts_Nil)
  ultimately show ?thesis
    using assms parse_units_span [of n "span_parts n"] by (simp add: parse_after_def format_span_eq Let_def)
qed

theorem span_roundtrip_witness: "parse_after (format_span 5400) = Inr (from_secs 5400)"
  by (rule span_roundtrip) (simp_all add: u64_max_def)

subsection \<open>What the person is shown has no control characters\<close>

definition plain_char :: "char \<Rightarrow> bool" where
  "plain_char c \<longleftrightarrow> 32 \<le> (of_char c :: nat) \<and> (of_char c :: nat) < 127"

lemma hex_plain: "list_all plain_char (hex n)"
proof (induction n rule: hex.induct)
  case (1 n)
  have d: "plain_char (hex_digit (m mod 16))" for m :: nat
    by (auto simp: plain_char_def)
  have e: "plain_char (hex_digit n)" if "n < 16" using d [of n] that by simp
  show ?case using 1 d [of n] e by (subst hex.simps) (auto simp del: hex_digit.simps)
qed

lemma lower_plain: "plain_char c \<Longrightarrow> plain_char (ascii_lower c)"
  by (auto simp: plain_char_def ascii_lower_def)

lemma escape_char_cases:
  "list_all plain_char (escape_char ch) \<and> escape_char ch \<noteq> [] \<or>
   escape_char ch = ch \<and> \<not> is_control ch \<and> \<not> spoof_char (code_point ch)"
proof -
  have h: "list_all plain_char (map ascii_lower (hex n))" for n
    using hex_plain [of n] lower_plain by (auto simp: list_all_iff)
  have z: "plain_char (CHR ''0'')" "plain_char (CHR ''n'')" "plain_char (CHR ''r'')" "plain_char (CHR ''t'')"
    "plain_char (CHR ''x'')" "plain_char (CHR ''u'')" "plain_char (CHR ''{'')" "plain_char (CHR ''}'')" "plain_char (CHR 0x5C)"
    by (simp_all add: plain_char_def)
  have "list_all plain_char (hex2 n)" "list_all plain_char (map ascii_lower (hex4 n))" for n
    using h [of n] z(1) lower_plain [OF z(1)] by (auto simp: hex2_def hex4_def list_all_iff)
  then show ?thesis using z by (auto simp: escape_char_def backslash_def list_all_iff)
qed

lemma plain_chars_shown:
  assumes "list_all plain_char t"
  shows "list_all (\<lambda>ch. \<not> is_control ch \<and> \<not> spoof_char (code_point ch)) (chars_of t)"
proof -
  have "chars_of t = map (\<lambda>c. [c]) t" using assms by (intro chars_of_lead) (auto simp: list_all_iff plain_char_def)
  then show ?thesis using assms
    by (auto simp: list_all_iff plain_char_def is_control_def spoof_char_def code_point_def)
qed



end
