(* ===== verification/Json_Value.thy ===== *)
theory Json_Value
  imports Rust_Str
begin

section \<open>JSON values as the code reads them\<close>

text \<open>
  What the code uses of \<open>serde_json::Value\<close>: \<open>v["k"]\<close>, which is null for a missing key and for
  anything but an object, and \<open>as_str\<close>. Numbers are only passed on, never computed with.
\<close>

datatype json = JNull | JBool bool | JNum int | JStr string | JArr "json list" | JObj "(string \<times> json) list"

fun json_at :: "json \<Rightarrow> string \<Rightarrow> json" where
  "json_at (JObj kvs) k = (case map_of kvs k of Some v \<Rightarrow> v | None \<Rightarrow> JNull)"
| "json_at _ k = JNull"

fun json_str :: "json \<Rightarrow> string option" where
  "json_str (JStr s) = Some s"
| "json_str _ = None"

end
