(* ===== verification/Turns.thy ===== *)
theory Turns
  imports Worker_Report Json_Value
begin

section \<open>Turns of headless workers\<close>

text \<open>
  How a headless worker's turns follow one another: the prompt queue and the outcome of a turn
  (\<open>crates/core/src/worker/acp/turns.rs\<close>), the turns of a Codex thread
  (\<open>worker/codex/turns.rs\<close>) and of an OpenCode session (\<open>worker/opencode_http/turns.rs\<close>). An
  operation that changes the state returns it beside what it answers.
\<close>

subsection \<open>The end of a turn\<close>

datatype turn_end = Succeeded | Failed string bool | Interrupted

fun turn_stop :: "turn_end \<Rightarrow> string result" where
  "turn_stop Succeeded = Inr ''end_turn''"
| "turn_stop Interrupted = Inr ''cancelled''"
| "turn_stop (Failed message transient) = Inl message"

datatype turn_outcome = OReported | ORemind | OUnreported | OProblem string | OStopped string | OClosed | OCancelled

definition turn_outcome_of :: "string result \<Rightarrow> bool \<Rightarrow> bool \<Rightarrow> bool \<Rightarrow> bool \<Rightarrow> turn_outcome" where
  "turn_outcome_of stop reported reminded closing interrupted =
     (if closing then OClosed
      else if reported then OReported
      else case stop of
        Inl message \<Rightarrow> OProblem message
      | Inr reason \<Rightarrow>
          if reason = ''cancelled'' \<or> reason = ''end_turn''
          then (if interrupted then OCancelled else if reminded then OUnreported else ORemind)
          else OStopped reason)"

definition sweeps_permissions :: "string result \<Rightarrow> turn_outcome \<Rightarrow> bool" where
  "sweeps_permissions stop outcome \<longleftrightarrow> stop = Inr ''cancelled'' \<or> outcome = OCancelled"

definition REPORT_REMINDER :: string where
  "REPORT_REMINDER = ''You stopped without calling report. Call report now with status done, blocked or question and a full summary of what you did or what you need.''"

definition stop_problem :: "string \<Rightarrow> string \<Rightarrow> string" where
  "stop_problem agent reason = ''the '' @ agent @ '' agent ended its turn with `'' @ reason @ ''`''"

subsection \<open>The prompt queue\<close>

datatype inbound = Prompt string | Interrupt string string

datatype queue_step = CancelPermissions | CancelSession

record prompt_queue =
  pq_pending :: "string list"
  pq_running :: bool
  pq_interrupted :: bool

fun queue_accept :: "inbound \<Rightarrow> prompt_queue \<Rightarrow> queue_step list \<times> prompt_queue" where
  "queue_accept (Prompt s) q = ([], q\<lparr>pq_pending := pq_pending q @ [s]\<rparr>)"
| "queue_accept (Interrupt s entry) q =
     (let q' = q\<lparr>pq_pending := s # pq_pending q\<rparr>
      in if pq_running q then ([CancelPermissions, CancelSession], q'\<lparr>pq_interrupted := True\<rparr>)
         else ([CancelPermissions], q'))"

definition queue_remind :: "prompt_queue \<Rightarrow> prompt_queue" where
  "queue_remind q =
     (if list_ex (\<lambda>s. s = REPORT_REMINDER) (pq_pending q) then q
      else q\<lparr>pq_pending := pq_pending q @ [REPORT_REMINDER]\<rparr>)"

definition queue_start :: "prompt_queue \<Rightarrow> (string \<times> prompt_queue) option" where
  "queue_start q = (case pq_pending q of
     [] \<Rightarrow> None
   | s # rest \<Rightarrow> Some (s, q\<lparr>pq_pending := rest, pq_running := True, pq_interrupted := False\<rparr>))"

definition queue_finish :: "prompt_queue \<Rightarrow> bool \<times> prompt_queue" where
  "queue_finish q = (pq_interrupted q, q\<lparr>pq_running := False\<rparr>)"

definition cancels_turn :: "queue_step list \<Rightarrow> bool" where
  "cancels_turn steps \<longleftrightarrow> CancelSession \<in> set steps"

subsection \<open>What an interrupt is answered\<close>

datatype interrupt_outcome = Cancelled | Sent | Gone | Dropped

definition outcome_of_bool :: "bool \<Rightarrow> interrupt_outcome" where
  "outcome_of_bool cancelled = (if cancelled then Cancelled else Sent)"

fun interrupt_result_text :: "interrupt_outcome \<Rightarrow> string" where
  "interrupt_result_text Cancelled = ''cancelled''"
| "interrupt_result_text Sent = ''sent''"
| "interrupt_result_text Gone = ''gone''"
| "interrupt_result_text Dropped = ''dropped''"

definition parse_interrupt_result :: "string \<Rightarrow> interrupt_outcome option" where
  "parse_interrupt_result s =
     (let t = trim s
      in if t = ''cancelled'' then Some Cancelled
         else if t = ''sent'' then Some Sent
         else if t = ''gone'' then Some Gone
         else if t = ''dropped'' then Some Dropped
         else None)"

definition interrupt_reply :: "string \<Rightarrow> interrupt_outcome option \<Rightarrow> string" where
  "interrupt_reply i outcome = (case outcome of
     Some Cancelled \<Rightarrow> ''Interrupted worker '' @ i @ '': its running turn was cancelled and this message runs next.''
   | Some Sent \<Rightarrow> ''Sent to worker '' @ i @ '': no turn was running, so nothing was cancelled.''
   | Some Gone \<Rightarrow> ''Worker '' @ i @ '' exited: its turn ended and this message was not delivered.''
   | Some Dropped \<Rightarrow> ''Worker '' @ i @ '': the interrupt was not sent and this message runs next.''
   | None \<Rightarrow> ''Interrupt queued for worker '' @ i @ '', but ralph chat did not confirm within 30 s: outcome unknown.'')"

end
