(* ===== verification/Headless.thy ===== *)
theory Headless
  imports Turns Bytes_LE
begin

section \<open>Headless workers: what a harness supports, and whether its worker lives\<close>

text \<open>
  \<open>crates/core/src/worker/headless.rs\<close> and \<open>worker/headless/liveness.rs\<close>, with the activity and
  gone markers of \<open>worker/markers.rs\<close> and the permission requests of \<open>worker/permissions.rs\<close>.
\<close>

subsection \<open>Features and capabilities\<close>

datatype feature = FSpawn | FPrompt | FInterrupt | FPermAsk | FPermYolo | FResume | FModel | FReport | FClose | FHeartbeat

fun feature_name :: "feature \<Rightarrow> string" where
  "feature_name FSpawn = ''spawn''"
| "feature_name FPrompt = ''prompt''"
| "feature_name FInterrupt = ''interrupt''"
| "feature_name FPermAsk = ''perm-ask''"
| "feature_name FPermYolo = ''perm-yolo''"
| "feature_name FResume = ''resume''"
| "feature_name FModel = ''model''"
| "feature_name FReport = ''report''"
| "feature_name FClose = ''close''"
| "feature_name FHeartbeat = ''heartbeat''"

datatype support_level = Full | Partial string | NoSupport

definition headless :: "harness_id \<Rightarrow> bool" where
  "headless h \<longleftrightarrow> h \<noteq> Claude"

fun support_for :: "harness_id \<Rightarrow> feature \<Rightarrow> support_level" where
  "support_for Claude f = (if f = FModel then Full else NoSupport)"
| "support_for Cursor f = (case f of
     FInterrupt \<Rightarrow> Partial ''outcome unknown after 30 s''
   | FPermYolo \<Rightarrow> Partial ''global config, not per spawn''
   | FResume \<Rightarrow> Partial ''only if agent supports session/load''
   | FHeartbeat \<Rightarrow> Partial ''ACP traffic only; exit seen by polling the child every 250 ms''
   | _ \<Rightarrow> Full)"
| "support_for Opencode f = (case f of
     FPermAsk \<Rightarrow> Partial ''only prompts the server raises despite allow-*''
   | FPermYolo \<Rightarrow> Partial ''always on''
   | FClose \<Rightarrow> Partial ''no home cleanup; shared server kept''
   | FHeartbeat \<Rightarrow> Partial ''per-session SSE activity; one alert per shared-server death''
   | _ \<Rightarrow> Full)"
| "support_for Codex f = (case f of
     FInterrupt \<Rightarrow> Partial ''outcome unknown after 30 s''
   | FPermAsk \<Rightarrow> Partial ''protocol-raised requests only''
   | FPermYolo \<Rightarrow> Partial ''single-request accepts only''
   | FResume \<Rightarrow> Partial ''needs saved history, worktree and codex login''
   | FHeartbeat \<Rightarrow> Partial ''app-server frames count as activity, not progress; silent long tools can yield false Quiet; 300 s default''
   | _ \<Rightarrow> Full)"
| "support_for ClaudeHeadless f = (case f of
     FHeartbeat \<Rightarrow> Partial ''stream-json lines count as activity, not progress; silent long tools can yield false Quiet''
   | FInterrupt \<Rightarrow> Partial ''outcome unknown if claude ignores the interrupt for 30 s''
   | FResume \<Rightarrow> Partial ''turn in flight reported, not re-sent; same cwd required''
   | _ \<Rightarrow> Full)"

definition ALL_HARNESSES :: "harness_id list" where
  "ALL_HARNESSES = [Claude, Opencode, Cursor, Codex, ClaudeHeadless]"

definition describe :: "harness_id \<Rightarrow> feature \<Rightarrow> string" where
  "describe h f = harness_name h @ '' '' @ feature_name f @
     (case support_for h f of
        Full \<Rightarrow> '': full''
      | Partial reason \<Rightarrow> '': partial, '' @ reason
      | NoSupport \<Rightarrow> '': not supported'')"

definition model_refusal :: "harness_id \<Rightarrow> string" where
  "model_refusal h = harness_name h @ '' does not accept a model; harnesses that do: '' @
     join '', '' (map harness_name (filter (\<lambda>c. support_for c FModel \<noteq> NoSupport) ALL_HARNESSES))"

subsection \<open>Permission requests\<close>

record permission_option =
  po_option_id :: string
  po_name :: string
  po_kind :: string

record blocked_content =
  bc_request_id :: string
  bc_tool :: string
  bc_summary :: string
  bc_options :: "permission_option list"
  bc_pending :: "string list"

record permission_answer =
  pa_request_id :: string
  pa_option_id :: string

definition pending_position :: "string list \<Rightarrow> string \<Rightarrow> nat result" where
  "pending_position pending request =
     (let r = trim request; listed = (if pending = [] then ''none'' else join '', '' pending)
      in case (if r = [] then None else List.find (\<lambda>i. pending ! i = r) [0..<length pending]) of
        Some i \<Rightarrow> Inr i
      | None \<Rightarrow>
          Inl (if r = []
               then ''this worker is waiting on a permission request; pass request. pending: '' @ listed
               else ''stale request '' @ r @ ''; pending: '' @ listed))"

definition match_option :: "permission_option list \<Rightarrow> string \<Rightarrow> permission_option option" where
  "match_option options s = List.find (\<lambda>p. po_option_id p = trim s) options"

definition no_option_message :: "permission_option list \<Rightarrow> string" where
  "no_option_message options =
     ''No permission option matches that answer. Valid optionIds: '' @ join '', '' (map po_option_id options) @ ''.''"

subsection \<open>Commands and events\<close>

datatype worker_command =
    CSpawn "string option"
  | CPrompt string
  | CInterrupt string
  | CAnswerPermission permission_answer
  | CResume
  | CClose

fun command_feature :: "worker_command \<Rightarrow> feature" where
  "command_feature (CSpawn (Some m)) = FModel"
| "command_feature (CSpawn None) = FSpawn"
| "command_feature (CPrompt s) = FPrompt"
| "command_feature (CInterrupt s) = FInterrupt"
| "command_feature (CAnswerPermission a) = FPermAsk"
| "command_feature CResume = FResume"
| "command_feature CClose = FClose"

datatype scope = ScopeWorker | ScopeServer string

datatype worker_event =
    EvReady
  | EvTurnStarted
  | EvTurnEnded turn_end
  | EvPermissionAsked blocked_content
  | EvPermissionSettled
  | EvReported
  | EvInterrupted string "bool option"
  | EvClosed
  | EvUnsupported feature string
  | EvActivity nat
  | EvProcessGone scope string

definition decide :: "harness_id \<Rightarrow> worker_command \<Rightarrow> worker_event + worker_command" where
  "decide h c =
     (let f = command_feature c
      in if \<not> headless h then Inl (EvUnsupported f (harness_name h @ '' has no headless worker''))
         else if support_for h f = NoSupport
           then Inl (EvUnsupported f (if f = FModel then model_refusal h else describe h f))
         else Inr c)"

subsection \<open>The state of a worker\<close>

datatype phase = Starting | PIdle | PRunning | PBlocked | PClosed

datatype liveness = Live | Quiet nat | Dead scope string

record headless_state =
  hs_phase :: phase
  hs_last_activity :: nat
  hs_liveness :: liveness
  hs_alerted :: bool

definition headless_default :: headless_state where
  "headless_default = \<lparr>hs_phase = Starting, hs_last_activity = 0, hs_liveness = Live, hs_alerted = False\<rparr>"

datatype marker = MReady | MReported | MBlocked | MWaiting

datatype headless_effect = SetMarker marker | ClearMarker marker | Publish blocked_content | ReplyText string

fun is_dead :: "liveness \<Rightarrow> bool" where
  "is_dead (Dead s r) = True"
| "is_dead _ = False"

fun reduce :: "headless_state \<Rightarrow> worker_event \<Rightarrow> headless_state \<times> headless_effect list" where
  "reduce s EvReady = (s\<lparr>hs_phase := PIdle\<rparr>, [SetMarker MReady])"
| "reduce s EvTurnStarted = (s\<lparr>hs_phase := PRunning\<rparr>, [ClearMarker MWaiting])"
| "reduce s (EvTurnEnded e) = (s\<lparr>hs_phase := PIdle\<rparr>, [ClearMarker MBlocked])"
| "reduce s (EvPermissionAsked c) = (s\<lparr>hs_phase := PBlocked\<rparr>, [Publish c])"
| "reduce s EvPermissionSettled = (s\<lparr>hs_phase := PRunning\<rparr>, [ClearMarker MBlocked])"
| "reduce s EvReported = (s, [SetMarker MReported])"
| "reduce s (EvInterrupted i outcome) = (s, [ReplyText (interrupt_reply i (map_option outcome_of_bool outcome))])"
| "reduce s EvClosed = (s\<lparr>hs_phase := PClosed\<rparr>, [ClearMarker MReady, ClearMarker MBlocked, ClearMarker MWaiting])"
| "reduce s (EvUnsupported f reason) = (s, [ReplyText reason])"
| "reduce s (EvActivity at) =
     (if hs_last_activity s < at \<and> \<not> is_dead (hs_liveness s)
      then s\<lparr>hs_last_activity := at, hs_liveness := Live, hs_alerted := False\<rparr> else s, [])"
| "reduce s (EvProcessGone sc reason) =
     (if is_dead (hs_liveness s) then s else s\<lparr>hs_liveness := Dead sc reason, hs_alerted := False\<rparr>, [])"

subsection \<open>Liveness and its alerts\<close>

datatype alert_kind = KQuiet | KDead scope string

record alert =
  al_kind :: alert_kind
  al_text :: string

fun dead_text :: "scope \<Rightarrow> string \<Rightarrow> string" where
  "dead_text ScopeWorker reason = ''worker agent connection ended: '' @ reason"
| "dead_text (ScopeServer name) reason = ''opencode server '' @ name @ '' ended: '' @ reason"

definition liveness_tick :: "headless_state \<Rightarrow> nat \<Rightarrow> nat \<Rightarrow> headless_state \<times> alert option" where
  "liveness_tick s now quiet_after = (case hs_liveness s of
     Dead sc reason \<Rightarrow>
       if hs_alerted s then (s, None)
       else (s\<lparr>hs_alerted := True\<rparr>, Some \<lparr>al_kind = KDead sc reason, al_text = dead_text sc reason\<rparr>)
   | _ \<Rightarrow>
       (let quiet_for = now - hs_last_activity s
        in if hs_phase s \<noteq> PRunning \<or> quiet_for < quiet_after then (s\<lparr>hs_liveness := Live\<rparr>, None)
           else (s\<lparr>hs_liveness := Quiet (hs_last_activity s), hs_alerted := True\<rparr>,
             if hs_alerted s then None
             else Some \<lparr>al_kind = KQuiet, al_text = ''quiet '' @ dec quiet_for @ '' s; may be stuck on a prompt''\<rparr>)))"

definition gone_acknowledged :: "headless_state \<Rightarrow> bool" where
  "gone_acknowledged s \<longleftrightarrow> hs_alerted s \<and> (case hs_liveness s of Dead (ScopeServer n) r \<Rightarrow> True | _ \<Rightarrow> False)"

definition rearm :: "headless_state \<Rightarrow> bool \<Rightarrow> headless_state" where
  "rearm s gone = (if \<not> gone \<and> is_dead (hs_liveness s) then headless_default else s)"

text \<open>
  One alert for the workers of a server that ended; the servers come in the order of their names, as
  \<open>BTreeMap\<close> keeps them, each with the reason of the first of its workers.
\<close>

fun server_of :: "alert \<Rightarrow> (string \<times> string) option" where
  "server_of a = (case al_kind a of KDead (ScopeServer name) reason \<Rightarrow> Some (name, reason) | _ \<Rightarrow> None)"

definition server_alert :: "(string \<times> alert) list \<Rightarrow> string \<Rightarrow> string \<times> string" where
  "server_alert alerts name =
     (let mine = filter (\<lambda>(w, a). map_option fst (server_of a) = Some name) alerts;
          reason = (case mine of [] \<Rightarrow> [] | (w, a) # _ \<Rightarrow> (case server_of a of Some (n, r) \<Rightarrow> r | None \<Rightarrow> []));
          joined = join '', '' (sort_strs (map fst mine))
      in (joined, dead_text (ScopeServer name) reason @ ''; affected workers: '' @ joined))"

definition group_alerts :: "(string \<times> alert) list \<Rightarrow> (string \<times> string) list" where
  "group_alerts alerts =
     map (\<lambda>(w, a). (w, al_text a)) (filter (\<lambda>(w, a). server_of a = None) alerts) @
     map (server_alert alerts) (sort_strs (remdups (List.map_filter (\<lambda>(w, a). map_option fst (server_of a)) alerts)))"

subsection \<open>Markers on disk\<close>

datatype activity_state = ARunning | ABackground | AIdle | AFailed

fun activity_label :: "activity_state \<Rightarrow> string" where
  "activity_label ARunning = ''running''"
| "activity_label ABackground = ''background''"
| "activity_label AIdle = ''idle''"
| "activity_label AFailed = ''failed''"

definition activity_parse :: "string \<Rightarrow> activity_state option" where
  "activity_parse l =
     (if l = ''running'' then Some ARunning
      else if l = ''background'' then Some ABackground
      else if l = ''idle'' then Some AIdle
      else if l = ''failed'' then Some AFailed
      else None)"

fun activity_busy :: "activity_state \<Rightarrow> bool" where
  "activity_busy ARunning = True"
| "activity_busy ABackground = True"
| "activity_busy _ = False"

record activity_mark =
  am_at :: nat
  am_state :: activity_state

definition mark_render :: "activity_mark \<Rightarrow> string" where
  "mark_render m = dec (am_at m) @ '' '' @ activity_label (am_state m)"

definition mark_busy :: "activity_mark \<Rightarrow> bool" where
  "mark_busy m = activity_busy (am_state m)"

definition mark_parse :: "string \<Rightarrow> activity_mark option" where
  "mark_parse s =
     (case split_once (CHR '' '') (trim s) of
        None \<Rightarrow> None
      | Some (at, flag) \<Rightarrow>
          (case parse_uint u64_max at of
             None \<Rightarrow> None
           | Some n \<Rightarrow> map_option (\<lambda>st. \<lparr>am_at = n, am_state = st\<rparr>) (activity_parse flag)))"

definition SERVER_GONE_PREFIX :: string where
  "SERVER_GONE_PREFIX = ''scope server ''"

fun render_gone :: "scope \<Rightarrow> string \<Rightarrow> string" where
  "render_gone ScopeWorker reason = reason"
| "render_gone (ScopeServer name) reason = SERVER_GONE_PREFIX @ name @ newline @ reason"

definition parse_gone :: "string \<Rightarrow> scope \<times> string" where
  "parse_gone s =
     (case Option.bind (split_once (CHR 0x0A) s)
             (\<lambda>(head, reason). map_option (\<lambda>name. (name, reason)) (strip_prefix SERVER_GONE_PREFIX head)) of
        Some (name, reason) \<Rightarrow> (ScopeServer name, trim reason)
      | None \<Rightarrow> (ScopeWorker, trim s))"

definition marker_state :: "string option \<Rightarrow> string option \<Rightarrow> bool \<Rightarrow> phase \<times> worker_event list" where
  "marker_state activity gone blocked =
     (let mark = Option.bind activity mark_parse
      in (if blocked then PBlocked
          else case mark of None \<Rightarrow> Starting | Some m \<Rightarrow> if mark_busy m then PRunning else PIdle,
          (case mark of None \<Rightarrow> [] | Some m \<Rightarrow> [EvActivity (am_at m)]) @
          (case gone of None \<Rightarrow> [] | Some s \<Rightarrow> [(case parse_gone s of (sc, reason) \<Rightarrow> EvProcessGone sc reason)])))"

definition vanished_claude :: "string set \<Rightarrow> string set \<Rightarrow> string list \<Rightarrow> string list" where
  "vanished_claude was_alive alive_now ready =
     sort_strs (remdups (filter (\<lambda>i. i \<in> was_alive \<and> i \<notin> alive_now) ready))"

end
