(* ===== verification/Codex_Turns.thy ===== *)
theory Codex_Turns
  imports Headless
begin

section \<open>The turns of a Codex thread\<close>

text \<open>
  \<open>crates/core/src/worker/codex/turns.rs\<close>. The pump (\<open>crates/ralph/src/codex_worker.rs\<close>) calls one
  operation per message and performs the actions it answers; \<open>codex_step\<close> has one case for each of
  its calls, in any order.
\<close>

definition TURN_COMPLETED :: string where
  "TURN_COMPLETED = ''turn/completed''"

definition ITEM_COMPLETED :: string where
  "ITEM_COMPLETED = ''item/completed''"

definition TURN_STARTED :: string where
  "TURN_STARTED = ''turn/started''"

definition MODEL_REROUTED :: string where
  "MODEL_REROUTED = ''model/rerouted''"

definition NO_ACTIVE_TURN :: int where
  "NO_ACTIVE_TURN = -32600"

definition SERVER_NAME :: string where
  "SERVER_NAME = ''ralph-worker''"

definition REPORT_TOOL :: string where
  "REPORT_TOOL = ''report''"

datatype thread_signal = SigReported | SigTurnEnded turn_end

definition decode_turn_end :: "json \<Rightarrow> turn_end option" where
  "decode_turn_end turn = (case json_str (json_at turn ''status'') of
     None \<Rightarrow> None
   | Some s \<Rightarrow>
       if s = ''completed'' then Some Succeeded
       else if s = ''interrupted'' then Some Interrupted
       else if s = ''failed'' then Some (Failed
         (case json_str (json_at (json_at turn ''error'') ''message'') of Some m \<Rightarrow> m | None \<Rightarrow> ''the turn failed'') False)
       else None)"

definition is_delivered_report :: "json \<Rightarrow> bool" where
  "is_delivered_report item \<longleftrightarrow>
     json_at item ''type'' = JStr ''mcpToolCall'' \<and> json_at item ''server'' = JStr SERVER_NAME \<and>
     json_at item ''tool'' = JStr REPORT_TOOL \<and> json_at item ''status'' = JStr ''completed''"

definition decode_signal :: "string \<Rightarrow> json \<Rightarrow> thread_signal option" where
  "decode_signal meth params =
     (if meth = TURN_COMPLETED then map_option SigTurnEnded (decode_turn_end (json_at params ''turn''))
      else if meth = ITEM_COMPLETED
        then (if is_delivered_report (json_at params ''item'') then Some SigReported else None)
      else None)"

definition is_unmapped :: "string \<Rightarrow> bool" where
  "is_unmapped meth \<longleftrightarrow>
     meth \<notin> {TURN_STARTED, TURN_COMPLETED, ITEM_COMPLETED, ''mcpServer/startupStatus/updated'',
       ''serverRequest/resolved'', ''thread/tokenUsage/updated'', MODEL_REROUTED}"

definition event_turn_id :: "string \<Rightarrow> json \<Rightarrow> string option" where
  "event_turn_id meth params =
     (if meth = TURN_STARTED \<or> meth = TURN_COMPLETED then json_str (json_at (json_at params ''turn'') ''id'')
      else json_str (json_at params ''turnId''))"

fun is_stale :: "string option \<Rightarrow> string option \<Rightarrow> bool" where
  "is_stale (Some current) (Some event) = (current \<noteq> event)"
| "is_stale _ _ = False"

fun is_current :: "string option \<Rightarrow> string option \<Rightarrow> bool" where
  "is_current (Some current) (Some event) = (current = event)"
| "is_current _ _ = False"

datatype turn_action =
    Start string
  | InterruptTurn string
  | InterruptResult string interrupt_outcome
  | Emit worker_event
  | MarkUnreported
  | Snapshot
  | PostFailure string

record turns =
  tu_queue :: prompt_queue
  tu_running :: "string option"
  tu_turn_id :: "string option"
  tu_previous_turn :: "string option"
  tu_interrupts :: "string list"
  tu_interrupt_sent :: bool
  tu_close_requested :: bool
  tu_gone :: bool
  tu_reported :: bool

definition turns_default :: turns where
  "turns_default = \<lparr>tu_queue = \<lparr>pq_pending = [], pq_running = False, pq_interrupted = False\<rparr>, tu_running = None,
     tu_turn_id = None, tu_previous_turn = None, tu_interrupts = [], tu_interrupt_sent = False,
     tu_close_requested = False, tu_gone = False, tu_reported = False\<rparr>"

definition send_interrupt :: "turns \<Rightarrow> turn_action list \<times> turns" where
  "send_interrupt t = (case tu_turn_id t of
     Some i \<Rightarrow>
       if (tu_interrupts t \<noteq> [] \<or> tu_close_requested t) \<and> \<not> tu_interrupt_sent t
       then ([InterruptTurn i], t\<lparr>tu_interrupt_sent := True\<rparr>) else ([], t)
   | None \<Rightarrow> ([], t))"

definition resolve_interrupts :: "interrupt_outcome \<Rightarrow> turns \<Rightarrow> turn_action list \<times> turns" where
  "resolve_interrupts outcome t =
     (map (\<lambda>entry. InterruptResult entry outcome) (tu_interrupts t), t\<lparr>tu_interrupts := []\<rparr>)"

definition turns_advance :: "turns \<Rightarrow> turn_action list \<times> turns" where
  "turns_advance t =
     (if tu_running t \<noteq> None then ([], t)
      else case queue_start (tu_queue t) of
        None \<Rightarrow> ([], t)
      | Some (s, q) \<Rightarrow>
          ([Emit EvTurnStarted, Start s],
           t\<lparr>tu_queue := q, tu_reported := False, tu_running := Some s, tu_previous_turn := tu_turn_id t,
             tu_turn_id := None, tu_interrupt_sent := False\<rparr>))"

definition turns_accept :: "string \<Rightarrow> turns \<Rightarrow> turn_action list \<times> turns" where
  "turns_accept s t = turns_advance (t\<lparr>tu_queue := snd (queue_accept (Prompt s) (tu_queue t))\<rparr>)"

definition turns_interrupt :: "string \<Rightarrow> string \<Rightarrow> turns \<Rightarrow> turn_action list \<times> turns" where
  "turns_interrupt s entry t =
     (if tu_gone t then ([InterruptResult entry Gone], t)
      else case queue_accept (Interrupt s entry) (tu_queue t) of (steps, q) \<Rightarrow>
        let t' = t\<lparr>tu_queue := q\<rparr>
        in if cancels_turn steps then send_interrupt (t'\<lparr>tu_interrupts := tu_interrupts t' @ [entry]\<rparr>)
           else (case turns_advance t' of (acts, t'') \<Rightarrow> (InterruptResult entry Sent # acts, t'')))"

definition interrupt_dropped :: "turns \<Rightarrow> turn_action list \<times> turns" where
  "interrupt_dropped t = resolve_interrupts Dropped (t\<lparr>tu_interrupt_sent := False\<rparr>)"

definition process_gone :: "turns \<Rightarrow> turn_action list \<times> turns" where
  "process_gone t = resolve_interrupts Gone (t\<lparr>tu_gone := True\<rparr>)"

definition turns_close :: "turns \<Rightarrow> turn_action list \<times> turns" where
  "turns_close t = (if tu_running t = None then ([], t) else send_interrupt (t\<lparr>tu_close_requested := True\<rparr>))"

definition bind_turn :: "string option \<Rightarrow> turns \<Rightarrow> turn_action list \<times> turns" where
  "bind_turn i t = (if tu_running t = None then ([], t) else send_interrupt (t\<lparr>tu_turn_id := i\<rparr>))"

definition interrupt_failed :: "int \<Rightarrow> turns \<Rightarrow> turn_action list \<times> turns" where
  "interrupt_failed code t = (if code \<noteq> NO_ACTIVE_TURN then ([], t) else resolve_interrupts Sent t)"

definition is_stale_request :: "turns \<Rightarrow> string \<Rightarrow> json \<Rightarrow> bool" where
  "is_stale_request t meth params = is_stale (tu_turn_id t) (event_turn_id meth params)"

definition owns_event :: "turns \<Rightarrow> string \<Rightarrow> json \<Rightarrow> bool" where
  "owns_event t meth params =
     (let event = event_turn_id meth params; current = tu_turn_id t
      in if meth = MODEL_REROUTED then current \<noteq> None \<and> (event = None \<or> is_current current event)
         else is_current current event \<or> is_current (tu_previous_turn t) event)"

definition outcome_actions :: "turn_outcome \<Rightarrow> turn_action list" where
  "outcome_actions outcome = (case outcome of
     OUnreported \<Rightarrow> [MarkUnreported]
   | OProblem problem \<Rightarrow> [PostFailure problem]
   | OStopped reason \<Rightarrow> [PostFailure (stop_problem (harness_name Codex) reason)]
   | _ \<Rightarrow> [])"

definition turns_end :: "turn_end \<Rightarrow> bool \<Rightarrow> turns \<Rightarrow> turn_action list \<times> turns" where
  "turns_end e closing t = (case tu_running t of
     None \<Rightarrow> ([], t)
   | Some s \<Rightarrow>
       let t1 = t\<lparr>tu_running := None, tu_queue := snd (queue_finish (tu_queue t))\<rparr>;
           cancelled = (e = Interrupted);
           outcome = turn_outcome_of (turn_stop e) (tu_reported t1) (s = REPORT_REMINDER) closing
             (cancelled \<and> tu_interrupt_sent t1);
           (answers, t2) = resolve_interrupts (outcome_of_bool cancelled) t1;
           t3 = (if outcome = ORemind then t2\<lparr>tu_queue := queue_remind (tu_queue t2)\<rparr> else t2);
           (nxt, t4) = turns_advance t3
       in ((if closing then [] else [Snapshot]) @ [Emit (EvTurnEnded e)] @ answers @ outcome_actions outcome @ nxt, t4))"

fun turns_signal :: "thread_signal \<Rightarrow> bool \<Rightarrow> turns \<Rightarrow> turn_action list \<times> turns" where
  "turns_signal SigReported closing t =
     (if tu_running t \<noteq> None \<and> \<not> tu_reported t then ([Emit EvReported], t\<lparr>tu_reported := True\<rparr>) else ([], t))"
| "turns_signal (SigTurnEnded e) closing t = turns_end e closing t"

definition turns_notification :: "string \<Rightarrow> json \<Rightarrow> bool \<Rightarrow> turns \<Rightarrow> turn_action list \<times> turns" where
  "turns_notification meth params closing t =
     (let event = event_turn_id meth params
      in if is_stale (tu_turn_id t) event then ([], t)
         else if meth = TURN_STARTED \<and> tu_turn_id t = None then bind_turn event t
         else case decode_signal meth params of Some sig \<Rightarrow> turns_signal sig closing t | None \<Rightarrow> ([], t))"

subsection \<open>The calls of the pump\<close>

datatype codex_event =
    XAccept string
  | XInterrupt string string
  | XDropped
  | XGone
  | XClose
  | XBind "string option"
  | XInterruptFailed int
  | XNotify string json bool
  | XSignal thread_signal bool

fun codex_step :: "codex_event \<Rightarrow> turns \<Rightarrow> turn_action list \<times> turns" where
  "codex_step (XAccept s) t = turns_accept s t"
| "codex_step (XInterrupt s entry) t = turns_interrupt s entry t"
| "codex_step XDropped t = interrupt_dropped t"
| "codex_step XGone t = process_gone t"
| "codex_step XClose t = turns_close t"
| "codex_step (XBind i) t = bind_turn i t"
| "codex_step (XInterruptFailed code) t = interrupt_failed code t"
| "codex_step (XNotify meth params closing) t = turns_notification meth params closing t"
| "codex_step (XSignal sig closing) t = turns_signal sig closing t"

end
