(* ===== verification/Machine.thy ===== *)
theory Machine
  imports Main
begin

section \<open>Machines that answer each event with actions\<close>

text \<open>
  Several components are state machines of one shape: an event changes the state and is answered by
  a list of actions. What such machines promise over any sequence of events follows from what one
  step promises; the locales below say how, and the components interpret them for their own steps.
\<close>

fun run_machine :: "('e \<Rightarrow> 's \<Rightarrow> 'a list \<times> 's) \<Rightarrow> 'e list \<Rightarrow> 's \<Rightarrow> 'a list \<times> 's" where
  "run_machine step [] s = ([], s)"
| "run_machine step (e # es) s =
     (case step e s of (acts, s') \<Rightarrow> case run_machine step es s' of (acts', s'') \<Rightarrow> (acts @ acts', s''))"

lemma run_machine_Cons [simp]:
  "fst (run_machine step (e # es) s) = fst (step e s) @ fst (run_machine step es (snd (step e s)))"
  "snd (run_machine step (e # es) s) = snd (run_machine step es (snd (step e s)))"
  by (simp_all split: prod.split)

declare run_machine.simps(2) [simp del]

text \<open>Every event of a sequence meets a guard in the state it finds.\<close>

fun run_guarded :: "('e \<Rightarrow> 's \<Rightarrow> 'a list \<times> 's) \<Rightarrow> ('e \<Rightarrow> 's \<Rightarrow> bool) \<Rightarrow> 'e list \<Rightarrow> 's \<Rightarrow> bool" where
  "run_guarded step ok [] s \<longleftrightarrow> True"
| "run_guarded step ok (e # es) s \<longleftrightarrow> ok e s \<and> run_guarded step ok es (snd (step e s))"

lemma run_guarded_True [simp]: "run_guarded step (\<lambda>e s. True) es s"
  by (induction es arbitrary: s) simp_all

lemma run_guarded_events: "run_guarded step (\<lambda>e s. P e) es s \<longleftrightarrow> list_all P es"
  by (induction es arbitrary: s) simp_all

locale machine =
  fixes step :: "'e \<Rightarrow> 's \<Rightarrow> 'a list \<times> 's"
    and inv :: "'s \<Rightarrow> bool"
    and ok :: "'e \<Rightarrow> 's \<Rightarrow> bool"
  assumes step_inv: "inv s \<Longrightarrow> ok e s \<Longrightarrow> inv (snd (step e s))"
begin

lemma run_inv: "inv s \<Longrightarrow> run_guarded step ok es s \<Longrightarrow> inv (snd (run_machine step es s))"
  by (induction es arbitrary: s) (simp_all add: step_inv)

end

text \<open>What comes in is either answered, in the order it came, or still held.\<close>

locale ledger = machine step inv ok
  for step :: "'e \<Rightarrow> 's \<Rightarrow> 'a list \<times> 's" and inv ok +
  fixes given :: "'e \<Rightarrow> 'x list"
    and answered :: "'a \<Rightarrow> 'x list"
    and held :: "'s \<Rightarrow> 'x list"
  assumes step_ledger:
    "inv s \<Longrightarrow> ok e s \<Longrightarrow> concat (map answered (fst (step e s))) @ held (snd (step e s)) = held s @ given e"
begin

lemma run_ledger:
  "inv s \<Longrightarrow> run_guarded step ok es s \<Longrightarrow>
     concat (map answered (fst (run_machine step es s))) @ held (snd (run_machine step es s)) =
     held s @ concat (map given es)"
proof (induction es arbitrary: s)
  case (Cons e es)
  then have p: "inv s" "ok e s" and g: "run_guarded step ok es (snd (step e s))" by simp_all
  show ?case using Cons.IH [OF step_inv [OF p] g] step_ledger [OF p] by simp
qed simp

end

text \<open>What goes out is paid for: by what came in or by what the state holds.\<close>

locale budget = machine step inv ok
  for step :: "'e \<Rightarrow> 's \<Rightarrow> 'a list \<times> 's" and inv ok +
  fixes income :: "'e \<Rightarrow> nat"
    and price :: "'a \<Rightarrow> nat"
    and funds :: "'s \<Rightarrow> nat"
  assumes step_budget:
    "inv s \<Longrightarrow> ok e s \<Longrightarrow> sum_list (map price (fst (step e s))) + funds (snd (step e s)) \<le> funds s + income e"
begin

lemma run_budget:
  "inv s \<Longrightarrow> run_guarded step ok es s \<Longrightarrow>
     sum_list (map price (fst (run_machine step es s))) + funds (snd (run_machine step es s)) \<le>
     funds s + sum_list (map income es)"
proof (induction es arbitrary: s)
  case (Cons e es)
  then have p: "inv s" "ok e s" and g: "run_guarded step ok es (snd (step e s))" by simp_all
  show ?case using Cons.IH [OF step_inv [OF p] g] step_budget [OF p] by simp
qed simp

end

text \<open>A budget that is spent to the last: nothing is lost on the way either.\<close>

locale exact_budget = budget step inv ok income price funds
  for step :: "'e \<Rightarrow> 's \<Rightarrow> 'a list \<times> 's" and inv ok and income price funds +
  assumes step_exact:
    "inv s \<Longrightarrow> ok e s \<Longrightarrow> funds s + income e \<le> sum_list (map price (fst (step e s))) + funds (snd (step e s))"
begin

lemma run_exact:
  "inv s \<Longrightarrow> run_guarded step ok es s \<Longrightarrow>
     sum_list (map price (fst (run_machine step es s))) + funds (snd (run_machine step es s)) =
     funds s + sum_list (map income es)"
proof (induction es arbitrary: s)
  case (Cons e es)
  then have p: "inv s" "ok e s" and g: "run_guarded step ok es (snd (step e s))" by simp_all
  show ?case using Cons.IH [OF step_inv [OF p] g] step_budget [OF p] step_exact [OF p] by simp
qed simp

end

text \<open>Some outputs are paid for by other outputs, or by what the state holds.\<close>

locale paid_outputs = machine step inv ok
  for step :: "'e \<Rightarrow> 's \<Rightarrow> 'a list \<times> 's" and inv ok +
  fixes price :: "'a \<Rightarrow> nat"
    and pays :: "'a \<Rightarrow> nat"
    and funds :: "'s \<Rightarrow> nat"
  assumes step_paid:
    "inv s \<Longrightarrow> ok e s \<Longrightarrow>
       sum_list (map price (fst (step e s))) + funds (snd (step e s)) \<le> funds s + sum_list (map pays (fst (step e s)))"
begin

lemma run_paid:
  "inv s \<Longrightarrow> run_guarded step ok es s \<Longrightarrow>
     sum_list (map price (fst (run_machine step es s))) + funds (snd (run_machine step es s)) \<le>
     funds s + sum_list (map pays (fst (run_machine step es s)))"
proof (induction es arbitrary: s)
  case (Cons e es)
  then have p: "inv s" "ok e s" and g: "run_guarded step ok es (snd (step e s))" by simp_all
  show ?case using Cons.IH [OF step_inv [OF p] g] step_paid [OF p] by simp
qed simp

end

text \<open>
  Actions that open and close: never two opens without a close between them. \<open>paired\<close> reads the
  actions in order and gives what is open after them, \<open>None\<close> when they are out of order.
\<close>

fun paired :: "('a \<Rightarrow> bool) \<Rightarrow> ('a \<Rightarrow> bool) \<Rightarrow> bool \<Rightarrow> 'a list \<Rightarrow> bool option" where
  "paired opens closes b [] = Some b"
| "paired opens closes b (a # acts) =
     (if opens a then (if b then None else paired opens closes True acts)
      else if closes a then (if b then paired opens closes False acts else None)
      else paired opens closes b acts)"

lemma paired_append:
  "paired opens closes b (xs @ ys) = Option.bind (paired opens closes b xs) (\<lambda>c. paired opens closes c ys)"
  by (induction opens closes b xs rule: paired.induct) auto

lemma paired_other: "list_all (\<lambda>a. \<not> opens a \<and> \<not> closes a) xs \<Longrightarrow> paired opens closes b xs = Some b"
  by (induction xs) auto

locale alternating = machine step inv ok
  for step :: "'e \<Rightarrow> 's \<Rightarrow> 'a list \<times> 's" and inv ok +
  fixes opens closes :: "'a \<Rightarrow> bool"
    and is_open :: "'s \<Rightarrow> bool"
  assumes step_paired:
    "inv s \<Longrightarrow> ok e s \<Longrightarrow> paired opens closes (is_open s) (fst (step e s)) = Some (is_open (snd (step e s)))"
begin

lemma run_paired:
  "inv s \<Longrightarrow> run_guarded step ok es s \<Longrightarrow>
     paired opens closes (is_open s) (fst (run_machine step es s)) = Some (is_open (snd (run_machine step es s)))"
proof (induction es arbitrary: s)
  case (Cons e es)
  then have p: "inv s" "ok e s" and g: "run_guarded step ok es (snd (step e s))" by simp_all
  show ?case using Cons.IH [OF step_inv [OF p] g] step_paired [OF p] by (simp add: paired_append)
qed simp

end

text \<open>
  Some actions show a view of the state to the outside; what was shown last is up to date.
\<close>

fun last_shown :: "('a \<Rightarrow> 'v option) \<Rightarrow> 'v \<Rightarrow> 'a list \<Rightarrow> 'v" where
  "last_shown shows_view v [] = v"
| "last_shown shows_view v (a # acts) =
     last_shown shows_view (case shows_view a of None \<Rightarrow> v | Some w \<Rightarrow> w) acts"

lemma last_shown_append: "last_shown shows_view v (xs @ ys) = last_shown shows_view (last_shown shows_view v xs) ys"
  by (induction xs arbitrary: v) simp_all

locale mirrored = machine step inv ok
  for step :: "'e \<Rightarrow> 's \<Rightarrow> 'a list \<times> 's" and inv ok +
  fixes shows_view :: "'a \<Rightarrow> 'v option"
    and view :: "'s \<Rightarrow> 'v"
  assumes step_mirrored: "inv s \<Longrightarrow> ok e s \<Longrightarrow> last_shown shows_view (view s) (fst (step e s)) = view (snd (step e s))"
begin

lemma run_mirrored:
  "inv s \<Longrightarrow> run_guarded step ok es s \<Longrightarrow>
     last_shown shows_view (view s) (fst (run_machine step es s)) = view (snd (run_machine step es s))"
proof (induction es arbitrary: s)
  case (Cons e es)
  then have p: "inv s" "ok e s" and g: "run_guarded step ok es (snd (step e s))" by simp_all
  show ?case using Cons.IH [OF step_inv [OF p] g] step_mirrored [OF p] by (simp add: last_shown_append)
qed simp

end

end
