(* ===== verification/Codex_Facts.thy ===== *)
theory Codex_Facts
  imports Codex_Turns Machine
begin

section \<open>What the turns of a Codex thread promise\<close>

text \<open>
  The state between calls: the queue is marked running exactly while a turn runs, no prompt waits
  while none runs, and an interrupt waits for its answer only while a turn runs.
\<close>

definition turns_ok :: "turns \<Rightarrow> bool" where
  "turns_ok t \<longleftrightarrow>
     (tu_running t \<noteq> None \<longleftrightarrow> pq_running (tu_queue t)) \<and>
     (tu_running t = None \<longrightarrow> pq_pending (tu_queue t) = [] \<and> tu_interrupts t = []) \<and>
     (tu_gone t \<longrightarrow> tu_interrupts t = [])"

lemma turns_ok_default: "turns_ok turns_default"
  by (simp add: turns_ok_def turns_default_def)

subsection \<open>The parts of a step\<close>

lemma queue_accept_simps [simp]:
  "pq_running (snd (queue_accept m q)) = pq_running q"
  "cancels_turn (fst (queue_accept (Interrupt s entry) q)) = pq_running q"
  "pq_pending (snd (queue_accept (Interrupt s entry) q)) = s # pq_pending q"
  "pq_pending (snd (queue_accept (Prompt s) q)) = pq_pending q @ [s]"
  by (cases m) (simp_all add: cancels_turn_def Let_def)

declare queue_accept.simps [simp del]

lemma queue_remind_simps [simp]: "pq_running (queue_remind q) = pq_running q"
  by (simp add: queue_remind_def)

lemma send_interrupt_cases:
  "send_interrupt t = ([], t) \<or> (\<exists>i. send_interrupt t = ([InterruptTurn i], t\<lparr>tu_interrupt_sent := True\<rparr>))"
  by (auto simp: send_interrupt_def split: option.split)

lemma send_interrupt_fields [simp]:
  "tu_running (snd (send_interrupt t)) = tu_running t" "tu_queue (snd (send_interrupt t)) = tu_queue t"
  "tu_interrupts (snd (send_interrupt t)) = tu_interrupts t" "tu_gone (snd (send_interrupt t)) = tu_gone t"
  by (auto simp: send_interrupt_def split: option.split)

lemma turns_advance_cases:
  obtains (stay) "turns_advance t = ([], t)" "tu_running t \<noteq> None \<or> pq_pending (tu_queue t) = []"
  | (start) s rest t' where "tu_running t = None" "pq_pending (tu_queue t) = s # rest"
      "turns_advance t = ([Emit EvTurnStarted, Start s], t')"
      "tu_running t' = Some s" "pq_pending (tu_queue t') = rest" "pq_running (tu_queue t')"
      "tu_interrupts t' = tu_interrupts t" "tu_gone t' = tu_gone t"
proof (cases "tu_running t \<noteq> None \<or> pq_pending (tu_queue t) = []")
  case True
  then show ?thesis by (intro stay) (auto simp: turns_advance_def queue_start_def split: list.split)
next
  case False
  then obtain s rest where "pq_pending (tu_queue t) = s # rest" by (cases "pq_pending (tu_queue t)") auto
  with False show ?thesis
    by (intro start [of s rest "snd (turns_advance t)"]) (auto simp: turns_advance_def queue_start_def)
qed

text \<open>
  A turn ends: what is answered, in parts, and the state with which the next turn is looked for.
\<close>

definition ended_turn :: "turn_end \<Rightarrow> bool \<Rightarrow> string \<Rightarrow> turns \<Rightarrow> turn_outcome" where
  "ended_turn e closing s t =
     turn_outcome_of (turn_stop e) (tu_reported t) (s = REPORT_REMINDER) closing (e = Interrupted \<and> tu_interrupt_sent t)"

definition after_end :: "turn_end \<Rightarrow> bool \<Rightarrow> string \<Rightarrow> turns \<Rightarrow> turns" where
  "after_end e closing s t =
     (let t' = t\<lparr>tu_running := None, tu_queue := snd (queue_finish (tu_queue t)), tu_interrupts := []\<rparr>
      in if ended_turn e closing s t = ORemind then t'\<lparr>tu_queue := queue_remind (tu_queue t')\<rparr> else t')"

lemma turns_end_eq:
  assumes "tu_running t = Some s"
  shows "turns_end e closing t =
    ((if closing then [] else [Snapshot]) @ [Emit (EvTurnEnded e)] @
      map (\<lambda>entry. InterruptResult entry (outcome_of_bool (e = Interrupted))) (tu_interrupts t) @
      outcome_actions (ended_turn e closing s t) @ fst (turns_advance (after_end e closing s t)),
     snd (turns_advance (after_end e closing s t)))"
  using assms
  by (simp add: turns_end_def Let_def resolve_interrupts_def ended_turn_def after_end_def split_def)

lemma outcome_actions_cases:
  "outcome_actions outcome = [] \<or> outcome_actions outcome = [MarkUnreported] \<or> (\<exists>p. outcome_actions outcome = [PostFailure p])"
  by (cases outcome) (auto simp: outcome_actions_def)

lemma reminded_once: "ended_turn e closing s t = ORemind \<Longrightarrow> s \<noteq> REPORT_REMINDER"
  by (auto simp: ended_turn_def turn_outcome_of_def split: sum.splits if_splits)

text \<open>What a notification does, from what it may stand for.\<close>

lemma notify_cases:
  assumes "P ([], t)" and "\<And>i. P (bind_turn i t)" and "\<And>sig. P (turns_signal sig closing t)"
  shows "P (codex_step (XNotify meth params closing) t)"
  using assms by (auto simp: turns_notification_def Let_def simp del: turns_signal.simps split: option.split)

subsection \<open>The state between calls\<close>

lemma ok_send_interrupt: "turns_ok t \<Longrightarrow> turns_ok (snd (send_interrupt t))"
  by (simp add: turns_ok_def)

lemma ok_advance:
  assumes "tu_running t \<noteq> None \<longleftrightarrow> pq_running (tu_queue t)" "tu_interrupts t = []"
  shows "turns_ok (snd (turns_advance t))"
  by (rule turns_advance_cases [of t]) (use assms in \<open>auto simp: turns_ok_def\<close>)

lemma ok_end: "turns_ok t \<Longrightarrow> turns_ok (snd (turns_end e closing t))"
proof (cases "tu_running t")
  case (Some s)
  then show ?thesis unfolding turns_end_eq [OF Some] snd_conv
    by (intro ok_advance) (auto simp: after_end_def queue_finish_def Let_def)
qed (simp add: turns_end_def)

lemma ok_signal: "turns_ok t \<Longrightarrow> turns_ok (snd (turns_signal sig closing t))"
  by (cases sig) (auto simp: ok_end, auto simp: turns_ok_def)

lemma ok_bind: "turns_ok t \<Longrightarrow> turns_ok (snd (bind_turn i t))"
  by (auto simp: bind_turn_def turns_ok_def)

lemma ok_resolve: "turns_ok t \<Longrightarrow> turns_ok (snd (resolve_interrupts outcome t))"
  by (auto simp: turns_ok_def resolve_interrupts_def)

lemma ok_accept: "turns_ok t \<Longrightarrow> turns_ok (snd (turns_accept s t))"
  unfolding turns_accept_def
  by (rule turns_advance_cases [of "t\<lparr>tu_queue := snd (queue_accept (Prompt s) (tu_queue t))\<rparr>"])
    (auto simp: turns_ok_def)

lemma turns_interrupt_eq:
  "turns_interrupt s entry t =
     (if tu_gone t then ([InterruptResult entry Gone], t)
      else (let t' = t\<lparr>tu_queue := snd (queue_accept (Interrupt s entry) (tu_queue t))\<rparr>
        in if pq_running (tu_queue t) then send_interrupt (t'\<lparr>tu_interrupts := tu_interrupts t' @ [entry]\<rparr>)
           else (InterruptResult entry Sent # fst (turns_advance t'), snd (turns_advance t'))))"
proof -
  obtain steps q where q: "queue_accept (Interrupt s entry) (tu_queue t) = (steps, q)" by fastforce
  then have "cancels_turn steps = pq_running (tu_queue t)"
    using queue_accept_simps(2) [of s entry "tu_queue t"] by simp
  then show ?thesis by (simp add: turns_interrupt_def q Let_def split_def)
qed

lemma ok_interrupt: "turns_ok t \<Longrightarrow> turns_ok (snd (turns_interrupt s entry t))"
proof -
  assume ok: "turns_ok t"
  let ?t = "t\<lparr>tu_queue := snd (queue_accept (Interrupt s entry) (tu_queue t))\<rparr>"
  show ?thesis
  proof (cases "tu_gone t \<or> pq_running (tu_queue t)")
    case True
    then show ?thesis using ok
      by (auto simp: turns_interrupt_eq Let_def turns_ok_def)
  next
    case False
    then have "turns_ok (snd (turns_advance ?t))"
      using ok by (intro ok_advance) (simp_all add: turns_ok_def)
    then show ?thesis using False by (simp add: turns_interrupt_eq Let_def)
  qed
qed

lemma ok_calls:
  assumes "turns_ok t"
  shows "turns_ok (snd (interrupt_dropped t))" "turns_ok (snd (process_gone t))"
    "turns_ok (snd (turns_close t))" "turns_ok (snd (interrupt_failed code t))"
proof -
  have r: "turns_ok (t\<lparr>tu_interrupt_sent := b\<rparr>)" "turns_ok (t\<lparr>tu_close_requested := b\<rparr>)" for b
    using assms by (simp_all add: turns_ok_def)
  show "turns_ok (snd (interrupt_dropped t))" unfolding interrupt_dropped_def by (rule ok_resolve [OF r(1)])
  show "turns_ok (snd (process_gone t))" using assms by (auto simp: process_gone_def resolve_interrupts_def turns_ok_def)
  show "turns_ok (snd (turns_close t))" using assms r(2) by (simp add: turns_close_def ok_send_interrupt)
  show "turns_ok (snd (interrupt_failed code t))" using assms by (simp add: interrupt_failed_def ok_resolve)
qed

lemma turns_ok_step:
  assumes "turns_ok t"
  shows "turns_ok (snd (codex_step e t))"
proof (cases e)
  case (XNotify meth params closing)
  show ?thesis unfolding XNotify by (rule notify_cases) (simp_all add: assms ok_signal ok_bind)
qed (simp_all add: assms ok_accept ok_interrupt ok_bind ok_signal ok_calls)

subsection \<open>One turn at a time\<close>

fun starts_turn :: "turn_action \<Rightarrow> bool" where
  "starts_turn (Start s) = True"
| "starts_turn _ = False"

fun ends_turn :: "turn_action \<Rightarrow> bool" where
  "ends_turn (Emit (EvTurnEnded e)) = True"
| "ends_turn _ = False"

abbreviation turn_pairs :: "bool \<Rightarrow> turn_action list \<Rightarrow> bool option" where
  "turn_pairs \<equiv> paired starts_turn ends_turn"

definition turn_runs :: "turns \<Rightarrow> bool" where
  "turn_runs t \<longleftrightarrow> tu_running t \<noteq> None"

lemma pairs_send_interrupt [simp]: "turn_pairs b (fst (send_interrupt t)) = Some b"
  using send_interrupt_cases [of t] by auto

lemma pairs_resolve [simp]: "turn_pairs b (fst (resolve_interrupts outcome t)) = Some b"
  by (rule paired_other) (simp add: resolve_interrupts_def list_all_iff)

lemma pairs_parts [simp]:
  "turn_pairs b (map (\<lambda>entry. InterruptResult entry out) xs) = Some b" "turn_pairs b (outcome_actions r) = Some b"
  using outcome_actions_cases [of r] by (auto intro: paired_other simp: list_all_iff)

lemma turn_runs_simps [simp]:
  "turn_runs (snd (send_interrupt t)) = turn_runs t" "turn_runs (snd (resolve_interrupts outcome t)) = turn_runs t"
  "turn_runs (t\<lparr>tu_queue := q\<rparr>) = turn_runs t" "turn_runs (t\<lparr>tu_turn_id := i\<rparr>) = turn_runs t"
  "turn_runs (t\<lparr>tu_interrupts := xs\<rparr>) = turn_runs t" "turn_runs (t\<lparr>tu_reported := x\<rparr>) = turn_runs t"
  "turn_runs (t\<lparr>tu_interrupt_sent := x\<rparr>) = turn_runs t" "turn_runs (t\<lparr>tu_gone := x\<rparr>) = turn_runs t"
  "turn_runs (t\<lparr>tu_close_requested := x\<rparr>) = turn_runs t"
  by (simp_all add: turn_runs_def resolve_interrupts_def)

lemma pairs_advance:
  "turn_pairs (turn_runs t) (fst (turns_advance t)) = Some (turn_runs (snd (turns_advance t)))"
  by (rule turns_advance_cases [of t]) (auto simp: turn_runs_def)

lemma pairs_end:
  "turn_pairs (turn_runs t) (fst (turns_end e closing t)) = Some (turn_runs (snd (turns_end e closing t)))"
proof (cases "tu_running t")
  case (Some s)
  have "\<not> turn_runs (after_end e closing s t)" "turn_runs t" by (simp_all add: after_end_def Let_def turn_runs_def Some)
  then show ?thesis unfolding turns_end_eq [OF Some] fst_conv snd_conv
    using pairs_advance [of "after_end e closing s t"] by (cases closing) (simp_all add: paired_append)
qed (simp add: turns_end_def)

lemma pairs_signal:
  "turn_pairs (turn_runs t) (fst (turns_signal sig closing t)) = Some (turn_runs (snd (turns_signal sig closing t)))"
  by (cases sig) (auto simp: pairs_end)

lemma running_resolve [simp]:
  "tu_running (snd (resolve_interrupts outcome t)) = tu_running t" "tu_queue (snd (resolve_interrupts outcome t)) = tu_queue t"
  by (simp_all add: resolve_interrupts_def)

interpretation codex: machine codex_step turns_ok "\<lambda>e t. True"
  by unfold_locales (rule turns_ok_step)

interpretation codex_turns: alternating codex_step turns_ok "\<lambda>e t. True" starts_turn ends_turn turn_runs
proof unfold_locales
  fix t :: turns and e
  assume ok: "turns_ok t"
  show "turn_pairs (turn_runs t) (fst (codex_step e t)) = Some (turn_runs (snd (codex_step e t)))"
  proof (cases e)
    case (XAccept s)
    then show ?thesis
      using pairs_advance [of "t\<lparr>tu_queue := snd (queue_accept (Prompt s) (tu_queue t))\<rparr>"] by (simp add: turns_accept_def)
  next
    case (XInterrupt s entry)
    then show ?thesis
      using pairs_advance [of "t\<lparr>tu_queue := snd (queue_accept (Interrupt s entry) (tu_queue t))\<rparr>"]
      by (simp add: turns_interrupt_eq Let_def)
  next
    case (XNotify meth params closing)
    show ?thesis unfolding XNotify by (rule notify_cases) (simp_all add: pairs_signal bind_turn_def)
  qed (simp_all add: interrupt_dropped_def process_gone_def turns_close_def bind_turn_def interrupt_failed_def pairs_signal
      del: turns_signal.simps)
qed

subsection \<open>Interrupts and prompts are accounted for\<close>

fun interrupt_entry :: "codex_event \<Rightarrow> string list" where
  "interrupt_entry (XInterrupt s entry) = [entry]"
| "interrupt_entry _ = []"

fun answered_entry :: "turn_action \<Rightarrow> string list" where
  "answered_entry (InterruptResult entry outcome) = [entry]"
| "answered_entry _ = []"

abbreviation answers :: "turn_action list \<Rightarrow> string list" where
  "answers acts \<equiv> concat (map answered_entry acts)"

lemma answers_send_interrupt [simp]: "answers (fst (send_interrupt t)) = []"
  using send_interrupt_cases [of t] by auto

lemma answers_resolve [simp]:
  "answers (fst (resolve_interrupts outcome t)) = tu_interrupts t" "tu_interrupts (snd (resolve_interrupts outcome t)) = []"
  by (simp_all add: resolve_interrupts_def comp_def)

lemma answers_advance [simp]:
  "answers (fst (turns_advance t)) = []" "tu_interrupts (snd (turns_advance t)) = tu_interrupts t"
  by (rule turns_advance_cases [of t]; simp)+

lemma answers_end: "answers (fst (turns_end e closing t)) @ tu_interrupts (snd (turns_end e closing t)) = tu_interrupts t"
proof (cases "tu_running t")
  case (Some s)
  have "answers (outcome_actions r) = []" for r using outcome_actions_cases [of r] by auto
  then show ?thesis unfolding turns_end_eq [OF Some] by (simp add: comp_def after_end_def Let_def)
qed (simp add: turns_end_def)

lemma answers_signal:
  "answers (fst (turns_signal sig closing t)) @ tu_interrupts (snd (turns_signal sig closing t)) = tu_interrupts t"
  by (cases sig) (auto simp: answers_end)

interpretation codex_interrupts: ledger codex_step turns_ok "\<lambda>e t. True" interrupt_entry answered_entry tu_interrupts
proof unfold_locales
  fix t :: turns and e
  assume ok: "turns_ok t"
  show "answers (fst (codex_step e t)) @ tu_interrupts (snd (codex_step e t)) = tu_interrupts t @ interrupt_entry e"
  proof (cases e)
    case (XInterrupt s entry)
    then show ?thesis using ok by (auto simp: turns_interrupt_eq Let_def turns_ok_def)
  next
    case (XNotify meth params closing)
    show ?thesis unfolding XNotify by (rule notify_cases) (simp_all add: answers_signal bind_turn_def)
  qed (simp_all add: turns_accept_def interrupt_dropped_def process_gone_def turns_close_def bind_turn_def
      interrupt_failed_def answers_signal del: turns_signal.simps)
qed

text \<open>The texts a step starts, beside what it leaves pending and running.\<close>

fun started_text :: "turn_action \<Rightarrow> string list" where
  "started_text (Start s) = [s]"
| "started_text _ = []"

abbreviation starts :: "turn_action list \<Rightarrow> string list" where
  "starts acts \<equiv> concat (map started_text acts)"

abbreviation pending :: "turns \<Rightarrow> string list" where
  "pending t \<equiv> pq_pending (tu_queue t)"

text \<open>A measure of states: what the pending texts and the running one weigh.\<close>

definition weight :: "(string \<Rightarrow> nat) \<Rightarrow> (string \<Rightarrow> nat) \<Rightarrow> turns \<Rightarrow> nat" where
  "weight w r t = sum_list (map w (pending t)) + (case tu_running t of None \<Rightarrow> 0 | Some s \<Rightarrow> r s)"

lemma weight_simps [simp]:
  "weight w r (snd (send_interrupt t)) = weight w r t" "weight w r (snd (resolve_interrupts outcome t)) = weight w r t"
  "weight w r (t\<lparr>tu_turn_id := i\<rparr>) = weight w r t" "weight w r (t\<lparr>tu_interrupts := xs\<rparr>) = weight w r t"
  "weight w r (t\<lparr>tu_reported := x\<rparr>) = weight w r t" "weight w r (t\<lparr>tu_interrupt_sent := x\<rparr>) = weight w r t"
  "weight w r (t\<lparr>tu_gone := x\<rparr>) = weight w r t" "weight w r (t\<lparr>tu_close_requested := x\<rparr>) = weight w r t"
  by (simp_all add: weight_def)

lemma starts_quiet [simp]:
  "starts (fst (send_interrupt t)) = []" "starts (fst (resolve_interrupts outcome t)) = []"
  "starts (outcome_actions oc) = []"
  using send_interrupt_cases [of t] outcome_actions_cases [of oc] by (auto simp: resolve_interrupts_def)

text \<open>A text moves from the queue to the running turn as it is started.\<close>

lemma weight_advance:
  assumes "\<And>s. w s = p s + r s"
  shows "sum_list (map p (starts (fst (turns_advance t)))) + weight w r (snd (turns_advance t)) = weight w r t"
  by (rule turns_advance_cases [of t]) (auto simp: weight_def assms)

lemma weight_end:
  assumes "\<And>s. w s = p s + r s" "tu_running t = Some s"
  shows "sum_list (map p (starts (fst (turns_end e closing t)))) + weight w r (snd (turns_end e closing t)) + r s =
    weight w r t +
    (if ended_turn e closing s t = ORemind \<and> REPORT_REMINDER \<notin> set (pending t) then w REPORT_REMINDER else 0)"
proof -
  have "weight w r (after_end e closing s t) + r s = weight w r t +
      (if ended_turn e closing s t = ORemind \<and> REPORT_REMINDER \<notin> set (pending t) then w REPORT_REMINDER else 0)"
    by (auto simp: weight_def after_end_def Let_def queue_remind_def queue_finish_def assms(2) list_ex_iff)
  moreover have "starts (fst (turns_end e closing t)) = starts (fst (turns_advance (after_end e closing s t)))"
    and "snd (turns_end e closing t) = snd (turns_advance (after_end e closing s t))"
    unfolding turns_end_eq [OF assms(2)] by (simp_all add: comp_def)
  ultimately show ?thesis using weight_advance [of w p r "after_end e closing s t", OF assms(1)] by simp
qed

fun prompt_texts :: "codex_event \<Rightarrow> string list" where
  "prompt_texts (XAccept s) = [s]"
| "prompt_texts (XInterrupt s entry) = [s]"
| "prompt_texts _ = []"

lemma weight_accept:
  assumes "\<And>s. w s = p s + r s"
  shows "sum_list (map p (starts (fst (turns_accept s t)))) + weight w r (snd (turns_accept s t)) = weight w r t + w s"
proof -
  have "weight w r (t\<lparr>tu_queue := snd (queue_accept (Prompt s) (tu_queue t))\<rparr>) = weight w r t + w s"
    by (simp add: weight_def)
  then show ?thesis unfolding turns_accept_def using weight_advance [of w p r, OF assms] by simp
qed

lemma weight_interrupt:
  assumes "\<And>s. w s = p s + r s"
  shows "sum_list (map p (starts (fst (turns_interrupt s entry t)))) + weight w r (snd (turns_interrupt s entry t)) =
    weight w r t + (if tu_gone t then 0 else w s)"
proof -
  let ?t = "t\<lparr>tu_queue := snd (queue_accept (Interrupt s entry) (tu_queue t))\<rparr>"
  have "weight w r ?t = weight w r t + w s" by (simp add: weight_def)
  then show ?thesis using weight_advance [of w p r ?t, OF assms] by (simp add: turns_interrupt_eq Let_def)
qed

text \<open>
  Two measures. A prompt pays for two turns: its own and the one of a reminder, which is queued at most
  once per turn and never after a reminder. And a text other than the reminder is started exactly as
  often as it is given, once the turn it waits for is over.
\<close>

definition due :: "string \<Rightarrow> nat" where
  "due s = (if s = REPORT_REMINDER then 0 else 1)"

definition turn_funds :: "turns \<Rightarrow> nat" where
  "turn_funds = weight (\<lambda>s. Suc (due s)) due"

definition waiting :: "string \<Rightarrow> turns \<Rightarrow> nat" where
  "waiting x = weight (\<lambda>s. if s = x then 1 else 0) (\<lambda>s. 0)"

lemma waiting_eq: "waiting x t = count_list (pending t) x"
proof -
  have "sum_list (map (\<lambda>s. if s = x then 1 else 0) ss) = count_list ss x" for ss :: "string list"
    by (induction ss) auto
  then show ?thesis by (simp add: waiting_def weight_def split: option.split)
qed

lemma bind_quiet [simp]:
  "starts (fst (bind_turn i t)) = []" "weight w r (snd (bind_turn i t)) = weight w r t"
  "tu_gone (snd (bind_turn i t)) = tu_gone t"
  by (simp_all add: bind_turn_def del: concat_eq_Nil_conv)

lemma funds_signal:
  "length (starts (fst (turns_signal sig closing t))) + turn_funds (snd (turns_signal sig closing t)) \<le> turn_funds t"
proof (cases sig)
  case (SigTurnEnded e)
  show ?thesis
  proof (cases "tu_running t")
    case (Some s)
    show ?thesis
      using weight_end [of "\<lambda>s. Suc (due s)" "\<lambda>_. 1" due t s e closing] Some reminded_once [of e closing s t]
      by (cases "ended_turn e closing s t = ORemind") (auto simp: SigTurnEnded turn_funds_def sum_list_triv due_def split: if_splits)
  qed (simp add: SigTurnEnded turns_end_def)
qed (simp add: turn_funds_def)

lemma waiting_signal:
  assumes "x \<noteq> REPORT_REMINDER"
  shows "count_list (starts (fst (turns_signal sig closing t))) x + waiting x (snd (turns_signal sig closing t)) = waiting x t"
proof (cases sig)
  case (SigTurnEnded e)
  show ?thesis
  proof (cases "tu_running t")
    case (Some s)
    have c: "sum_list (map (\<lambda>s. if s = x then 1 else 0) ss) = count_list ss x" for ss :: "string list"
      by (induction ss) auto
    show ?thesis
      using weight_end [of "\<lambda>s. if s = x then 1 else 0" "\<lambda>s. if s = x then 1 else 0" "\<lambda>_. 0" t s e closing] Some assms
      by (auto simp: SigTurnEnded waiting_def c)
  qed (simp add: SigTurnEnded turns_end_def)
qed (simp add: waiting_def)

lemma count_sum: "sum_list (map (\<lambda>s. if s = x then 1 else 0) ss) = count_list ss x"
  by (induction ss) auto

fun start_price :: "turn_action \<Rightarrow> nat" where
  "start_price (Start s) = 1"
| "start_price _ = 0"

fun start_of :: "string \<Rightarrow> turn_action \<Rightarrow> nat" where
  "start_of x (Start s) = (if s = x then 1 else 0)"
| "start_of x _ = 0"

lemma start_price_sum: "sum_list (map start_price acts) = length (starts acts)"
proof (induction acts)
  case (Cons a acts)
  then show ?case by (cases a) simp_all
qed simp

lemma start_of_sum: "sum_list (map (start_of x) acts) = count_list (starts acts) x"
proof (induction acts)
  case (Cons a acts)
  then show ?case by (cases a) simp_all
qed simp

interpretation codex_budget: budget codex_step turns_ok "\<lambda>e t. True" "\<lambda>e. 2 * length (prompt_texts e)" start_price turn_funds
proof unfold_locales
  fix t :: turns and e
  assume "turns_ok t"
  have d: "due s \<le> 1" for s by (simp add: due_def)
  have "length (starts (fst (codex_step e t))) + turn_funds (snd (codex_step e t)) \<le> turn_funds t + 2 * length (prompt_texts e)"
  proof (cases e)
    case (XAccept s)
    then show ?thesis using weight_accept [of "\<lambda>s. Suc (due s)" "\<lambda>_. 1" due s t] d [of s]
      by (simp add: turn_funds_def sum_list_triv)
  next
    case (XInterrupt s entry)
    then show ?thesis using weight_interrupt [of "\<lambda>s. Suc (due s)" "\<lambda>_. 1" due s entry t] d [of s]
      by (auto simp: turn_funds_def sum_list_triv split: if_splits)
  next
    case (XNotify meth params closing)
    show ?thesis unfolding XNotify
      by (rule notify_cases) (simp_all add: funds_signal, simp add: turn_funds_def)
  qed (simp_all add: funds_signal interrupt_dropped_def process_gone_def turns_close_def interrupt_failed_def turn_funds_def [symmetric]
      del: turns_signal.simps, simp_all add: turn_funds_def)
  then show "sum_list (map start_price (fst (codex_step e t))) + turn_funds (snd (codex_step e t)) \<le>
      turn_funds t + 2 * length (prompt_texts e)" by (simp add: start_price_sum)
qed

lemma gone_stays:
  "tu_gone (snd (turns_advance t)) = tu_gone t" "tu_gone (snd (turns_signal sig closing t)) = tu_gone t"
proof -
  show a: "tu_gone (snd (turns_advance t)) = tu_gone t" for t by (rule turns_advance_cases [of t]) auto
  show "tu_gone (snd (turns_signal sig closing t)) = tu_gone t"
  proof (cases sig)
    case (SigTurnEnded e)
    then show ?thesis by (cases "tu_running t") (simp_all add: turns_end_eq a, simp_all add: turns_end_def after_end_def Let_def)
  qed simp
qed

lemma gone_step:
  assumes "e \<noteq> XGone"
  shows "tu_gone (snd (codex_step e t)) = tu_gone t"
proof (cases e)
  case (XNotify meth params closing)
  show ?thesis unfolding XNotify by (rule notify_cases) (simp_all add: gone_stays)
qed (use assms in \<open>simp_all add: gone_stays turns_accept_def turns_interrupt_eq Let_def interrupt_dropped_def
    resolve_interrupts_def turns_close_def bind_turn_def interrupt_failed_def\<close>)

lemma waiting_step:
  assumes "\<not> tu_gone t" "x \<noteq> REPORT_REMINDER" "e \<noteq> XGone"
  shows "count_list (starts (fst (codex_step e t))) x + waiting x (snd (codex_step e t)) =
    waiting x t + count_list (prompt_texts e) x"
proof (cases e)
  case (XAccept s)
  then show ?thesis
    using weight_accept [of "\<lambda>s. if s = x then 1 else 0" "\<lambda>s. if s = x then 1 else 0" "\<lambda>_. 0" s t]
    by (auto simp: waiting_def count_sum)
next
  case (XInterrupt s entry)
  then show ?thesis
    using weight_interrupt [of "\<lambda>s. if s = x then 1 else 0" "\<lambda>s. if s = x then 1 else 0" "\<lambda>_. 0" s entry t] assms(1)
    by (auto simp: waiting_def count_sum)
next
  case (XNotify meth params closing)
  show ?thesis unfolding XNotify
    by (rule notify_cases) (simp_all add: waiting_signal [OF assms(2)], simp add: waiting_def)
qed (use assms in \<open>simp_all add: waiting_signal interrupt_dropped_def process_gone_def turns_close_def interrupt_failed_def
    del: turns_signal.simps, simp_all add: waiting_def\<close>)

interpretation codex_prompts: exact_budget codex_step "\<lambda>t. turns_ok t \<and> \<not> tu_gone t \<and> x \<noteq> REPORT_REMINDER"
    "\<lambda>e t. e \<noteq> XGone" "\<lambda>e. count_list (prompt_texts e) x" "start_of x" "waiting x" for x
  by unfold_locales (auto simp: turns_ok_step gone_step start_of_sum waiting_step)

subsection \<open>The properties\<close>

lemma sum_texts:
  "sum_list (map (\<lambda>e. 2 * length (prompt_texts e)) es) = 2 * length (concat (map prompt_texts es))"
  "sum_list (map (\<lambda>e. count_list (prompt_texts e) x) es) = count_list (concat (map prompt_texts es)) x"
  by (induction es) simp_all

lemma no_gone: "run_guarded codex_step (\<lambda>e t. e \<noteq> XGone) es t \<longleftrightarrow> XGone \<notin> set es"
  by (induction es arbitrary: t) auto

text \<open>C21: in every sequence of calls, a turn of the thread is started only when the turn before it has
  ended, and a turn that ends was started: the starts and ends among the actions alternate, and a
  last start is open exactly when the state says that a turn runs.\<close>

theorem codex_one_turn_at_a_time:
  "paired starts_turn ends_turn False (fst (run_machine codex_step es turns_default)) =
     Some (tu_running (snd (run_machine codex_step es turns_default)) \<noteq> None)"
  using codex_turns.run_paired [of turns_default es] turns_ok_default
  by (simp add: turn_runs_def turns_default_def)

text \<open>C17: every interrupt gets exactly one result, in the order in which the interrupts came, whatever
  becomes of its turn, of the request to interrupt it and of the process; while no turn runs, or once
  the process is gone, no interrupt is left without its result.\<close>

theorem interrupts_answered_once:
  "concat (map answered_entry (fst (run_machine codex_step es turns_default))) @
     tu_interrupts (snd (run_machine codex_step es turns_default)) = concat (map interrupt_entry es) \<and>
   (tu_interrupts (snd (run_machine codex_step es turns_default)) = [] \<or>
     tu_running (snd (run_machine codex_step es turns_default)) \<noteq> None \<and>
     \<not> tu_gone (snd (run_machine codex_step es turns_default)))"
proof
  show "answers (fst (run_machine codex_step es turns_default)) @
     tu_interrupts (snd (run_machine codex_step es turns_default)) = concat (map interrupt_entry es)"
    using codex_interrupts.run_ledger [of turns_default es] turns_ok_default by (simp add: turns_default_def)
  show "tu_interrupts (snd (run_machine codex_step es turns_default)) = [] \<or>
     tu_running (snd (run_machine codex_step es turns_default)) \<noteq> None \<and>
     \<not> tu_gone (snd (run_machine codex_step es turns_default))"
    using codex.run_inv [of turns_default es] turns_ok_default by (auto simp: turns_ok_def)
qed

text \<open>C31: a worker that never reports cannot keep the thread busy: the turns started are at most two for
  each prompt, since a reminder is queued at most once per turn and a turn with the reminder is not
  followed by another one.\<close>

theorem codex_turns_bounded:
  "length (concat (map started_text (fst (run_machine codex_step es turns_default)))) \<le>
     2 * length (concat (map prompt_texts es))"
proof -
  have "turn_funds turns_default = 0" by (simp add: turn_funds_def weight_def turns_default_def)
  then show ?thesis using codex_budget.run_budget [of turns_default es] turns_ok_default
    by (simp add: start_price_sum sum_texts)
qed

text \<open>C16: no prompt is lost or run twice: as long as the process lives, every text other than the
  reminder is started as often as it was given, apart from the ones still in the queue, and the queue
  is empty while no turn runs.\<close>

theorem codex_prompts_conserved:
  assumes "XGone \<notin> set es" and "x \<noteq> REPORT_REMINDER"
  shows "count_list (concat (map started_text (fst (run_machine codex_step es turns_default)))) x +
      count_list (pq_pending (tu_queue (snd (run_machine codex_step es turns_default)))) x =
    count_list (concat (map prompt_texts es)) x \<and>
    (tu_running (snd (run_machine codex_step es turns_default)) \<noteq> None \<or>
     pq_pending (tu_queue (snd (run_machine codex_step es turns_default))) = [])"
proof -
  have "turns_ok turns_default \<and> \<not> tu_gone turns_default \<and> x \<noteq> REPORT_REMINDER"
    using assms turns_ok_default by (simp add: turns_default_def)
  moreover have "waiting x turns_default = 0" by (simp add: waiting_def weight_def turns_default_def)
  moreover have "turns_ok (snd (run_machine codex_step es turns_default))"
    by (rule codex.run_inv) (simp_all add: turns_ok_default)
  ultimately show ?thesis
    using codex_prompts.run_exact [of turns_default x es] assms
    by (auto simp: no_gone start_of_sum sum_texts waiting_eq turns_ok_def)
qed

theorem codex_prompts_conserved_witness:
  "count_list (concat (map started_text (fst (run_machine codex_step [XAccept ''a''] turns_default)))) ''a'' +
     count_list (pq_pending (tu_queue (snd (run_machine codex_step [XAccept ''a''] turns_default)))) ''a'' = 1"
  using codex_prompts_conserved [of "[XAccept ''a'']" "''a''"] by (simp add: REPORT_REMINDER_def)

end
