(* ===== verification/Opencode_Turns.thy ===== *)
theory Opencode_Turns
  imports Headless
begin

section \<open>The turns of an OpenCode session\<close>

text \<open>
  \<open>crates/core/src/worker/opencode_http/turns.rs\<close>, with the permission requests and failures of
  \<open>worker/opencode_http.rs\<close>. The server's events and snapshots are arguments; which of them a session
  gets, and when, is up to the server.
\<close>

record permission_asked =
  ak_id :: string
  ak_session_id :: string
  ak_action :: string
  ak_resources :: "string list"
  ak_save :: "string list"

datatype permission_decision = Once | Always | Reject

fun decision_wire :: "permission_decision \<Rightarrow> string" where
  "decision_wire Once = ''once''"
| "decision_wire Always = ''always''"
| "decision_wire Reject = ''reject''"

definition decision_of :: "string \<Rightarrow> permission_decision option" where
  "decision_of option_id = List.find (\<lambda>d. decision_wire d = trim option_id) [Once, Always, Reject]"

definition decision_option :: "permission_decision \<Rightarrow> string \<Rightarrow> string \<Rightarrow> permission_option" where
  "decision_option d name kind = \<lparr>po_option_id = decision_wire d, po_name = name, po_kind = kind\<rparr>"

definition opencode_blocked_content :: "permission_asked \<Rightarrow> blocked_content" where
  "opencode_blocked_content a =
     \<lparr>bc_request_id = ak_id a, bc_tool = ak_action a,
      bc_summary = (if ak_resources a = [] then ak_action a else join ''; '' (ak_resources a)),
      bc_options = [decision_option Once ''Allow once'' ''allow_once'', decision_option Always ''Always allow'' ''allow_always'',
        decision_option Reject ''Reject'' ''reject_once''],
      bc_pending = []\<rparr>"

record api_error =
  ae_kind :: "string option"
  ae_message :: "string option"
  ae_status :: "nat option"

definition is_transient :: "nat option \<Rightarrow> bool" where
  "is_transient status = (case status of None \<Rightarrow> False | Some n \<Rightarrow> n \<in> {404, 408, 429} \<or> 500 \<le> n \<and> n \<le> 599)"

definition FALLBACK_FAILURE :: string where
  "FALLBACK_FAILURE = ''opencode turn failed''"

definition describe_error :: "api_error \<Rightarrow> string" where
  "describe_error e = (case ae_message e of Some m \<Rightarrow> m | None \<Rightarrow> (case ae_kind e of Some k \<Rightarrow> k | None \<Rightarrow> FALLBACK_FAILURE))"

definition api_failure :: "api_error option \<Rightarrow> turn_end" where
  "api_failure error = (case error of
     None \<Rightarrow> Failed FALLBACK_FAILURE False
   | Some e \<Rightarrow> Failed (describe_error e) (is_transient (ae_status e)))"

subsection \<open>The result of a turn, from the messages of a session\<close>

datatype session_message = MUser | MAssistant "string option list" "api_error option" | MIdle string | MOther

definition turn_end_of :: "string \<Rightarrow> session_message list \<Rightarrow> turn_end" where
  "turn_end_of outcome turn =
     (if outcome = ''succeeded'' then Succeeded
      else if outcome = ''interrupted'' then Interrupted
      else if outcome = ''failed''
        then api_failure (case List.map_filter (\<lambda>m. case m of MAssistant c e \<Rightarrow> e | _ \<Rightarrow> None) turn of e # es \<Rightarrow> Some e | [] \<Rightarrow> None)
      else Failed (''unknown opencode outcome: '' @ outcome) False)"

definition ends_aborted :: "session_message list \<Rightarrow> bool" where
  "ends_aborted turn \<longleftrightarrow>
     (case List.map_filter (\<lambda>m. case m of MAssistant c e \<Rightarrow> Some e | _ \<Rightarrow> None) turn of
        Some e # es \<Rightarrow> ae_kind e = Some ''aborted''
      | _ \<Rightarrow> False)"

record turn_result =
  tr_end :: turn_end
  tr_text :: string

definition turn_result_of :: "session_message list \<Rightarrow> bool \<Rightarrow> turn_result option" where
  "turn_result_of newest_first active =
     (if active then None
      else
        let turn = takeWhile (\<lambda>m. m \<noteq> MUser) newest_first;
            outcome = (case List.map_filter (\<lambda>m. case m of MIdle oc \<Rightarrow> Some oc | _ \<Rightarrow> None) turn of oc # ocs \<Rightarrow> Some oc | [] \<Rightarrow> None);
            e = (case outcome of
                   Some oc \<Rightarrow> Some (turn_end_of oc turn)
                 | None \<Rightarrow> if ends_aborted turn then Some Interrupted else None);
            s = join newline (concat (map (\<lambda>m. case m of MAssistant c e \<Rightarrow> List.map_filter id c | _ \<Rightarrow> []) (rev turn)))
        in map_option (\<lambda>e. \<lparr>tr_end = e, tr_text = s\<rparr>) e)"

subsection \<open>The state of a turn\<close>

definition TRANSIENT_RETRIES :: nat where
  "TRANSIENT_RETRIES = 2"

definition SERVER_STOPPED :: string where
  "SERVER_STOPPED = ''the opencode server stopped during the turn''"

datatype session_update = UTurnStarted | UBlocked permission_asked | UUnblocked string | UTurnEnded turn_end

record turn_state =
  ts_in_flight :: bool
  ts_reminded :: bool
  ts_retries :: nat
  ts_prompt :: string
  ts_blocked :: "permission_asked list"
  ts_interrupt_requested :: bool

definition turn_default :: turn_state where
  "turn_default = \<lparr>ts_in_flight = False, ts_reminded = False, ts_retries = 0, ts_prompt = [], ts_blocked = [],
     ts_interrupt_requested = False\<rparr>"

record turn_facts =
  tf_reported :: bool
  tf_closing :: bool

datatype turn_effect =
    XReady
  | XClearWaiting
  | XPublish "blocked_content option"
  | XSend string
  | XClearReported
  | XUnreported
  | XProblem string
  | XSnapshot

definition front :: "turn_state \<Rightarrow> blocked_content option" where
  "front t = (case ts_blocked t of
     [] \<Rightarrow> None
   | a # as \<Rightarrow> Some ((opencode_blocked_content a)\<lparr>bc_pending := map ak_id (ts_blocked t)\<rparr>))"

definition prompted :: "string \<Rightarrow> turn_state \<Rightarrow> turn_state" where
  "prompted s t = t\<lparr>ts_in_flight := True, ts_reminded := False, ts_retries := 0, ts_prompt := s\<rparr>"

definition server_lost :: "turn_state \<Rightarrow> turn_effect list \<times> turn_state" where
  "server_lost t =
     ((if ts_blocked t \<noteq> [] then [XPublish None] else []) @
      (if ts_in_flight t then [XProblem SERVER_STOPPED] else []), turn_default)"

fun transient_failure :: "turn_end \<Rightarrow> bool" where
  "transient_failure (Failed m True) = True"
| "transient_failure _ = False"

definition retries_turn :: "turn_end \<Rightarrow> turn_facts \<Rightarrow> turn_state \<Rightarrow> bool" where
  "retries_turn e facts t \<longleftrightarrow>
     transient_failure e \<and> ts_retries t < TRANSIENT_RETRIES \<and> ts_prompt t \<noteq> [] \<and> \<not> tf_closing facts"

fun settle_outcome :: "turn_outcome \<Rightarrow> turn_state \<Rightarrow> turn_effect list \<times> turn_state" where
  "settle_outcome ORemind t = ([XSend REPORT_REMINDER], t\<lparr>ts_in_flight := True, ts_prompt := REPORT_REMINDER\<rparr>)"
| "settle_outcome OUnreported t = ([XUnreported], t)"
| "settle_outcome (OProblem problem) t = ([XProblem problem], t)"
| "settle_outcome (OStopped problem) t = ([XProblem problem], t)"
| "settle_outcome OReported t = ([XClearReported], t)"
| "settle_outcome OCancelled t = ([], t)"
| "settle_outcome OClosed t = ([], t)"

definition settle :: "turn_end \<Rightarrow> turn_facts \<Rightarrow> turn_state \<Rightarrow> turn_effect list \<times> turn_state" where
  "settle e facts t0 =
     (let t = t0\<lparr>ts_in_flight := False\<rparr>
      in if retries_turn e facts t
         then ([XSend (ts_prompt t)], t\<lparr>ts_retries := ts_retries t + 1, ts_in_flight := True\<rparr>)
         else
           let requested = (ts_interrupt_requested t \<and> e = Interrupted);
               takes = (e = Interrupted \<and> \<not> tf_closing facts);
               dropped = (takes \<and> ts_blocked t \<noteq> []);
               outcome = turn_outcome_of (turn_stop e) (tf_reported facts) (ts_reminded t) (tf_closing facts) requested;
               (effects, t') = settle_outcome outcome
                 (t\<lparr>ts_retries := 0, ts_interrupt_requested := False,
                   ts_blocked := (if takes then [] else ts_blocked t), ts_reminded := (outcome = ORemind)\<rparr>)
           in ((if dropped then [XPublish None] else []) @ effects, t'))"

definition session_end :: "turn_end \<Rightarrow> turn_facts \<Rightarrow> turn_state \<Rightarrow> turn_effect list \<times> turn_state" where
  "session_end e facts t =
     (case settle e facts t of (effects, t') \<Rightarrow> ((if tf_closing facts then [] else [XSnapshot]) @ effects, t'))"

fun session_advance :: "session_update \<Rightarrow> turn_facts \<Rightarrow> turn_state \<Rightarrow> turn_effect list \<times> turn_state" where
  "session_advance UTurnStarted facts t = ([XReady, XClearWaiting], t\<lparr>ts_in_flight := True\<rparr>)"
| "session_advance (UBlocked asked) facts t =
     (if list_ex (\<lambda>known. ak_id known = ak_id asked) (ts_blocked t) then ([], t)
      else (let t' = t\<lparr>ts_blocked := ts_blocked t @ [asked]\<rparr> in ([XPublish (front t')], t')))"
| "session_advance (UUnblocked i) facts t =
     (let t' = t\<lparr>ts_blocked := filter (\<lambda>known. ak_id known \<noteq> i) (ts_blocked t)\<rparr>
      in if length (ts_blocked t') = length (ts_blocked t) then ([], t) else ([XPublish (front t')], t'))"
| "session_advance (UTurnEnded e) facts t = session_end e facts t"

record session_snapshot =
  sn_active :: bool
  sn_pending :: "permission_asked list"
  sn_result :: "turn_result option"

definition reconcile :: "turn_state \<Rightarrow> session_snapshot \<Rightarrow> session_update list" where
  "reconcile t sn =
     map (\<lambda>known. UUnblocked (ak_id known))
       (filter (\<lambda>known. \<not> list_ex (\<lambda>asked. ak_id asked = ak_id known) (sn_pending sn)) (ts_blocked t)) @
     map UBlocked (filter (\<lambda>asked. \<not> list_ex (\<lambda>known. ak_id known = ak_id asked) (ts_blocked t)) (sn_pending sn)) @
     (case (ts_in_flight t, sn_active sn, sn_result sn) of
        (False, True, r) \<Rightarrow> [UTurnStarted]
      | (True, False, Some r) \<Rightarrow> [UTurnEnded (tr_end r)]
      | _ \<Rightarrow> [])"

definition keeps_interrupt_request :: "bool option \<Rightarrow> bool \<Rightarrow> bool" where
  "keeps_interrupt_request outcome was_in_flight = (case outcome of Some confirmed \<Rightarrow> confirmed | None \<Rightarrow> was_in_flight)"

subsection \<open>What happens to a session\<close>

text \<open>
  The calls on the turn of a session: a prompt is sent (\<open>requests.rs\<close>), an interrupt is requested or
  not, the server is lost, or an update arrives, with the facts at that moment.
\<close>

datatype session_event =
    SPrompt string
  | SRequest bool
  | SLost
  | SUpdate session_update turn_facts

fun session_step :: "session_event \<Rightarrow> turn_state \<Rightarrow> turn_effect list \<times> turn_state" where
  "session_step (SPrompt s) t = ([], prompted s t)"
| "session_step (SRequest b) t = ([], t\<lparr>ts_interrupt_requested := b\<rparr>)"
| "session_step SLost t = server_lost t"
| "session_step (SUpdate u facts) t = session_advance u facts t"

end
