(* ===== verification/Opencode_Facts.thy ===== *)
theory Opencode_Facts
  imports Opencode_Turns Machine
begin

section \<open>What the turns of an OpenCode session promise\<close>

text \<open>The end of a turn, one case for each way it goes on.\<close>

lemma settle_outcome_fields [simp]:
  "ts_in_flight (snd (settle_outcome oc t)) \<longleftrightarrow> oc = ORemind \<or> ts_in_flight t"
  "ts_reminded (snd (settle_outcome oc t)) = ts_reminded t" "ts_retries (snd (settle_outcome oc t)) = ts_retries t"
  "ts_blocked (snd (settle_outcome oc t)) = ts_blocked t"
  by (cases oc; simp)+

fun sends :: "turn_effect \<Rightarrow> nat" where
  "sends (XSend s) = 1"
| "sends _ = 0"

fun published :: "turn_effect \<Rightarrow> blocked_content option option" where
  "published (XPublish c) = Some c"
| "published _ = None"

lemma settle_outcome_effects [simp]:
  "sum_list (map sends (fst (settle_outcome oc t))) = (if oc = ORemind then 1 else 0)"
  "last_shown published v (fst (settle_outcome oc t)) = v"
  by (cases oc; simp)+

definition outcome_of :: "turn_end \<Rightarrow> turn_facts \<Rightarrow> turn_state \<Rightarrow> turn_outcome" where
  "outcome_of e facts t = turn_outcome_of (turn_stop e) (tf_reported facts) (ts_reminded t) (tf_closing facts)
     (ts_interrupt_requested t \<and> e = Interrupted)"

lemma reminds_once: "outcome_of e facts t = ORemind \<Longrightarrow> \<not> ts_reminded t"
  by (auto simp: outcome_of_def turn_outcome_of_def split: sum.splits if_splits)

lemma settle_retry:
  "retries_turn e facts t \<Longrightarrow>
     settle e facts t = ([XSend (ts_prompt t)], t\<lparr>ts_in_flight := True, ts_retries := ts_retries t + 1\<rparr>)"
  by (simp add: settle_def Let_def retries_turn_def)

lemma settle_fields:
  assumes "\<not> retries_turn e facts t"
  shows "ts_in_flight (snd (settle e facts t)) \<longleftrightarrow> outcome_of e facts t = ORemind"
    "ts_reminded (snd (settle e facts t)) \<longleftrightarrow> outcome_of e facts t = ORemind"
    "ts_retries (snd (settle e facts t)) = 0"
    "ts_blocked (snd (settle e facts t)) = (if e = Interrupted \<and> \<not> tf_closing facts then [] else ts_blocked t)"
    "sum_list (map sends (fst (settle e facts t))) = (if outcome_of e facts t = ORemind then 1 else 0)"
    "last_shown published (front t) (fst (settle e facts t)) = front (snd (settle e facts t))"
proof -
  have r: "\<not> retries_turn e facts (t\<lparr>ts_in_flight := False\<rparr>)" using assms by (simp add: retries_turn_def)
  note eq = settle_def [of e facts t, unfolded Let_def, simplified r if_False]
  show b: "ts_blocked (snd (settle e facts t)) = (if e = Interrupted \<and> \<not> tf_closing facts then [] else ts_blocked t)"
    by (simp add: eq split_def)
  show "ts_in_flight (snd (settle e facts t)) \<longleftrightarrow> outcome_of e facts t = ORemind"
    "ts_reminded (snd (settle e facts t)) \<longleftrightarrow> outcome_of e facts t = ORemind"
    "ts_retries (snd (settle e facts t)) = 0"
    by (simp_all add: eq split_def outcome_of_def)
  show "sum_list (map sends (fst (settle e facts t))) = (if outcome_of e facts t = ORemind then 1 else 0)"
    by (simp add: eq split_def outcome_of_def)
  show "last_shown published (front t) (fst (settle e facts t)) = front (snd (settle e facts t))"
    unfolding front_def b by (auto simp: eq split_def last_shown_append split: list.split)
qed

subsection \<open>What is published is the first waiting request\<close>

lemma front_simps [simp]:
  "front (t\<lparr>ts_in_flight := b\<rparr>) = front t" "front (t\<lparr>ts_retries := n\<rparr>) = front t"
  "front (t\<lparr>ts_interrupt_requested := b\<rparr>) = front t" "front (prompted s t) = front t"
  by (simp_all add: front_def prompted_def cong: list.case_cong)

lemma published_session_end:
  "last_shown published (front t) (fst (session_end e facts t)) = front (snd (session_end e facts t))"
proof -
  have "last_shown published (front t) (fst (settle e facts t)) = front (snd (settle e facts t))"
  proof (cases "retries_turn e facts t")
    case True
    then show ?thesis by (simp add: settle_retry)
  qed (rule settle_fields)
  then show ?thesis by (simp add: session_end_def split_def)
qed

interpretation session: machine session_step "\<lambda>t. True" "\<lambda>e t. True"
  by unfold_locales simp

interpretation session_published: mirrored session_step "\<lambda>t. True" "\<lambda>e t. True" published front
proof unfold_locales
  fix t and e
  show "last_shown published (front t) (fst (session_step e t)) = front (snd (session_step e t))"
  proof (cases e)
    case (SUpdate u facts)
    then show ?thesis
    proof (cases u)
      case (UUnblocked i)
      then show ?thesis using SUpdate by (auto simp: Let_def)
    qed (auto simp: published_session_end Let_def)
  next
    case SLost
    then show ?thesis by (auto simp: front_def server_lost_def turn_default_def split: list.split)
  qed simp_all
qed

subsection \<open>How often a prompt is sent\<close>

text \<open>
  The server ends a turn, or says that one started, only while one is in flight. Then the prompts still
  to be sent for the last one are bounded by its retries, the reminder and the retries of the reminder.
\<close>

fun in_turn :: "session_event \<Rightarrow> turn_state \<Rightarrow> bool" where
  "in_turn (SUpdate UTurnStarted facts) t = ts_in_flight t"
| "in_turn (SUpdate (UTurnEnded e) facts) t = ts_in_flight t"
| "in_turn _ t = True"

definition sends_left :: "turn_state \<Rightarrow> nat" where
  "sends_left t =
     (if \<not> ts_in_flight t then 0
      else (TRANSIENT_RETRIES - ts_retries t) + (if ts_reminded t then 0 else 1 + TRANSIENT_RETRIES))"

fun prompts_sent :: "session_event \<Rightarrow> nat" where
  "prompts_sent (SPrompt s) = 1"
| "prompts_sent _ = 0"

lemma sends_settle:
  assumes "ts_in_flight t" "ts_retries t \<le> TRANSIENT_RETRIES"
  shows "sum_list (map sends (fst (settle e facts t))) + sends_left (snd (settle e facts t)) \<le> sends_left t"
    and "ts_retries (snd (settle e facts t)) \<le> TRANSIENT_RETRIES"
proof -
  show "sum_list (map sends (fst (settle e facts t))) + sends_left (snd (settle e facts t)) \<le> sends_left t"
  proof (cases "retries_turn e facts t")
    case True
    then have "ts_retries t < TRANSIENT_RETRIES" by (simp add: retries_turn_def)
    then show ?thesis using assms True by (simp add: settle_retry sends_left_def)
  next
    case False
    then show ?thesis using assms(1) reminds_once [of e facts t] by (auto simp: settle_fields [OF False] sends_left_def)
  qed
  show "ts_retries (snd (settle e facts t)) \<le> TRANSIENT_RETRIES"
    by (cases "retries_turn e facts t") (simp_all add: settle_retry settle_fields, simp add: retries_turn_def)
qed

lemma sends_left_simps [simp]:
  "sends_left (t\<lparr>ts_blocked := xs\<rparr>) = sends_left t" "sends_left (t\<lparr>ts_interrupt_requested := b\<rparr>) = sends_left t"
  by (simp_all add: sends_left_def)

interpretation session_sends: budget session_step "\<lambda>t. ts_retries t \<le> TRANSIENT_RETRIES" in_turn
    "\<lambda>e. 5 * prompts_sent e" sends sends_left
proof unfold_locales
  fix t and e
  assume r: "ts_retries t \<le> TRANSIENT_RETRIES" and i: "in_turn e t"
  have "ts_retries (snd (session_step e t)) \<le> TRANSIENT_RETRIES \<and>
    sum_list (map sends (fst (session_step e t))) + sends_left (snd (session_step e t)) \<le> sends_left t + 5 * prompts_sent e"
  proof (cases e)
    case (SUpdate u facts)
    then show ?thesis
    proof (cases u)
      case (UTurnEnded x)
      then show ?thesis using SUpdate i sends_settle [of t x facts] r by (simp add: session_end_def split_def)
    next
      case UTurnStarted
      then show ?thesis using SUpdate i r by (simp add: sends_left_def)
    qed (use SUpdate r in \<open>auto simp: Let_def\<close>)
  qed (use r in \<open>simp_all add: prompted_def server_lost_def turn_default_def sends_left_def TRANSIENT_RETRIES_def\<close>)
  then show "ts_retries (snd (session_step e t)) \<le> TRANSIENT_RETRIES"
    and "sum_list (map sends (fst (session_step e t))) + sends_left (snd (session_step e t)) \<le> sends_left t + 5 * prompts_sent e"
    by blast+
qed

subsection \<open>A snapshot of the server is caught up with\<close>

abbreviation asked_ids :: "permission_asked list \<Rightarrow> string set" where
  "asked_ids as \<equiv> set (map ak_id as)"

definition catch_up :: "session_update list \<Rightarrow> turn_facts \<Rightarrow> turn_state \<Rightarrow> turn_state" where
  "catch_up us facts t = snd (run_machine session_step (map (\<lambda>u. SUpdate u facts) us) t)"

lemma catch_up_simps [simp]:
  "catch_up [] facts t = t"
  "catch_up (u # us) facts t = catch_up us facts (snd (session_advance u facts t))"
  by (simp_all add: catch_up_def)

lemma catch_up_append: "catch_up (us @ vs) facts t = catch_up vs facts (catch_up us facts t)"
  by (induction us arbitrary: t) simp_all

lemma unblocked_state: "snd (session_advance (UUnblocked i) facts t) = t\<lparr>ts_blocked := filter (\<lambda>k. ak_id k \<noteq> i) (ts_blocked t)\<rparr>"
proof (cases "length (filter (\<lambda>k. ak_id k \<noteq> i) (ts_blocked t)) = length (ts_blocked t)")
  case True
  then have "filter (\<lambda>k. ak_id k \<noteq> i) (ts_blocked t) = ts_blocked t"
    by (metis filter_id_conv filter_True length_filter_less less_irrefl)
  then show ?thesis by simp
qed (simp add: Let_def)

lemma catch_up_unblocked:
  "ts_in_flight (catch_up (map (\<lambda>k. UUnblocked (ak_id k)) ks) facts t) = ts_in_flight t \<and>
   asked_ids (ts_blocked (catch_up (map (\<lambda>k. UUnblocked (ak_id k)) ks) facts t)) = asked_ids (ts_blocked t) - asked_ids ks"
  by (induction ks arbitrary: t) (auto simp: unblocked_state simp del: session_advance.simps(3))

lemma catch_up_blocked:
  "ts_in_flight (catch_up (map UBlocked ks) facts t) = ts_in_flight t \<and>
   asked_ids (ts_blocked (catch_up (map UBlocked ks) facts t)) = asked_ids (ts_blocked t) \<union> asked_ids ks"
proof (induction ks arbitrary: t)
  case (Cons k ks)
  have "ts_in_flight (snd (session_advance (UBlocked k) facts t)) = ts_in_flight t"
    "asked_ids (ts_blocked (snd (session_advance (UBlocked k) facts t))) = insert (ak_id k) (asked_ids (ts_blocked t))"
    by (auto simp: Let_def list_ex_iff intro: rev_image_eqI)
  then show ?case using Cons.IH [of "snd (session_advance (UBlocked k) facts t)"] by simp
qed simp

lemma reconcile_done:
  assumes "asked_ids (ts_blocked t) = asked_ids (sn_pending sn)"
    and "ts_in_flight t \<longleftrightarrow> sn_active sn \<or> ts_in_flight t \<and> sn_result sn = None"
  shows "reconcile t sn = []"
proof -
  have "filter (\<lambda>known. \<not> list_ex (\<lambda>asked. ak_id asked = ak_id known) (sn_pending sn)) (ts_blocked t) = []"
    using assms(1) by (auto simp: filter_empty_conv list_ex_iff) (metis (no_types, lifting) image_iff)
  moreover have "filter (\<lambda>asked. \<not> list_ex (\<lambda>known. ak_id known = ak_id asked) (ts_blocked t)) (sn_pending sn) = []"
    using assms(1) by (auto simp: filter_empty_conv list_ex_iff) (metis (no_types, lifting) image_iff)
  ultimately show ?thesis using assms(2) by (auto simp: reconcile_def split: option.split bool.split)
qed

text \<open>C18: after a reconnect, the updates that \<open>reconcile\<close> derives from the state of the session and a
  snapshot of the server bring the state in line with the snapshot: the same requests wait, a turn
  that runs on the server is in flight, and reconciling again with the same snapshot finds nothing
  more to do. (A turn that ended meanwhile is settled as the end of any turn and is left out here.)\<close>

theorem reconcile_catches_up:
  assumes "\<not> (ts_in_flight t \<and> \<not> sn_active sn \<and> sn_result sn \<noteq> None)"
  shows "asked_ids (ts_blocked (catch_up (reconcile t sn) facts t)) = asked_ids (sn_pending sn) \<and>
    ts_in_flight (catch_up (reconcile t sn) facts t) = (ts_in_flight t \<or> sn_active sn) \<and>
    reconcile (catch_up (reconcile t sn) facts t) sn = []"
proof -
  let ?gone = "filter (\<lambda>known. \<not> list_ex (\<lambda>asked. ak_id asked = ak_id known) (sn_pending sn)) (ts_blocked t)"
  let ?new = "filter (\<lambda>asked. \<not> list_ex (\<lambda>known. ak_id known = ak_id asked) (ts_blocked t)) (sn_pending sn)"
  let ?u = "catch_up (map UBlocked ?new) facts (catch_up (map (\<lambda>k. UUnblocked (ak_id k)) ?gone) facts t)"
  have ids: "asked_ids (ts_blocked ?u) = asked_ids (sn_pending sn)"
    using catch_up_blocked [of ?new facts] catch_up_unblocked [of ?gone facts t]
    by (auto simp: list_ex_iff image_iff) metis+
  have fl: "ts_in_flight ?u = ts_in_flight t"
    using catch_up_blocked [of ?new facts] catch_up_unblocked [of ?gone facts t] by simp
  have r: "reconcile t sn = map (\<lambda>k. UUnblocked (ak_id k)) ?gone @ map UBlocked ?new @
      (if \<not> ts_in_flight t \<and> sn_active sn then [UTurnStarted] else [])"
    using assms by (auto simp: reconcile_def split: option.split bool.split)
  define v where "v = catch_up (reconcile t sn) facts t"
  have v: "ts_blocked v = ts_blocked ?u" "ts_in_flight v = (ts_in_flight t \<or> sn_active sn)"
    using fl by (auto simp: v_def r catch_up_append)
  have "reconcile v sn = []" by (rule reconcile_done) (use ids v assms in \<open>auto simp: v\<close>)
  then show ?thesis using ids v by (simp add: v_def)
qed

theorem reconcile_catches_up_witness:
  "ts_in_flight (catch_up (reconcile turn_default \<lparr>sn_active = True, sn_pending = [], sn_result = None\<rparr>)
     \<lparr>tf_reported = False, tf_closing = False\<rparr> turn_default)"
  using reconcile_catches_up [of turn_default "\<lparr>sn_active = True, sn_pending = [], sn_result = None\<rparr>"] by simp

text \<open>What the person is shown of a session's permission requests, the last thing published, is at
  every moment the first request that waits, with the ids of all that wait, and nothing when none
  waits, whatever updates, prompts, interrupts and losses of the server came before.\<close>

theorem published_is_first_waiting:
  "last_shown published None (fst (run_machine session_step es turn_default)) =
     (case ts_blocked (snd (run_machine session_step es turn_default)) of
        [] \<Rightarrow> None
      | a # as \<Rightarrow> Some ((opencode_blocked_content a)\<lparr>bc_pending := map ak_id (a # as)\<rparr>))"
proof -
  have "front turn_default = None" by (simp add: front_def turn_default_def)
  then show ?thesis using session_published.run_mirrored [where s = turn_default and es = es]
    by (auto simp: front_def split: list.split)
qed

text \<open>A prompt of the person leads to at most five messages that the program sends by itself: two
  retries after transient failures, the reminder to report, and two retries of that, provided that
  the server ends only turns that are in flight.\<close>

theorem session_sends_bounded:
  assumes "run_guarded session_step in_turn es turn_default"
  shows "sum_list (map sends (fst (run_machine session_step es turn_default))) \<le> 5 * sum_list (map prompts_sent es)"
proof -
  have "sum_list (map (\<lambda>e. 5 * prompts_sent e) es) = 5 * sum_list (map prompts_sent es)"
    by (induction es) simp_all
  then show ?thesis using session_sends.run_budget [of turn_default es] assms
    by (simp add: turn_default_def sends_left_def)
qed

theorem session_sends_bounded_witness:
  "sum_list (map sends (fst (run_machine session_step
     [SPrompt ''a'', SUpdate (UTurnEnded Succeeded) \<lparr>tf_reported = False, tf_closing = False\<rparr>] turn_default))) \<le> 5"
  using session_sends_bounded [of "[SPrompt ''a'', SUpdate (UTurnEnded Succeeded) \<lparr>tf_reported = False, tf_closing = False\<rparr>]"]
  by (simp add: prompted_def)

end
