(* ===== verification/Headless_Facts.thy ===== *)
theory Headless_Facts
  imports Headless Machine
begin

section \<open>Alerts about headless workers, and their markers\<close>

subsection \<open>How often the person is alerted\<close>

text \<open>
  The monitor of a chat feeds the events of a worker to \<open>reduce\<close> and asks \<open>liveness\<close> at every tick
  (\<open>crates/ralph/src/chat/monitor.rs\<close>).
\<close>

datatype monitor_event = Happens worker_event | Tick nat nat

fun monitor_step :: "monitor_event \<Rightarrow> headless_state \<Rightarrow> alert list \<times> headless_state" where
  "monitor_step (Happens e) s = ([], fst (reduce s e))"
| "monitor_step (Tick now quiet_after) s =
     (case liveness_tick s now quiet_after of (s', a) \<Rightarrow> ((case a of None \<Rightarrow> [] | Some x \<Rightarrow> [x]), s'))"

fun dead_price :: "alert \<Rightarrow> nat" where
  "dead_price a = (case al_kind a of KDead sc reason \<Rightarrow> 1 | KQuiet \<Rightarrow> 0)"

fun quiet_price :: "alert \<Rightarrow> nat" where
  "quiet_price a = (case al_kind a of KQuiet \<Rightarrow> 1 | KDead sc reason \<Rightarrow> 0)"

definition dead_left :: "headless_state \<Rightarrow> nat" where
  "dead_left s = (if is_dead (hs_liveness s) \<and> hs_alerted s then 0 else 1)"

definition quiet_left :: "headless_state \<Rightarrow> nat" where
  "quiet_left s = (if is_dead (hs_liveness s) \<or> hs_alerted s then 0 else 1)"

fun activity_of :: "monitor_event \<Rightarrow> nat" where
  "activity_of (Happens (EvActivity at)) = 1"
| "activity_of _ = 0"

lemma reduce_keeps:
  "\<not> (\<exists>at. e = EvActivity at) \<Longrightarrow> \<not> (\<exists>sc r. e = EvProcessGone sc r) \<Longrightarrow>
     hs_liveness (fst (reduce s e)) = hs_liveness s \<and> hs_alerted (fst (reduce s e)) = hs_alerted s"
  by (cases e) auto

lemma monitor_budgets:
  "sum_list (map dead_price (fst (monitor_step e s))) + dead_left (snd (monitor_step e s)) \<le> dead_left s"
  "sum_list (map quiet_price (fst (monitor_step e s))) + quiet_left (snd (monitor_step e s)) \<le> quiet_left s + activity_of e"
proof -
  have "sum_list (map dead_price (fst (monitor_step e s))) + dead_left (snd (monitor_step e s)) \<le> dead_left s \<and>
    sum_list (map quiet_price (fst (monitor_step e s))) + quiet_left (snd (monitor_step e s)) \<le> quiet_left s + activity_of e"
  proof (cases e)
    case (Happens x)
    then show ?thesis using reduce_keeps [of x s] by (cases x) (auto simp: dead_left_def quiet_left_def)
  next
    case (Tick now quiet_after)
    then show ?thesis
      by (cases "hs_liveness s") (auto simp: liveness_tick_def Let_def dead_left_def quiet_left_def)
  qed
  then show "sum_list (map dead_price (fst (monitor_step e s))) + dead_left (snd (monitor_step e s)) \<le> dead_left s"
    and "sum_list (map quiet_price (fst (monitor_step e s))) + quiet_left (snd (monitor_step e s)) \<le> quiet_left s + activity_of e"
    by blast+
qed

interpretation dead_alerts: budget monitor_step "\<lambda>s. True" "\<lambda>e s. True" "\<lambda>e. 0" dead_price dead_left
  by unfold_locales (simp_all only: monitor_budgets(1) add_0_right)

interpretation quiet_alerts: budget monitor_step "\<lambda>s. True" "\<lambda>e s. True" activity_of quiet_price quiet_left
  by unfold_locales (simp_all only: monitor_budgets(2))


subsection \<open>Markers are read back\<close>

subsection \<open>Markers are read back\<close>

interpretation interrupt_results: codec interrupt_result_text parse_interrupt_result "\<lambda>x. True"
proof unfold_locales
  fix x
  have "trim (interrupt_result_text x) = interrupt_result_text x"
    by (rule trim_ascii; cases x; simp add: is_ws_ascii)
  then show "parse_interrupt_result (interrupt_result_text x) = Some x"
    by (cases x) (simp_all add: parse_interrupt_result_def)
qed

lemma activity_parse_label [simp]: "activity_parse (activity_label st) = Some st"
  by (cases st) (simp_all add: activity_parse_def)

interpretation activity_marks: codec mark_render mark_parse "\<lambda>m. am_at m \<le> u64_max"
proof unfold_locales
  fix m :: activity_mark
  assume n: "am_at m \<le> u64_max"
  have l: "activity_label st \<noteq> []" "list_all (\<lambda>c. (of_char c :: nat) < 192) (activity_label st)"
    "\<not> is_ws [List.last (activity_label st)]" for st
    by (cases st; simp add: is_ws_ascii)+
  have "trim (mark_render m) = mark_render m"
    using l by (intro trim_ascii) (simp_all add: mark_render_def dec_lead hd_append is_digit_not_ws)
  moreover have "CHR '' '' \<notin> set (dec (am_at m))"
    using dec_digits [of "am_at m"] by (auto simp: list_all_iff is_digit_def)
  ultimately show "mark_parse (mark_render m) = Some m"
    using n by (simp add: mark_parse_def mark_render_def split_once_append)
qed

text \<open>
  The gone marker: a server's name is one line, and the reason of a worker's own end does not look like
  the line of a server.
\<close>

definition gone_ok :: "scope \<Rightarrow> string \<Rightarrow> bool" where
  "gone_ok sc reason = (case sc of
     ScopeServer name \<Rightarrow> CHR 0x0A \<notin> set name
   | ScopeWorker \<Rightarrow> \<not> starts_with SERVER_GONE_PREFIX reason)"

lemma parse_render_gone:
  assumes "gone_ok sc reason"
  shows "parse_gone (render_gone sc reason) = (sc, trim reason)"
proof (cases sc)
  case ScopeWorker
  have "Option.bind (split_once (CHR 0x0A) reason)
      (\<lambda>(head, rest). map_option (\<lambda>name. (name, rest)) (strip_prefix SERVER_GONE_PREFIX head)) = None"
  proof (cases "split_once (CHR 0x0A) reason")
    case (Some p)
    obtain head rest where p: "p = (head, rest)" by fastforce
    then have "reason = head @ CHR 0x0A # rest" using split_once_Some [of "CHR 0x0A" reason head rest] Some by simp
    then have "strip_prefix SERVER_GONE_PREFIX head = None"
      using assms ScopeWorker by (auto simp: gone_ok_def strip_prefix_def starts_with_def)
    then show ?thesis using Some p by simp
  qed simp
  then show ?thesis by (simp add: ScopeWorker parse_gone_def)
next
  case (ScopeServer name)
  have "CHR 0x0A \<notin> set (SERVER_GONE_PREFIX @ name)" using assms by (simp add: ScopeServer gone_ok_def SERVER_GONE_PREFIX_def)
  then have "split_once (CHR 0x0A) (render_gone sc reason) = Some (SERVER_GONE_PREFIX @ name, reason)"
    using split_once_append [of "CHR 0x0A" "SERVER_GONE_PREFIX @ name" reason]
    by (simp add: ScopeServer newline_char)
  then show ?thesis by (simp add: parse_gone_def ScopeServer)
qed

text \<open>A monitor reads from the markers of a worker what the worker's side wrote: the phase its last
  activity stands for, the time of that activity, and the end of its process or server with the
  reason, for every time a \<open>u64\<close> holds and every name and reason the format can tell apart.\<close>

theorem markers_read_back:
  assumes "am_at m \<le> u64_max" and "gone_ok sc reason"
  shows "marker_state (Some (mark_render m)) (Some (render_gone sc reason)) blocked =
    (if blocked then PBlocked else if mark_busy m then PRunning else PIdle,
     [EvActivity (am_at m), EvProcessGone sc (trim reason)])"
  using activity_marks.parse_enc [OF assms(1)] parse_render_gone [OF assms(2)] by (simp add: marker_state_def Let_def)

theorem markers_read_back_witness:
  "marker_state (Some (mark_render \<lparr>am_at = 7, am_state = ABackground\<rparr>)) (Some (render_gone (ScopeServer ''a'') ''b'')) False =
     (PRunning, [EvActivity 7, EvProcessGone (ScopeServer ''a'') ''b''])"
  using markers_read_back [of "\<lparr>am_at = 7, am_state = ABackground\<rparr>" "ScopeServer ''a''" "''b''" False]
  by (simp add: gone_ok_def u64_max_def mark_busy_def trim_single is_ws_ascii)

end
