(* ===== verification/Commands.thy ===== *)
theory Commands
  imports Headless Scheduler Send_It_Drive
begin

section \<open>Commands of the model to its workers\<close>

text \<open>
  What the model asks of its workers, and who allowed it: the tool calls of
  \<open>crates/core/src/worker/mcp.rs\<close>, the turn gate (\<open>worker/turn_gate.rs\<close>), suggested replies
  (\<open>chat_suggestion.rs\<close>) and \<open>run_command\<close> of \<open>crates/ralph/src/chat/socket.rs\<close>. What the workers
  themselves answer is an argument.
\<close>

datatype trigger = User | WorkerTurn | SendIt

datatype work_phase = Plan | Build | Fix | LiveCheck

fun phase_name :: "work_phase \<Rightarrow> string" where
  "phase_name Plan = ''plan''"
| "phase_name Build = ''build''"
| "phase_name Fix = ''fix''"
| "phase_name LiveCheck = ''live-check''"

definition phase_parse :: "string \<Rightarrow> work_phase option" where
  "phase_parse s = List.find (\<lambda>p. phase_name p = s) [Plan, Build, Fix, LiveCheck]"

record spawn_args =
  sa_id :: string
  sa_task :: string
  sa_harness :: harness_id
  sa_model :: "string option"
  sa_ticket :: "string option"
  sa_phase :: "work_phase option"

datatype command =
    SpawnCmd spawn_args
  | ReplyCmd string string bool "string option"
  | CloseCmd string bool bool
  | WatchCmd watch_request
  | ScheduleCmd schedule_request

subsection \<open>Tool calls\<close>

definition WORKER_COSTS :: string where
  "WORKER_COSTS = ''costs''"

definition TICKET_MAX_LEN :: nat where
  "TICKET_MAX_LEN = 64"

definition is_ticket_key :: "string \<Rightarrow> bool" where
  "is_ticket_key s \<longleftrightarrow> length s \<le> TICKET_MAX_LEN \<and> is_dashed_token s \<and> list_ex is_ascii_alnum s"

definition ticket_arg :: "args \<Rightarrow> string option result" where
  "ticket_arg a = (case a ''ticket'' of
     None \<Rightarrow> Inr None
   | Some ANull \<Rightarrow> Inr None
   | Some _ \<Rightarrow> bind_result (string_arg a ''ticket'') (\<lambda>ticket.
       if is_ticket_key ticket then Inr (Some ticket)
       else Inl (''Ticket '' @ quoted ticket @ '' may only use letters, digits and dashes, must include a letter or digit, and may be at most ''
         @ dec TICKET_MAX_LEN @ '' characters.'')))"

definition phase_arg :: "args \<Rightarrow> work_phase option result" where
  "phase_arg a = (case a ''phase'' of
     None \<Rightarrow> Inr None
   | Some ANull \<Rightarrow> Inr None
   | Some _ \<Rightarrow> bind_result (string_arg a ''phase'') (\<lambda>phase.
       case phase_parse phase of
         Some p \<Rightarrow> Inr (Some p)
       | None \<Rightarrow> Inl (''Phase '' @ quoted phase @ '' is not known. Use plan, build, fix, live-check.'')))"

definition refuse_thread_report :: "string \<Rightarrow> unit result" where
  "refuse_thread_report i =
     (if \<not> starts_with THREAD_REPORT_PREFIX i then Inr ()
      else Inl (i @ '' is a merged thread'' @ [CHR 0x27] @ ''s digest, not a worker; there is nothing to reply to, nudge or close.''))"

definition worker_id_arg :: "args \<Rightarrow> string result" where
  "worker_id_arg a =
     bind_result (string_arg a ''id'') (\<lambda>i.
     bind_result (refuse_thread_report i) (\<lambda>_.
       if is_dashed_token i then Inr i
       else Inl (''Worker id '' @ quoted i @ '' may only use letters, digits and dashes.'')))"

definition harness_choices :: string where
  "harness_choices =
     (let names = map harness_name ALL_HARNESSES
      in join '', '' (butlast names) @ '' or '' @ List.last names)"

definition claude_model :: "harness_id \<Rightarrow> string \<Rightarrow> (harness_id \<times> string option) result" where
  "claude_model h model =
     (if support_for h FModel = NoSupport then Inl (model_refusal h)
      else if is_token_model model then Inr (h, Some model)
      else Inl (''Model '' @ quoted model @ '' must be non-empty with no whitespace.''))"

definition harness_arg :: "args \<Rightarrow> (harness_id \<times> string option) result" where
  "harness_arg a =
     (let model = Option.bind (a ''model'') as_str; h = Option.bind (a ''harness'') as_str
      in if h = None \<or> h = Some ''claude''
           then (case model of None \<Rightarrow> Inr (Claude, None) | Some m \<Rightarrow> claude_model Claude m)
         else if h = Some ''claude-headless''
           then (case model of None \<Rightarrow> Inr (ClaudeHeadless, None) | Some m \<Rightarrow> claude_model ClaudeHeadless m)
         else if h = Some ''opencode''
           then (case model of
                   None \<Rightarrow> Inr (Opencode, None)
                 | Some m \<Rightarrow> if is_model_id m then Inr (Opencode, Some m)
                     else Inl (''Model '' @ quoted m @ '' must look like provider/model.''))
         else if h = Some ''codex''
           then (case model of
                   None \<Rightarrow> Inr (Codex, None)
                 | Some m \<Rightarrow> if is_token_model m then Inr (Codex, Some m) else Inl ''Model must be non-empty with no whitespace.'')
         else if h = Some ''cursor''
           then (case model of
                   None \<Rightarrow> Inr (Cursor, None)
                 | Some m \<Rightarrow> (case decide Cursor (CSpawn (Some m)) of
                     Inl (EvUnsupported f reason) \<Rightarrow> Inl reason
                   | Inl _ \<Rightarrow> Inl []
                   | Inr _ \<Rightarrow> if is_token_model m then Inr (Cursor, Some m)
                       else Inl (''Model '' @ quoted m @ '' must be non-empty with no whitespace.'')))
         else Inl (''Unknown harness '' @ quoted (the h) @ ''. Use '' @ harness_choices @ ''.''))"

definition parse_spawn :: "args \<Rightarrow> command result" where
  "parse_spawn a =
     bind_result (string_arg a ''task'') (\<lambda>task.
     bind_result (worker_id_arg a) (\<lambda>i.
       if is_scheduled_worker_id i
         then Inl (''Worker ids starting with '' @ quoted WORKER_ID_PREFIX @ '' are reserved for scheduled workers.'')
       else if i = WORKER_COSTS
         then Inl (''Worker id '' @ quoted WORKER_COSTS @ '' is reserved for /workers '' @ WORKER_COSTS @ ''.'')
       else
         bind_result (harness_arg a) (\<lambda>(h, model).
         bind_result (ticket_arg a) (\<lambda>ticket.
         bind_result (phase_arg a) (\<lambda>phase.
           Inr (SpawnCmd \<lparr>sa_id = i, sa_task = task, sa_harness = h, sa_model = model, sa_ticket = ticket, sa_phase = phase\<rparr>))))))"

definition parse_reply :: "args \<Rightarrow> command result" where
  "parse_reply a =
     bind_result (string_arg a ''text'') (\<lambda>s.
     bind_result (worker_id_arg a) (\<lambda>i.
     bind_result (bool_arg a ''interrupt'') (\<lambda>interrupt.
       Inr (ReplyCmd i s interrupt (Option.bind (a ''request'') as_str)))))"

definition parse_close :: "args \<Rightarrow> command result" where
  "parse_close a =
     bind_result (worker_id_arg a) (\<lambda>i.
     bind_result (bool_arg a ''abandon'') (\<lambda>abandon.
     bind_result (bool_arg a ''force'') (\<lambda>force.
       Inr (CloseCmd i abandon force))))"

definition parse_command :: "string \<Rightarrow> args \<Rightarrow> command result option" where
  "parse_command name a =
     (if name = ''spawn_worker'' then Some (parse_spawn a)
      else if name = ''reply'' then Some (parse_reply a)
      else if name = ''close_worker'' then Some (parse_close a)
      else if name = ''watch'' then Some (bind_result (parse_watch_args a) (\<lambda>r. Inr (WatchCmd r)))
      else if name = ''schedule'' then Some (bind_result (parse_schedule_request a) (\<lambda>r. Inr (ScheduleCmd r)))
      else None)"

subsection \<open>The turn gate\<close>

record refused =
  re_text :: string
  re_stops_run :: bool

fun permits :: "action \<Rightarrow> command \<Rightarrow> bool" where
  "permits (ASpawn h) (SpawnCmd s) = (h = sa_harness s)"
| "permits AReply (ReplyCmd i s b r) = True"
| "permits AWatch (WatchCmd r) = True"
| "permits AClose (CloseCmd i abandon force) = (\<not> abandon \<and> \<not> force)"
| "permits _ _ = False"

fun refused_tool :: "command \<Rightarrow> string" where
  "refused_tool (SpawnCmd s) = ''spawn_worker '' @ harness_name (sa_harness s)"
| "refused_tool (ReplyCmd i s b r) = ''reply''"
| "refused_tool (CloseCmd i abandon force) =
     join '' '' ([''close_worker''] @ (if abandon then [''abandon''] else []) @ (if force then [''force''] else []))"
| "refused_tool (WatchCmd r) = ''watch''"
| "refused_tool (ScheduleCmd r) = ''schedule''"

definition run_refusal :: "command \<Rightarrow> refused" where
  "run_refusal c =
     \<lparr>re_text = ''The approved run does not allow `'' @ refused_tool c @ ''`. The run stops; ralph tells the person.'',
      re_stops_run = True\<rparr>"

definition person_refusal :: refused where
  "person_refusal =
     \<lparr>re_text = ''Only the person can direct workers. Relay this to them and wait for their answer.'', re_stops_run = False\<rparr>"

fun is_reply :: "command \<Rightarrow> bool" where
  "is_reply (ReplyCmd i s b r) = True"
| "is_reply _ = False"

definition in_run :: "action list option \<Rightarrow> command \<Rightarrow> bool" where
  "in_run run c \<longleftrightarrow> list_ex (\<lambda>a. permits a c) (case run of Some actions \<Rightarrow> actions | None \<Rightarrow> [])"

definition command_allowed :: "command \<Rightarrow> trigger option \<Rightarrow> action list option \<Rightarrow> refused + unit" where
  "command_allowed c pending run = (case pending of
     Some User \<Rightarrow> Inr ()
   | Some WorkerTurn \<Rightarrow>
       if is_reply c then (if run = None \<or> in_run run c then Inr () else Inl (run_refusal c)) else Inl person_refusal
   | Some SendIt \<Rightarrow> if in_run run c then Inr () else Inl (run_refusal c)
   | None \<Rightarrow> Inl person_refusal)"

fun pending_turn_marker :: "trigger \<Rightarrow> string" where
  "pending_turn_marker User = ''user''"
| "pending_turn_marker SendIt = ''send_it''"
| "pending_turn_marker WorkerTurn = ''worker''"

definition parse_pending_turn :: "string \<Rightarrow> trigger option" where
  "parse_pending_turn marker =
     (let m = trim marker
      in if m = ''user'' then Some User
         else if m = ''worker'' then Some WorkerTurn
         else if m = ''send_it'' then Some SendIt
         else None)"

subsection \<open>Suggested replies\<close>

definition SUGGESTION_MAX_CHARS :: nat where
  "SUGGESTION_MAX_CHARS = 200"

definition parse_suggestion :: "args \<Rightarrow> string result" where
  "parse_suggestion a = (case Option.bind (a ''text'') as_str of
     None \<Rightarrow> Inl (''Missing string argument '' @ quoted ''text'' @ ''.'')
   | Some raw \<Rightarrow>
       let s = trim raw; n = length (chars_of s)
       in if s = [] then Inl ''Suggested reply is empty. Pass the exact words the user would type.''
          else if list_ex (\<lambda>ch. is_control ch \<or> code_point ch = 0x2028 \<or> code_point ch = 0x2029) (chars_of s)
            then Inl ''Suggested reply has a line break or control character. Pass one line of plain text.''
          else if SUGGESTION_MAX_CHARS < n
            then Inl (''Suggested reply is '' @ dec n @ '' characters; the limit is '' @ dec SUGGESTION_MAX_CHARS @ ''. Shorten it.'')
          else Inr s)"

subsection \<open>A command of the model is run\<close>

text \<open>
  What \<open>run_command\<close> reads and changes: the marker of the pending turn (an error when it cannot be
  read), the stored plan, the suggestion, what the run has seen (a refused tool, answered workers, a
  step result) and the scheduled tasks. The commands it hands to the workers are listed.
\<close>

record desk =
  de_marker :: "string result"
  de_file :: "run_file option"
  de_suggestion :: "string option"
  de_refused :: "string option"
  de_answered :: "string list"
  de_judged :: "step_result option"
  de_sched :: sched

record workers_env =
  we_hash :: "run_plan \<Rightarrow> string"
  we_perform :: "command \<Rightarrow> string result"
  we_valid :: "instant \<Rightarrow> bool"
  we_delay :: "duration \<Rightarrow> bool"
  we_zone :: zone
  we_now :: instant

definition allowed_actions :: "(run_plan \<Rightarrow> string) \<Rightarrow> run_file option \<Rightarrow> action list option" where
  "allowed_actions h file = (case file of
     Some f \<Rightarrow> if is_approved h f then Some (pl_allowed (rf_plan f)) else None
   | None \<Rightarrow> None)"

definition record_step_result :: "trigger option \<Rightarrow> args \<Rightarrow> desk \<Rightarrow> string result \<times> desk" where
  "record_step_result pending a d =
     (if pending \<noteq> Some SendIt then (Inl ''step_result is only for a /send-it judge turn.'', d)
      else case parse_step_result a of
        Inl e \<Rightarrow> (Inl e, d)
      | Inr r \<Rightarrow> (Inr ''Step result recorded. Reply in one short line; ralph decides the next step.'', d\<lparr>de_judged := Some r\<rparr>))"

fun perform :: "workers_env \<Rightarrow> command \<Rightarrow> desk \<Rightarrow> string result \<times> command list \<times> desk" where
  "perform w (ReplyCmd i s b r) d =
     (case reply_refusal i (sd_tasks (de_sched d)) of
        Some refusal \<Rightarrow> (Inl refusal, [], d)
      | None \<Rightarrow>
          (case we_perform w (ReplyCmd i s b r) of
             Inl e \<Rightarrow> (Inl e, [ReplyCmd i s b r], d)
           | Inr out \<Rightarrow> (Inr out, [ReplyCmd i s b r], d\<lparr>de_answered := de_answered d @ [i]\<rparr>)))"
| "perform w (ScheduleCmd r) d =
     (case propose_schedule (we_valid w) (we_delay w) (we_zone w) r (we_now w) (de_sched d) of
        (out, s) \<Rightarrow> (out, [], d\<lparr>de_sched := s\<rparr>))"
| "perform w c d = (we_perform w c, [c], d)"

definition run_command :: "workers_env \<Rightarrow> string \<Rightarrow> args \<Rightarrow> desk \<Rightarrow> string result \<times> command list \<times> desk" where
  "run_command w tool a d =
     (if tool = ''suggest_reply''
      then (case parse_suggestion a of
              Inl e \<Rightarrow> (Inl e, [], d)
            | Inr s \<Rightarrow> (Inr ''Suggested reply set. Now write your reply; do not mention the suggestion.'', [], d\<lparr>de_suggestion := Some s\<rparr>))
      else case de_marker d of
        Inl e \<Rightarrow> (Inl (''Could not read chat memory: '' @ e), [], d)
      | Inr marker \<Rightarrow>
          let pending = parse_pending_turn marker
          in if tool = ''step_result'' then (case record_step_result pending a d of (out, d') \<Rightarrow> (out, [], d'))
             else case parse_command tool a of
               None \<Rightarrow> (Inl (''Unknown tool '' @ quoted tool @ ''.''), [], d)
             | Some (Inl e) \<Rightarrow> (Inl e, [], d)
             | Some (Inr c) \<Rightarrow>
                 (case command_allowed c pending (allowed_actions (we_hash w) (de_file d)) of
                    Inl refused \<Rightarrow>
                      (Inl (re_text refused), [],
                       if re_stops_run refused then d\<lparr>de_refused := Some (refused_tool c)\<rparr> else d)
                  | Inr _ \<Rightarrow> perform w c d))"

end
