(* ===== verification/Commands_Facts.thy ===== *)
theory Commands_Facts
  imports Commands Send_It_Facts Schedule_Facts
begin

section \<open>Who directs the workers\<close>

subsection \<open>The marker of the pending turn\<close>

interpretation pending_turns: codec pending_turn_marker parse_pending_turn "\<lambda>t. True"
proof unfold_locales
  fix t
  have "trim (pending_turn_marker t) = pending_turn_marker t"
    by (rule trim_ascii; cases t; simp add: is_ws_ascii)
  then show "parse_pending_turn (pending_turn_marker t) = Some t"
    by (cases t) (simp_all add: parse_pending_turn_def)
qed

subsection \<open>What is parsed\<close>

definition model_ok :: "harness_id \<Rightarrow> string option \<Rightarrow> bool" where
  "model_ok h model = (case model of None \<Rightarrow> True | Some m \<Rightarrow> if h = Opencode then is_model_id m else is_token_model m)"

fun wf_command :: "command \<Rightarrow> bool" where
  "wf_command (SpawnCmd s) \<longleftrightarrow>
     trim (sa_id s) \<noteq> [] \<and> is_dashed_token (sa_id s) \<and> \<not> is_scheduled_worker_id (sa_id s) \<and> sa_id s \<noteq> WORKER_COSTS \<and>
     trim (sa_task s) \<noteq> [] \<and> model_ok (sa_harness s) (sa_model s) \<and>
     (case sa_ticket s of None \<Rightarrow> True | Some k \<Rightarrow> is_ticket_key k)"
| "wf_command (ReplyCmd i s b r) \<longleftrightarrow> trim i \<noteq> [] \<and> is_dashed_token i \<and> trim s \<noteq> []"
| "wf_command (CloseCmd i abandon force) \<longleftrightarrow> trim i \<noteq> [] \<and> is_dashed_token i"
| "wf_command (WatchCmd r) \<longleftrightarrow> trim (wr_command r) \<noteq> [] \<and> wr_timeout_secs r \<noteq> Some 0"
| "wf_command (ScheduleCmd r) \<longleftrightarrow>
     trim (sq_id r) \<noteq> [] \<and> sq_timeout_secs r \<noteq> Some 0 \<and>
     (case sq_kind r of
        Command c \<Rightarrow> True
      | Worker b \<Rightarrow> is_dashed_token (sq_id r) \<and> sq_follow_up r = None \<and>
          (case sq_timeout_secs r of None \<Rightarrow> True | Some n \<Rightarrow> n \<le> WORKER_MAX_TIMEOUT_SECS))"

lemma worker_id_arg_Inr: "worker_id_arg a = Inr i \<Longrightarrow> trim i \<noteq> [] \<and> is_dashed_token i"
  by (auto simp: worker_id_arg_def string_arg_Inr split: if_splits)

lemma claude_model_Inr: "claude_model h m = Inr (h', model) \<Longrightarrow> h' = h \<and> model = Some m \<and> is_token_model m"
  by (auto simp: claude_model_def split: if_splits)

lemma harness_arg_ok: "harness_arg a = Inr (h, model) \<Longrightarrow> model_ok h model"
  by (auto simp: harness_arg_def Let_def model_ok_def dest!: claude_model_Inr
      split: if_splits option.splits sum.splits worker_event.splits)

lemma ticket_arg_ok: "ticket_arg a = Inr (Some k) \<Longrightarrow> is_ticket_key k"
  by (auto simp: ticket_arg_def split: option.splits arg.splits if_splits)

lemma timeout_arg_pos: "timeout_arg a \<noteq> Inr (Some 0)"
  by (auto simp: timeout_arg_def split: option.splits arg.splits if_splits)

lemma kind_arg_worker:
  "kind_arg i follow timeout_secs c b = Inr (Worker brief) \<Longrightarrow>
     is_dashed_token i \<and> follow = None \<and> (case timeout_secs of None \<Rightarrow> True | Some n \<Rightarrow> n \<le> WORKER_MAX_TIMEOUT_SECS)"
  by (auto simp: kind_arg_def split: option.splits if_splits)

lemma parse_spawn_wf: "parse_spawn a = Inr c \<Longrightarrow> wf_command c"
  by (auto simp: parse_spawn_def string_arg_Inr dest!: worker_id_arg_Inr harness_arg_ok split: if_splits option.split
      intro: ticket_arg_ok)

lemma parse_schedule_wf: "parse_schedule_request a = Inr r \<Longrightarrow> wf_command (ScheduleCmd r)"
  using timeout_arg_pos
  by (auto simp: parse_schedule_request_def string_arg_Inr split: if_splits task_kind.split dest: kind_arg_worker)

lemma parsed_commands_wf:
  assumes "parse_command tool a = Some (Inr c)"
  shows "wf_command c"
proof -
  have w: "parse_watch_args a = Inr r \<Longrightarrow> wf_command (WatchCmd r)" for r
    using timeout_arg_pos [of a] by (auto simp: parse_watch_args_def string_arg_Inr split: if_splits)
  have r: "parse_reply a = Inr c \<Longrightarrow> wf_command c" "parse_close a = Inr c \<Longrightarrow> wf_command c" for c
    by (auto simp: parse_reply_def parse_close_def string_arg_Inr dest!: worker_id_arg_Inr)
  show ?thesis using assms parse_spawn_wf parse_schedule_wf w r
    by (auto simp: parse_command_def simp del: wf_command.simps split: if_splits)
qed

text \<open>C23: a tool call that is accepted as a command is well formed, whatever JSON the model sent: ids of
  workers are dashed tokens and never those reserved for scheduled workers or the costs page, texts
  and tasks are not blank, the model name fits the harness, tickets are keys, times out are positive,
  and a scheduled worker has no follow-up and at most eight hours.\<close>

theorem parsed_commands_well_formed:
  assumes "parse_command tool a = Some (Inr c)"
  shows "wf_command c"
  by (rule parsed_commands_wf [OF assms])


theorem parsed_commands_well_formed_witness:
  "wf_command (ReplyCmd ''w'' ''x'' False None)"
proof -
  have "trim ''w'' = ''w''" "trim ''x'' = ''x''" by (simp_all add: trim_single is_ws_ascii)
  then have "parse_command ''reply'' [''id'' \<mapsto> AStr ''w'', ''text'' \<mapsto> AStr ''x''] = Some (Inr (ReplyCmd ''w'' ''x'' False None))"
    by (simp add: parse_command_def parse_reply_def string_arg_def worker_id_arg_def refuse_thread_report_def
        is_dashed_token_def is_ascii_alnum_def starts_with_def THREAD_REPORT_PREFIX_def bool_arg_def)
  then show ?thesis by (rule parsed_commands_well_formed)
qed

subsection \<open>What is performed\<close>

text \<open>Who stands behind a command: the person, a plan they approved, or a report that is answered.\<close>

definition authorised :: "(run_plan \<Rightarrow> string) \<Rightarrow> trigger option \<Rightarrow> run_file option \<Rightarrow> command \<Rightarrow> bool" where
  "authorised h pending file c = (case pending of
     Some User \<Rightarrow> True
   | Some WorkerTurn \<Rightarrow> is_reply c \<and> (allowed_actions h file = None \<or> in_run (allowed_actions h file) c)
   | Some SendIt \<Rightarrow> (case file of
       Some f \<Rightarrow> is_approved h f \<and> list_ex (\<lambda>a. permits a c) (pl_allowed (rf_plan f))
     | None \<Rightarrow> False)
   | None \<Rightarrow> False)"

lemma command_allowed_authorised: "command_allowed c pending (allowed_actions h file) = Inr () \<Longrightarrow> authorised h pending file c"
  by (auto simp: command_allowed_def authorised_def in_run_def allowed_actions_def split: option.splits trigger.splits if_splits)

lemma perform_done:
  "c' \<in> set (fst (snd (perform w c d))) \<Longrightarrow>
     c' = c \<and> (is_reply c \<longrightarrow> (\<exists>i s b r. c = ReplyCmd i s b r \<and> reply_refusal i (sd_tasks (de_sched d)) = None))"
  by (cases c) (auto split: option.splits sum.splits prod.splits)

lemma run_command_cases:
  obtains (other) out d' where "run_command w tool a d = (out, [], d')" "de_sched d' = de_sched d" "de_refused d' = de_refused d"
      "isl out \<longrightarrow> d' = d"
  | (refused) marker c r where "de_marker d = Inr marker" "parse_command tool a = Some (Inr c)"
      "command_allowed c (parse_pending_turn marker) (allowed_actions (we_hash w) (de_file d)) = Inl r"
      "run_command w tool a d =
         (Inl (re_text r), [], if re_stops_run r then d\<lparr>de_refused := Some (refused_tool c)\<rparr> else d)"
  | (performed) marker c where "de_marker d = Inr marker" "parse_command tool a = Some (Inr c)"
      "command_allowed c (parse_pending_turn marker) (allowed_actions (we_hash w) (de_file d)) = Inr ()"
      "run_command w tool a d = perform w c d"
proof (cases "tool = ''suggest_reply''")
  case True
  then show ?thesis
    by (cases "parse_suggestion a")
      (rule other [of "fst (run_command w tool a d)" "snd (snd (run_command w tool a d))"]; simp add: run_command_def)+
next
  case sug: False
  show ?thesis
  proof (cases "de_marker d")
    case (Inl e)
    then show ?thesis using sug by (intro other) (auto simp: run_command_def)
  next
    case marker: (Inr marker)
    show ?thesis
    proof (cases "tool = ''step_result''")
      case True
      then show ?thesis using sug marker
        by (cases "parse_step_result a"; cases "parse_pending_turn marker = Some SendIt")
          (rule other [of "fst (run_command w tool a d)" "snd (snd (run_command w tool a d))"];
            simp add: run_command_def record_step_result_def Let_def)+
    next
      case judge: False
      show ?thesis
      proof (cases "parse_command tool a")
        case None
        then show ?thesis using sug marker judge by (intro other) (auto simp: run_command_def)
      next
        case (Some res)
        show ?thesis
        proof (cases res)
          case (Inl e)
          then show ?thesis using sug marker judge Some by (intro other) (auto simp: run_command_def)
        next
          case (Inr c)
          show ?thesis
          proof (cases "command_allowed c (parse_pending_turn marker) (allowed_actions (we_hash w) (de_file d))")
            case (Inl r)
            then show ?thesis using sug marker judge Some Inr by (intro refused) (auto simp: run_command_def)
          next
            case ok: (Inr u)
            then show ?thesis using sug marker judge Some Inr by (intro performed) (auto simp: run_command_def)
          qed
        qed
      qed
    qed
  qed
qed

lemma armed_perform: "sd_armed (de_sched (snd (snd (perform w c d)))) = sd_armed (de_sched d)"
  by (cases c) (auto simp: propose_schedule_def split: option.splits sum.splits prod.splits if_splits)


definition demo_env :: workers_env where
  "demo_env = \<lparr>we_hash = (\<lambda>_. ''x''), we_perform = (\<lambda>_. Inr ''ok''), we_valid = (\<lambda>_. True), we_delay = (\<lambda>_. True),
     we_zone = demo_zone, we_now = 0\<rparr>"

definition demo_desk :: "string \<Rightarrow> desk" where
  "demo_desk marker = \<lparr>de_marker = Inr marker, de_file = Some (demo_file\<lparr>rf_approved := Some ''x''\<rparr>), de_suggestion = None,
     de_refused = None, de_answered = [], de_judged = None, de_sched = \<lparr>sd_tasks = [], sd_armed = {}\<rparr>\<rparr>"

abbreviation close_args :: args where
  "close_args \<equiv> [''id'' \<mapsto> AStr ''w'']"

lemma demo_close: "parse_command ''close_worker'' close_args = Some (Inr (CloseCmd ''w'' False False))"
  by (simp add: parse_command_def parse_close_def string_arg_def worker_id_arg_def refuse_thread_report_def trim_single
      is_ws_ascii is_dashed_token_def is_ascii_alnum_def starts_with_def THREAD_REPORT_PREFIX_def bool_arg_def)




text \<open>C20: in a turn of an approved run, a tool call for a command the plan does not allow is not performed,
  and the run stops: the turn that ends with this refusal never leads to a further line or wait.\<close>

theorem refused_command_stops_run:
  assumes "de_marker d = Inr (pending_turn_marker SendIt)" and "parse_command tool a = Some (Inr c)"
    and "\<not> in_run (allowed_actions (we_hash w) (de_file d)) c"
    and "en_refused e = de_refused (snd (snd (run_command w tool a d)))"
    and "en_file e = Some f" and "pr_step (dr_progress drv) < length (pl_steps (rf_plan f))"
  shows "fst (snd (run_command w tool a d)) = [] \<and> \<not> goes_on (ti_next (tick (we_hash w) drv e))"
proof -
  have p: "parse_pending_turn (pending_turn_marker SendIt) = Some SendIt" by (rule pending_turns.parse_enc) simp
  have t: "tool \<noteq> ''suggest_reply''" "tool \<noteq> ''step_result''" using assms(2) by (auto simp: parse_command_def)
  then have r: "run_command w tool a d = (Inl (re_text (run_refusal c)), [], d\<lparr>de_refused := Some (refused_tool c)\<rparr>)"
    using assms(1-3) p by (simp add: run_command_def command_allowed_def run_refusal_def del: pending_turn_marker.simps)
  then show ?thesis using undisturbed_facts(7) [of "we_hash w" drv e f] assms(4-6) by auto
qed

theorem refused_command_stops_run_witness:
  "fst (snd (run_command demo_env ''close_worker'' close_args (demo_desk ''send_it''))) = [] \<and>
   \<not> goes_on (ti_next (tick (we_hash demo_env) demo_driving
     (demo_ended\<lparr>en_refused := de_refused (snd (snd (run_command demo_env ''close_worker'' close_args (demo_desk ''send_it''))))\<rparr>)))"
proof (rule refused_command_stops_run [where f = demo_file, OF _ demo_close])
  show "de_marker (demo_desk ''send_it'') = Inr (pending_turn_marker SendIt)" by (simp add: demo_desk_def)
qed (simp_all add: demo_desk_def demo_env_def in_run_def allowed_actions_def demo_defs is_approved_def)

end
