(* ===== verification/Permission_Queue.thy ===== *)
theory Permission_Queue
  imports Headless Machine
begin

section \<open>The queue of permission requests\<close>

text \<open>
  \<open>crates/ralph/src/permission_queue.rs\<close>: the requests of a headless worker that wait for the person,
  each with what is needed to answer it (\<open>'r\<close>). Every change publishes the first request, and a new
  one is also posted to the inbox. A call answers with what it publishes, posts and gives back.
\<close>

record 'r waiting_request =
  wq_reply :: 'r
  wq_content :: blocked_content

record 'r permission_queue =
  pm_process :: string
  pm_worker :: string
  pm_queue :: "'r waiting_request list"
  pm_refusing :: bool

datatype 'r queue_output =
    Pushed worker_event
  | Posted report
  | GivenBack 'r
  | Answered 'r permission_option
  | AnswerRefused string

definition process_request_id :: "string \<Rightarrow> string \<Rightarrow> string" where
  "process_request_id process raw = process @ ''.'' @ raw"

definition permission_alert_report :: "string \<Rightarrow> string \<Rightarrow> blocked_content \<Rightarrow> report" where
  "permission_alert_report i at c =
     \<lparr>rp_worker = i, rp_at = at, rp_status = status_name Blocked,
      rp_text = ''Worker '' @ i @ '' is waiting for a permission answer on '' @ bc_tool c @ '': '' @ bc_summary c
        @ ''. Answer it with reply, request '' @ bc_request_id c @ '' and one optionId: ''
        @ join '', '' (map po_option_id (bc_options c)) @ ''.''\<rparr>"

definition publish :: "'r waiting_request list \<Rightarrow> worker_event" where
  "publish q = (case q of
     [] \<Rightarrow> EvPermissionSettled
   | w # ws \<Rightarrow> EvPermissionAsked ((wq_content w)\<lparr>bc_pending := map (\<lambda>w. bc_request_id (wq_content w)) q\<rparr>))"

definition pm_push :: "string \<Rightarrow> 'r \<Rightarrow> blocked_content \<Rightarrow> 'r permission_queue \<Rightarrow> 'r queue_output list \<times> 'r permission_queue" where
  "pm_push at r c m =
     (let c' = c\<lparr>bc_request_id := process_request_id (pm_process m) (bc_request_id c)\<rparr>;
          q = pm_queue m @ [\<lparr>wq_reply = r, wq_content = c'\<rparr>]
      in ([Pushed (publish q), Posted (permission_alert_report (pm_worker m) at c')], m\<lparr>pm_queue := q\<rparr>))"

definition enqueue_unless_refusing ::
  "string \<Rightarrow> 'r \<Rightarrow> blocked_content \<Rightarrow> 'r permission_queue \<Rightarrow> 'r queue_output list \<times> 'r permission_queue" where
  "enqueue_unless_refusing at r c m = (if pm_refusing m then ([GivenBack r], m) else pm_push at r c m)"

definition take_answer :: "string \<Rightarrow> string \<Rightarrow> 'r permission_queue \<Rightarrow> 'r queue_output list \<times> 'r permission_queue" where
  "take_answer request s m =
     (case pending_position (map (\<lambda>w. bc_request_id (wq_content w)) (pm_queue m)) request of
        Inl e \<Rightarrow> ([AnswerRefused e], m)
      | Inr i \<Rightarrow>
          let w = pm_queue m ! i
          in case match_option (bc_options (wq_content w)) s of
               None \<Rightarrow> ([AnswerRefused (no_option_message (bc_options (wq_content w)))], m)
             | Some p \<Rightarrow>
                 (let q = take i (pm_queue m) @ drop (i + 1) (pm_queue m)
                  in ([Pushed (publish q), Answered (wq_reply w) p], m\<lparr>pm_queue := q\<rparr>)))"

definition pm_settle :: "('r \<Rightarrow> bool) \<Rightarrow> 'r permission_queue \<Rightarrow> 'r queue_output list \<times> 'r permission_queue" where
  "pm_settle matches m =
     (let q = filter (\<lambda>w. \<not> matches (wq_reply w)) (pm_queue m)
      in if length q = length (pm_queue m) then ([], m) else ([Pushed (publish q)], m\<lparr>pm_queue := q\<rparr>))"

definition pm_drain :: "'r permission_queue \<Rightarrow> 'r queue_output list \<times> 'r permission_queue" where
  "pm_drain m = (Pushed EvPermissionSettled # map (\<lambda>w. GivenBack (wq_reply w)) (pm_queue m), m\<lparr>pm_queue := []\<rparr>)"

definition drain_and_refuse :: "'r permission_queue \<Rightarrow> 'r queue_output list \<times> 'r permission_queue" where
  "drain_and_refuse m = pm_drain (m\<lparr>pm_refusing := True\<rparr>)"

datatype 'r queue_call =
    QEnqueue string 'r blocked_content
  | QEnqueueUnlessRefusing string 'r blocked_content
  | QTakeAnswer string string
  | QSettle "'r \<Rightarrow> bool"
  | QDrain
  | QDrainAndRefuse
  | QAcceptAgain

fun queue_call_step :: "'r queue_call \<Rightarrow> 'r permission_queue \<Rightarrow> 'r queue_output list \<times> 'r permission_queue" where
  "queue_call_step (QEnqueue at r c) m = pm_push at r c m"
| "queue_call_step (QEnqueueUnlessRefusing at r c) m = enqueue_unless_refusing at r c m"
| "queue_call_step (QTakeAnswer request s) m = take_answer request s m"
| "queue_call_step (QSettle matches) m = pm_settle matches m"
| "queue_call_step QDrain m = pm_drain m"
| "queue_call_step QDrainAndRefuse m = drain_and_refuse m"
| "queue_call_step QAcceptAgain m = ([], m\<lparr>pm_refusing := False\<rparr>)"

definition queue_new :: "string \<Rightarrow> string \<Rightarrow> 'r permission_queue" where
  "queue_new process worker = \<lparr>pm_process = process, pm_worker = worker, pm_queue = [], pm_refusing = False\<rparr>"

subsection \<open>What the queue promises\<close>

fun pushed_event :: "'r queue_output \<Rightarrow> worker_event option" where
  "pushed_event (Pushed e) = Some e"
| "pushed_event _ = None"

lemma pending_position_Inr:
  "pending_position ids request = Inr i \<Longrightarrow> i < length ids \<and> ids ! i = trim request \<and> (\<forall>j < i. ids ! j \<noteq> trim request)"
proof -
  assume "pending_position ids request = Inr i"
  then have "List.find (\<lambda>i. ids ! i = trim request) [0..<length ids] = Some i"
    by (auto simp: pending_position_def Let_def split: option.splits if_splits)
  then show ?thesis by (auto simp: find_Some_iff)
qed

lemma shown_given_back: "last_shown pushed_event v (map (\<lambda>w. GivenBack (f w)) ws) = v"
  by (induction ws) simp_all

interpretation request_queue: mirrored queue_call_step "\<lambda>m. True" "\<lambda>e m. True" pushed_event "\<lambda>m. publish (pm_queue m)"
proof unfold_locales
  fix m :: "'a permission_queue" and e
  show "last_shown pushed_event (publish (pm_queue m)) (fst (queue_call_step e m)) = publish (pm_queue (snd (queue_call_step e m)))"
    by (cases e) (auto simp: pm_push_def enqueue_unless_refusing_def take_answer_def pm_settle_def pm_drain_def
        drain_and_refuse_def Let_def shown_given_back publish_def [of "[]"] split: sum.split option.split)
qed simp

text \<open>The handles that come in, that go out, and that wait.\<close>

fun call_reply :: "'r queue_call \<Rightarrow> 'r list" where
  "call_reply (QEnqueue at r c) = [r]"
| "call_reply (QEnqueueUnlessRefusing at r c) = [r]"
| "call_reply _ = []"

fun output_reply :: "'r queue_output \<Rightarrow> 'r list" where
  "output_reply (GivenBack r) = [r]"
| "output_reply (Answered r p) = [r]"
| "output_reply _ = []"

fun not_settled :: "'r queue_call \<Rightarrow> bool" where
  "not_settled (QSettle matches) = False"
| "not_settled _ = True"

lemma replies_given_back: "concat (map (\<lambda>w. output_reply (GivenBack (f w))) ws) = map f ws"
  by (induction ws) simp_all

lemma sum_output: "sum_list (map (\<lambda>a. count_list (output_reply a) x) as) = count_list (concat (map output_reply as)) x"
  by (induction as) simp_all

lemma take_answer_counts:
  "count_list (concat (map output_reply (fst (take_answer request s m)))) x + count_list (map wq_reply (pm_queue (snd (take_answer request s m)))) x =
     count_list (map wq_reply (pm_queue m)) x"
proof (cases "pending_position (map (\<lambda>w. bc_request_id (wq_content w)) (pm_queue m)) request")
  case (Inr i)
  then have i: "i < length (pm_queue m)" using pending_position_Inr by fastforce
  have "pm_queue m = take i (pm_queue m) @ pm_queue m ! i # drop (i + 1) (pm_queue m)"
    using id_take_nth_drop [OF i] by simp
  then have "count_list (map wq_reply (pm_queue m)) x =
      count_list (map wq_reply (take i (pm_queue m) @ pm_queue m ! i # drop (i + 1) (pm_queue m))) x" by metis
  then show ?thesis by (simp add: take_answer_def Inr Let_def split: option.split)
qed (simp add: take_answer_def)

interpretation request_handles: exact_budget queue_call_step "\<lambda>m. True" "\<lambda>e m. not_settled e"
    "\<lambda>e. count_list (call_reply e) x" "\<lambda>a. count_list (output_reply a) x" "\<lambda>m. count_list (map wq_reply (pm_queue m)) x" for x
proof -
  have eq: "count_list (concat (map output_reply (fst (queue_call_step e m)))) x + count_list (map wq_reply (pm_queue (snd (queue_call_step e m)))) x =
      count_list (map wq_reply (pm_queue m)) x + count_list (call_reply e) x" if "not_settled e" for e :: "'a queue_call" and m
    using that by (cases e)
      (simp_all add: take_answer_counts pm_push_def enqueue_unless_refusing_def pm_drain_def drain_and_refuse_def Let_def comp_def replies_given_back)
  show "exact_budget queue_call_step (\<lambda>m. True) (\<lambda>e m. not_settled e) (\<lambda>e. count_list (call_reply e) x)
      (\<lambda>a. count_list (output_reply a) x) (\<lambda>m. count_list (map wq_reply (pm_queue m)) x)"
    by unfold_locales (simp_all add: sum_output eq)
qed



text \<open>An answer goes to the request that it names, with one of the options that request offered.\<close>

lemma take_answer_answers:
  assumes "take_answer request s m = (outs, m')" and "Answered r p \<in> set outs"
  shows "\<exists>i < length (pm_queue m). bc_request_id (wq_content (pm_queue m ! i)) = trim request \<and> wq_reply (pm_queue m ! i) = r \<and>
    p \<in> set (bc_options (wq_content (pm_queue m ! i))) \<and> po_option_id p = trim s \<and>
    pm_queue m' = take i (pm_queue m) @ drop (i + 1) (pm_queue m)"
proof (cases "pending_position (map (\<lambda>w. bc_request_id (wq_content w)) (pm_queue m)) request")
  case (Inl e)
  then show ?thesis using assms by (auto simp: take_answer_def)
next
  case (Inr i)
  then have "i < length (pm_queue m)" "bc_request_id (wq_content (pm_queue m ! i)) = trim request"
    using pending_position_Inr [OF Inr] by auto
  then show ?thesis using assms Inr
    by (auto simp: take_answer_def Let_def match_option_def find_Some_iff split: option.splits intro!: exI [of _ i] nth_mem)
qed

end
