(* ===== verification/Closing.thy ===== *)
theory Closing
  imports Worker_Report Utf8
begin

section \<open>Closing a worker\<close>

text \<open>
  \<open>worker/ownership.rs\<close>, \<open>markers.rs\<close>, \<open>task_files.rs\<close> and \<open>ralph/src/workers.rs\<close>, \<open>workers/close.rs\<close>: whose
  tmux session a worker's session is, the branch its commits are checked against, the plan of a close
  and the run of its steps. Paths are byte strings; git, tmux and the handoff with a headless worker
  are parameters.
\<close>

subsection \<open>Paths\<close>

definition path_join :: "string \<Rightarrow> string \<Rightarrow> string" where
  "path_join p q =
     (if starts_with ''/'' q \<or> p = [] then q
      else if List.last p = CHR ''/'' then p @ q else p @ ''/'' @ q)"

datatype path_component = RootDir | CurDir | ParentDir | Normal string

text \<open>
  \<open>Path::components\<close> on Unix: empty parts and dots are dropped, except a dot at the start of a
  relative path.
\<close>

fun component_of :: "string \<Rightarrow> path_component option" where
  "component_of part =
     (if part = [] \<or> part = ''.'' then None
      else if part = ''..'' then Some ParentDir else Some (Normal part))"

definition path_components :: "string \<Rightarrow> path_component list" where
  "path_components path =
     (let parts = split_on (CHR ''/'') path
      in (if starts_with ''/'' path then [RootDir] else if hd parts = ''.'' then [CurDir] else []) @
         List.map_filter component_of parts)"

text \<open>\<open>PathBuf::pop\<close> takes the last component away, but neither the root nor from the empty path.\<close>

definition path_pop :: "path_component list \<Rightarrow> path_component list option" where
  "path_pop out = (if out = [] \<or> List.last out = RootDir then None else Some (butlast out))"

fun push_component :: "path_component list \<Rightarrow> path_component \<Rightarrow> path_component list" where
  "push_component out CurDir = out"
| "push_component out ParentDir = (case path_pop out of None \<Rightarrow> out @ [ParentDir] | Some out' \<Rightarrow> out')"
| "push_component out c = out @ [c]"

definition normalized :: "string \<Rightarrow> path_component list" where
  "normalized path = foldl push_component [] (path_components path)"

definition same_store :: "string \<Rightarrow> string \<Rightarrow> bool" where
  "same_store tag store \<longleftrightarrow>
     trim tag \<noteq> [] \<and> trim store \<noteq> [] \<and> normalized (trim tag) = normalized (trim store)"

subsection \<open>The base branch\<close>

definition FALLBACK_BASE_BRANCH :: string where
  "FALLBACK_BASE_BRANCH = ''main''"

definition ORIGIN_PREFIX :: string where
  "ORIGIN_PREFIX = ''refs/remotes/origin/''"

definition base_config_key :: "string \<Rightarrow> string" where
  "base_config_key i = ''branch.'' @ branch_name i @ ''.ralphBase''"

definition legacy_base_unset_warning :: "string \<Rightarrow> int option \<Rightarrow> string option" where
  "legacy_base_unset_warning i exit_code =
     (if exit_code = Some 0 \<or> exit_code = Some 5 then None
      else Some (''Warning: the legacy base record for worker '' @ i @ '' is still in git config. Run: git config --unset ''
        @ base_config_key i))"

record base =
  ba_branch :: string
  ba_warning :: "string option"

definition base_branch :: "string + string option \<Rightarrow> string option \<Rightarrow> base" where
  "base_branch configured origin_head =
     (let (conf, config_error) = (case configured of Inr c \<Rightarrow> (c, None) | Inl e \<Rightarrow> (None, Some e));
          origin_default = map_option (\<lambda>head. case strip_prefix ORIGIN_PREFIX (trim head) of Some b \<Rightarrow> b | None \<Rightarrow> trim head)
            origin_head;
          branch = (case find (\<lambda>b. b \<noteq> []) (map trim (List.map_filter id [conf, origin_default])) of
            Some b \<Rightarrow> b | None \<Rightarrow> FALLBACK_BASE_BRANCH)
      in \<lparr>ba_branch = branch,
          ba_warning = map_option (\<lambda>e. ''Warning: [chat] worker_base was skipped because the ralph config did not load ('' @ e
            @ ''). Unmerged commits were checked against '' @ branch @ '' instead.'') config_error\<rparr>)"

subsection \<open>Sessions and their owners\<close>

definition project_slug :: "string \<Rightarrow> string" where
  "project_slug repo =
     (let name = (case rev (path_components repo) of Normal n # _ \<Rightarrow> utf8_lossy n | _ \<Rightarrow> []);
          slug = filter (\<lambda>c. is_ascii_alnum c \<or> c = CHR ''-'') name
      in if slug = [] then ''repo'' else slug)"

definition session_name :: "string \<Rightarrow> string \<Rightarrow> string" where
  "session_name project i = ''ralph-'' @ project @ ''-'' @ i"

record tagged_session =
  se_name :: string
  se_store :: string
  se_id :: string

definition field_or_empty :: "string list \<Rightarrow> nat \<Rightarrow> string" where
  "field_or_empty row n = (if n < length row then row ! n else [])"

definition tagged_sessions :: "string \<Rightarrow> tagged_session list" where
  "tagged_sessions listing = List.map_filter (\<lambda>line.
     let row = map trim (split_on (CHR 0x09) line)
     in if hd row = [] then None
        else Some \<lparr>se_name = hd row, se_store = field_or_empty row 1, se_id = field_or_empty row 2\<rparr>) (lines listing)"

datatype owner = Missing | Mine tagged_session | Foreign tagged_session

definition session_owner :: "tagged_session list \<Rightarrow> string \<Rightarrow> string \<Rightarrow> string \<Rightarrow> owner" where
  "session_owner sessions store project i =
     (let found = filter (\<lambda>s. se_name s \<in> {session_name project i, ''ralph-'' @ i}) sessions
      in case find (\<lambda>s. \<not> same_store (se_store s) store) found of
           Some foreign \<Rightarrow> Foreign foreign
         | None \<Rightarrow> (case found of [] \<Rightarrow> Missing | mine # _ \<Rightarrow> Mine mine))"

subsection \<open>The plan\<close>

record close_state =
  cl_id :: string
  cl_owner :: owner
  cl_dirty :: "bool option"
  cl_base :: string
  cl_unmerged :: "nat option"
  cl_opencode :: bool
  cl_markers :: bool
  cl_kind :: harness_id

datatype close_step =
    RemoveOpencodeSession
  | KillSession string
  | TerminateCursor
  | TerminateCodex
  | TerminateClaudeHeadless
  | RemoveWorktree bool
  | DeleteBranch
  | PruneWorktrees
  | ClearMarkers

definition marker_dirs :: "string list" where
  "marker_dirs = [''ready'', ''reported'', ''blocked'', ''waiting'', ''unreported'', ''sent'', ''activity'', ''gone'']"

definition marker_paths :: "string \<Rightarrow> string \<Rightarrow> string list" where
  "marker_paths store i = map (\<lambda>d. path_join (path_join store d) i) marker_dirs"

definition close_clear_paths :: "string \<Rightarrow> string \<Rightarrow> string list" where
  "close_clear_paths store i = marker_paths store i @
     [path_join (path_join store ''status'') i,
      path_join (path_join store ''workers'') (i @ ''.usage-seen''),
      path_join (path_join store ''auto-continued'') i,
      path_join (path_join store ''spawn'') i]"

definition close_remove_paths :: "string \<Rightarrow> string \<Rightarrow> string list" where
  "close_remove_paths store i =
     [path_join (path_join store ''workers'') (i @ ''.task''), path_join (path_join store ''workers'') (i @ ''.json'')]"

definition session_survived_kill :: "bool \<Rightarrow> bool option \<Rightarrow> bool" where
  "session_survived_kill kill_ok listed = (case listed of Some l \<Rightarrow> l | None \<Rightarrow> \<not> kill_ok)"

fun kill_step :: "owner \<Rightarrow> close_step list" where
  "kill_step (Mine s) = [KillSession (se_name s)]"
| "kill_step (Foreign s) = [KillSession (se_name s)]"
| "kill_step Missing = []"

fun stop_steps :: "close_state \<Rightarrow> close_step list" where
  "stop_steps st = (case cl_kind st of
     Cursor \<Rightarrow> [TerminateCursor]
   | Opencode \<Rightarrow> [RemoveOpencodeSession]
   | Codex \<Rightarrow> [TerminateCodex]
   | ClaudeHeadless \<Rightarrow> [TerminateClaudeHeadless]
   | Claude \<Rightarrow> kill_step (cl_owner st))"

definition nothing_left :: "close_state \<Rightarrow> bool" where
  "nothing_left st \<longleftrightarrow> cl_owner st = Missing \<and> cl_dirty st = None \<and> cl_unmerged st = None"

fun foreign_store :: "owner \<Rightarrow> string option" where
  "foreign_store (Foreign s) = Some (se_store s)"
| "foreign_store _ = None"

definition unfinished_work :: "close_state \<Rightarrow> string option" where
  "unfinished_work st =
     (if (case cl_unmerged st of Some n \<Rightarrow> 1 \<le> n | None \<Rightarrow> False)
      then Some (''Branch '' @ branch_name (cl_id st) @ '' has '' @ dec (the (cl_unmerged st)) @ '' commit(s) not in '' @ cl_base st
        @ ''. Merge it first, or close with abandon to drop them.'')
      else if cl_dirty st = Some True
      then Some (''Worker '' @ cl_id st @ [CHR 0x27] @ ''s worktree has uncommitted changes. Commit them, or close with abandon to drop them.'')
      else None)"

definition close_plan :: "close_state \<Rightarrow> bool \<Rightarrow> bool \<Rightarrow> close_step list result" where
  "close_plan st abandon force =
     (case (foreign_store (cl_owner st), force) of
        (Some store, False) \<Rightarrow>
          Inl (''Worker '' @ cl_id st @ '' belongs to another chat (store '' @ store @ ''). Not closing it.'')
      | _ \<Rightarrow>
          if nothing_left st \<and> cl_markers st then Inr [ClearMarkers]
          else if nothing_left st
            then Inl (''Worker '' @ cl_id st @ '' has no tmux session, worktree or branch to close.'')
          else case (if abandon then None else unfinished_work st) of
            Some refusal \<Rightarrow> Inl refusal
          | None \<Rightarrow> Inr (
              (if cl_opencode st \<and> cl_kind st \<noteq> Opencode then [RemoveOpencodeSession] else []) @
              stop_steps st @
              (case cl_dirty st of Some dirty \<Rightarrow> [RemoveWorktree dirty] | None \<Rightarrow> []) @
              (if cl_unmerged st \<noteq> None then [DeleteBranch] else []) @
              [PruneWorktrees, ClearMarkers]))"

definition removes_worktree :: "close_step list \<Rightarrow> bool" where
  "removes_worktree steps \<longleftrightarrow> list_ex (\<lambda>s. case s of RemoveWorktree f \<Rightarrow> True | _ \<Rightarrow> False) steps"

definition cleans_cursor_leftovers :: "close_state \<Rightarrow> close_step list \<Rightarrow> bool" where
  "cleans_cursor_leftovers st steps \<longleftrightarrow> cl_kind st = Cursor \<and> removes_worktree steps"

definition cleans_claude_leftovers :: "close_state \<Rightarrow> close_step list \<Rightarrow> bool" where
  "cleans_claude_leftovers st steps \<longleftrightarrow> cl_kind st \<in> {Claude, ClaudeHeadless} \<and> removes_worktree steps"

subsection \<open>The run of the steps\<close>

text \<open>
  The files of the store are the paths that exist. What a step asks of the handoff, tmux and git, and
  whether a file can be removed or written, is a parameter; an error ends the close.
\<close>

record 'w site =
  si_paths :: "string list"
  si_world :: 'w

record 'w close_env =
  ce_running :: "close_step \<Rightarrow> 'w \<Rightarrow> bool"
  ce_halt :: "close_step \<Rightarrow> 'w \<Rightarrow> unit result \<times> 'w"
  ce_kill :: "string \<Rightarrow> 'w \<Rightarrow> unit result \<times> 'w"
  ce_listed :: "string \<Rightarrow> 'w \<Rightarrow> bool option"
  ce_git :: "string list \<Rightarrow> 'w \<Rightarrow> unit result \<times> 'w"
  ce_clear :: "string \<Rightarrow> 'w \<Rightarrow> string option"
  ce_touch :: "string \<Rightarrow> 'w \<Rightarrow> string option"

definition clear_marker :: "'w close_env \<Rightarrow> string \<Rightarrow> 'w site \<Rightarrow> unit result \<times> 'w site" where
  "clear_marker env p si = (case ce_clear env p (si_world si) of
     Some e \<Rightarrow> (Inl e, si)
   | None \<Rightarrow> (Inr (), si\<lparr>si_paths := filter (\<lambda>q. q \<noteq> p) (si_paths si)\<rparr>))"

definition touch_marker :: "'w close_env \<Rightarrow> string \<Rightarrow> 'w site \<Rightarrow> unit result \<times> 'w site" where
  "touch_marker env p si = (case ce_touch env p (si_world si) of
     Some e \<Rightarrow> (Inl e, si)
   | None \<Rightarrow> (Inr (), si\<lparr>si_paths := p # filter (\<lambda>q. q \<noteq> p) (si_paths si)\<rparr>))"

fun clear_all :: "'w close_env \<Rightarrow> string list \<Rightarrow> 'w site \<Rightarrow> unit result \<times> 'w site" where
  "clear_all env [] si = (Inr (), si)"
| "clear_all env (p # ps) si = (case clear_marker env p si of
     (Inl e, si') \<Rightarrow> (Inl e, si')
   | (Inr _, si') \<Rightarrow> clear_all env ps si')"

definition in_world :: "('w \<Rightarrow> unit result \<times> 'w) \<Rightarrow> 'w site \<Rightarrow> unit result \<times> 'w site" where
  "in_world f si = (case f (si_world si) of (r, w) \<Rightarrow> (r, si\<lparr>si_world := w\<rparr>))"

definition kill_session :: "'w close_env \<Rightarrow> string \<Rightarrow> string \<Rightarrow> 'w site \<Rightarrow> unit result \<times> 'w site" where
  "kill_session env ready session si = (case clear_marker env ready si of
     (Inl e, si1) \<Rightarrow> (Inl e, si1)
   | (Inr _, si1) \<Rightarrow>
       (case in_world (ce_kill env session) si1 of (killed, si2) \<Rightarrow>
          if session_survived_kill (killed = Inr ()) (ce_listed env session (si_world si2))
          then (case touch_marker env ready si2 of
                  (Inl e, si3) \<Rightarrow> (Inl e, si3)
                | (Inr _, si3) \<Rightarrow>
                    (case killed of
                       Inl e \<Rightarrow> (Inl e, si3)
                     | Inr _ \<Rightarrow> (Inl (''tmux session '' @ session @ '' is still alive after kill-session''), si3)))
          else (killed, si2)))"

record close_target =
  ct_store :: string
  ct_repo :: string
  ct_worktree :: string
  ct_id :: string

fun run_close_step :: "'w close_env \<Rightarrow> close_target \<Rightarrow> close_step \<Rightarrow> 'w site \<Rightarrow> unit result \<times> 'w site" where
  "run_close_step env t RemoveOpencodeSession si = in_world (ce_halt env RemoveOpencodeSession) si"
| "run_close_step env t (KillSession session) si =
     kill_session env (path_join (path_join (ct_store t) ''ready'') (ct_id t)) session si"
| "run_close_step env t (RemoveWorktree force) si =
     in_world (ce_git env ([''-C'', ct_repo t, ''worktree'', ''remove''] @ (if force then [''--force''] else []) @ [ct_worktree t])) si"
| "run_close_step env t DeleteBranch si =
     in_world (ce_git env [''-C'', ct_repo t, ''branch'', ''-D'', branch_name (ct_id t)]) si"
| "run_close_step env t PruneWorktrees si = in_world (ce_git env [''-C'', ct_repo t, ''worktree'', ''prune'']) si"
| "run_close_step env t ClearMarkers si =
     (case clear_all env (close_clear_paths (ct_store t) (ct_id t)) si of
        (Inl e, si') \<Rightarrow> (Inl e, si')
      | (Inr _, si') \<Rightarrow> (Inr (), foldl (\<lambda>si p. snd (clear_marker env p si)) si' (close_remove_paths (ct_store t) (ct_id t))))"
| "run_close_step env t halting si =
     (if ce_running env halting (si_world si) then in_world (ce_halt env halting) si else (Inr (), si))"

fun run_close_steps ::
  "'w close_env \<Rightarrow> close_target \<Rightarrow> close_step list \<Rightarrow> 'w site \<Rightarrow> (close_step \<times> string + unit) \<times> 'w site" where
  "run_close_steps env t [] si = (Inr (), si)"
| "run_close_steps env t (s # ss) si = (case run_close_step env t s si of
     (Inl e, si') \<Rightarrow> (Inl (s, e), si')
   | (Inr _, si') \<Rightarrow> run_close_steps env t ss si')"

subsection \<open>What a close promises\<close>

lemma close_plan_cases [consumes 1, case_names only_markers full]:
  assumes "close_plan st abandon force = Inr steps"
  obtains "nothing_left st" "steps = [ClearMarkers]"
  | "\<not> nothing_left st" "foreign_store (cl_owner st) = None \<or> force"
    "abandon \<or> unfinished_work st = None"
    "steps = (if cl_opencode st \<and> cl_kind st \<noteq> Opencode then [RemoveOpencodeSession] else []) @
       stop_steps st @ (case cl_dirty st of Some dirty \<Rightarrow> [RemoveWorktree dirty] | None \<Rightarrow> []) @
       (if cl_unmerged st \<noteq> None then [DeleteBranch] else []) @ [PruneWorktrees, ClearMarkers]"
  using assms unfolding close_plan_def by (auto split: option.splits if_splits bool.splits)

lemma session_owner_found:
  "session_owner sessions store project i = Mine s \<Longrightarrow>
     s \<in> set sessions \<and> se_name s \<in> {session_name project i, ''ralph-'' @ i} \<and> same_store (se_store s) store"
  by (auto simp: session_owner_def Let_def find_None_iff filter_eq_Cons_iff split: option.splits list.splits)

lemma stop_steps_kinds:
  "RemoveWorktree f \<notin> set (stop_steps st)" "DeleteBranch \<notin> set (stop_steps st)" "ClearMarkers \<notin> set (stop_steps st)"
  "KillSession n \<in> set (stop_steps st) \<Longrightarrow> (\<exists>s. cl_owner st \<in> {Mine s, Foreign s} \<and> n = se_name s)"
  by (cases "cl_kind st"; cases "cl_owner st"; simp)+

text \<open>C10: a close that is not told to abandon never forces a worktree with changes away and never deletes
  a branch with commits that are not merged; and unless it is told to take over, every session it kills
  carries one of the worker's two names and belongs to this chat's own store.\<close>

theorem close_drops_only_finished_work:
  assumes "close_plan st abandon force = Inr steps" and "cl_owner st = session_owner sessions store project i"
  shows "(abandon \<or> RemoveWorktree True \<notin> set steps \<and> (DeleteBranch \<notin> set steps \<or> cl_unmerged st = Some 0)) \<and>
    (\<forall>n. KillSession n \<in> set steps \<longrightarrow> force \<or>
      (\<exists>s \<in> set sessions. se_name s = n \<and> n \<in> {session_name project i, ''ralph-'' @ i} \<and> same_store (se_store s) store))"
  using assms(1)
proof (cases rule: close_plan_cases)
  case only_markers
  then show ?thesis by simp
next
  case full
  have "abandon \<or> cl_dirty st \<noteq> Some True \<and> (cl_unmerged st = None \<or> cl_unmerged st = Some 0)"
    using full(3) by (auto simp: unfinished_work_def split: if_splits option.splits)
  moreover have "force \<or> (\<exists>s \<in> set sessions. se_name s = n \<and> n \<in> {session_name project i, ''ralph-'' @ i} \<and> same_store (se_store s) store)"
    if "KillSession n \<in> set steps" for n
  proof -
    have "KillSession n \<in> set (stop_steps st)" using that full(4) by (auto split: option.splits if_splits)
    then obtain s where s: "cl_owner st \<in> {Mine s, Foreign s}" "n = se_name s" using stop_steps_kinds(4) by blast
    show ?thesis
    proof (cases force)
      case False
      then have "cl_owner st = Mine s" using full(2) s(1) by auto
      then show ?thesis using session_owner_found [of sessions store project i s] s(2) assms(2) by auto
    qed simp
  qed
  ultimately show ?thesis using full(4) stop_steps_kinds(1) [of _ st] stop_steps_kinds(2) [of st] by (auto split: option.splits if_splits)
qed

theorem close_drops_only_finished_work_witness:
  "KillSession ''ralph-r-w'' \<in> set [KillSession ''ralph-r-w'', RemoveWorktree False, PruneWorktrees, ClearMarkers] \<and>
   se_name \<lparr>se_name = ''ralph-r-w'', se_store = ''/s'', se_id = ''w''\<rparr> = ''ralph-r-w''"
proof -
  let ?s = "\<lparr>se_name = ''ralph-r-w'', se_store = ''/s'', se_id = ''w''\<rparr>"
  have "same_store ''/s'' ''/s''" by (simp add: same_store_def trim_no_ws is_ws_ascii)
  then have o: "Mine ?s = session_owner [?s] ''/s'' ''r'' ''w''" by (simp add: session_owner_def session_name_def)
  have "close_plan \<lparr>cl_id = ''w'', cl_owner = Mine ?s, cl_dirty = Some False, cl_base = ''main'', cl_unmerged = None,
      cl_opencode = False, cl_markers = True, cl_kind = Claude\<rparr> False False =
      Inr [KillSession ''ralph-r-w'', RemoveWorktree False, PruneWorktrees, ClearMarkers]"
    by (simp add: close_plan_def nothing_left_def unfinished_work_def)
  from close_drops_only_finished_work [OF this, of "[?s]" "''/s''" "''r''" "''w''"] o show ?thesis by simp
qed

lemma clear_all_ok: "clear_all env ps si = (Inr (), si') \<Longrightarrow> set (si_paths si') = set (si_paths si) - set ps"
  by (induction ps arbitrary: si) (auto simp: clear_marker_def split: option.splits prod.splits sum.splits)

lemma clear_rest: "set (si_paths (foldl (\<lambda>si p. snd (clear_marker env p si)) si ps)) \<subseteq> set (si_paths si)"
proof (induction ps arbitrary: si)
  case (Cons p ps)
  then show ?case using Cons [of "snd (clear_marker env p si)"] by (fastforce simp: clear_marker_def split: option.splits)
qed simp

lemma kill_session_paths:
  "filter (\<lambda>q. q \<noteq> ready) (si_paths (snd (kill_session env ready session si))) = filter (\<lambda>q. q \<noteq> ready) (si_paths si)"
  by (auto simp: kill_session_def clear_marker_def touch_marker_def in_world_def split: option.splits prod.splits sum.splits)

lemma close_step_paths:
  assumes "step \<noteq> ClearMarkers"
  shows "filter (\<lambda>q. q \<noteq> path_join (path_join (ct_store t) ''ready'') (ct_id t)) (si_paths (snd (run_close_step env t step si))) =
    filter (\<lambda>q. q \<noteq> path_join (path_join (ct_store t) ''ready'') (ct_id t)) (si_paths si)"
  using assms by (cases step) (simp_all add: kill_session_paths in_world_def split: prod.split)

lemma run_close_steps_append:
  "run_close_steps env t (ss @ ss') si = (case run_close_steps env t ss si of
     (Inl e, si') \<Rightarrow> (Inl e, si') | (Inr _, si') \<Rightarrow> run_close_steps env t ss' si')"
  by (induction ss arbitrary: si) (auto split: prod.splits sum.splits)

lemma run_close_steps_paths:
  assumes "ClearMarkers \<notin> set ss"
  shows "filter (\<lambda>q. q \<noteq> path_join (path_join (ct_store t) ''ready'') (ct_id t)) (si_paths (snd (run_close_steps env t ss si))) =
    filter (\<lambda>q. q \<noteq> path_join (path_join (ct_store t) ''ready'') (ct_id t)) (si_paths si)"
  using assms
proof (induction ss arbitrary: si)
  case (Cons s ss)
  then have "filter (\<lambda>q. q \<noteq> path_join (path_join (ct_store t) ''ready'') (ct_id t)) (si_paths (snd (run_close_step env t s si))) =
      filter (\<lambda>q. q \<noteq> path_join (path_join (ct_store t) ''ready'') (ct_id t)) (si_paths si)"
    by (intro close_step_paths) auto
  then show ?case using Cons by (auto split: prod.splits sum.splits)
qed simp

lemma failing_step: "run_close_steps env t ss si = (Inl (s, e), si') \<Longrightarrow> s \<in> set ss"
  by (induction ss arbitrary: si) (auto split: prod.splits sum.splits)

lemma close_plan_clears_last:
  assumes "close_plan st abandon force = Inr steps"
  shows "\<exists>ss. steps = ss @ [ClearMarkers] \<and> ClearMarkers \<notin> set ss"
  using assms
proof (cases rule: close_plan_cases)
  case only_markers
  then show ?thesis by simp
next
  case full
  then show ?thesis using stop_steps_kinds(3) [of st] by (auto split: option.split simp del: stop_steps.simps)
qed


definition quiet_close_env :: "unit close_env" where
  "quiet_close_env = \<lparr>ce_running = \<lambda>s w. False, ce_halt = \<lambda>s w. (Inr (), w), ce_kill = \<lambda>s w. (Inr (), w), ce_listed = \<lambda>s w. None,
     ce_git = \<lambda>args w. (Inr (), w), ce_clear = \<lambda>p w. None, ce_touch = \<lambda>p w. None\<rparr>"


end
