(* ===== verification/Inbox.thy ===== *)
theory Inbox
  imports Worker_Report Machine "HOL-Library.Multiset"
begin

section \<open>The inbox of a chat\<close>

text \<open>
  \<open>core/src/inbox.rs\<close> and \<open>Inbox\<close> of \<open>ralph/src/worker_mcp.rs\<close>: workers post reports as files; the chat
  moves them into a ledger, from which reports are shown, taken and dropped. Reports are decoded and
  written by serde, so a file holds a report or is malformed.
\<close>

subsection \<open>The ledger\<close>

type_synonym position = nat  \<comment> \<open>\<open>NonZeroUsize\<close>: the positions are 1, 2, \<dots>\<close>

definition FIRST :: position where
  "FIRST = 1"

definition at_index :: "nat \<Rightarrow> position option" where
  "at_index i = checked_add i 1"

definition position_parse :: "string \<Rightarrow> position option" where
  "position_parse s = (case parse_uint u64_max s of Some n \<Rightarrow> if n = 0 then None else Some n | None \<Rightarrow> None)"

record inbox_entry =
  ie_source :: string
  ie_report :: report

type_synonym ledger = "inbox_entry list"

record stored_entry =
  so_source :: string
  so_read :: "bool option"
  so_report :: report

definition ledger_from :: "stored_entry list \<Rightarrow> ledger" where
  "ledger_from es = map (\<lambda>e. \<lparr>ie_source = so_source e, ie_report = so_report e\<rparr>)
     (filter (\<lambda>e. \<not> (case so_read e of Some b \<Rightarrow> b | None \<Rightarrow> False)) es)"

fun ingest :: "ledger \<Rightarrow> (string \<times> report) list \<Rightarrow> ledger" where
  "ingest l [] = l"
| "ingest l ((source, r) # as) =
     (if list_ex (\<lambda>e. ie_source e = source) l then ingest l as
      else ingest (l @ [\<lparr>ie_source = source, ie_report = r\<rparr>]) as)"

definition ledger_get :: "ledger \<Rightarrow> position \<Rightarrow> inbox_entry option" where
  "ledger_get l p = (if p - 1 < length l then Some (l ! (p - 1)) else None)"

definition ledger_remove :: "ledger \<Rightarrow> position \<Rightarrow> inbox_entry option \<times> ledger" where
  "ledger_remove l p =
     (if p - 1 < length l then (Some (l ! (p - 1)), take (p - 1) l @ drop (Suc (p - 1)) l) else (None, l))"

datatype selection = SelectAll | SelectNext | SelectAt position

fun ledger_take :: "selection \<Rightarrow> ledger \<Rightarrow> report list \<times> ledger" where
  "ledger_take SelectAll l = (map ie_report l, [])"
| "ledger_take SelectNext l =
     (case ledger_remove l FIRST of (e, l') \<Rightarrow> (case e of Some x \<Rightarrow> [ie_report x] | None \<Rightarrow> [], l'))"
| "ledger_take (SelectAt p) l =
     (case ledger_remove l p of (e, l') \<Rightarrow> (case e of Some x \<Rightarrow> [ie_report x] | None \<Rightarrow> [], l'))"

record unread_turn_text =
  ut_logged :: "string list"
  ut_message :: string

definition unread_turn :: "selection \<Rightarrow> report list \<Rightarrow> unread_turn_text result" where
  "unread_turn sel reports =
     (if reports = [] then
        Inl (case sel of
          SelectAt p \<Rightarrow> ''No report '' @ dec p @ ''. /inbox list shows the queue.''
        | _ \<Rightarrow> ''No unread reports.'')
      else Inr \<lparr>ut_logged = map (\<lambda>r. chat_message [r]) reports, ut_message = chat_message reports\<rparr>)"

text \<open>The seconds since a time, \<open>None\<close> when it is not RFC 3339, are a parameter.\<close>

definition age :: "(string \<Rightarrow> int option) \<Rightarrow> string \<Rightarrow> string" where
  "age since at = (case since at of
     None \<Rightarrow> ''?''
   | Some s \<Rightarrow>
       let secs = nat (max s 0)
       in if secs < 60 then dec secs @ ''s''
          else if secs < 3600 then dec (secs div 60) @ ''m''
          else if secs < 86400 then dec (secs div 3600) @ ''h''
          else dec (secs div 86400) @ ''d'')"

definition pad_right :: "nat \<Rightarrow> string \<Rightarrow> string" where
  "pad_right w s = s @ replicate (w - length (chars_of s)) (CHR '' '')"

definition column_width :: "string list \<Rightarrow> nat" where
  "column_width cells = foldr max (map (\<lambda>s. length (chars_of s)) cells) 0"

definition inbox_list :: "(string \<Rightarrow> int option) \<Rightarrow> ledger \<Rightarrow> string" where
  "inbox_list since es =
     (if es = [] then ''No reports.''
      else
        let rows = map (\<lambda>(i, e). (''#'' @ dec (i + 1), rp_worker (ie_report e), rp_status (ie_report e), age since (rp_at (ie_report e))))
              (zip [0..<length es] es);
            w0 = column_width (map (\<lambda>(a, b, c, d). a) rows);
            w1 = column_width (map (\<lambda>(a, b, c, d). b) rows);
            w2 = column_width (map (\<lambda>(a, b, c, d). c) rows)
        in join newline (map (\<lambda>(a, b, c, d). pad_right w0 a @ ''  '' @ pad_right w1 b @ ''  '' @ pad_right w2 c @ ''  '' @ d) rows))"

subsection \<open>The files\<close>

text \<open>
  A call reads the directory and the ledger, then writes: the drop log, the new ledger (replaced as a
  whole by a rename), and last the removal of the files it has read. A write that fails ends the call
  with an error, and a crash ends it silently, so both leave some of the writes done, in order.
\<close>

record inbox =
  ib_files :: "(string \<times> report option) list"
  ib_ledger :: ledger
  ib_drops :: "inbox_entry list"

datatype disk_write =
    AppendDrop inbox_entry
  | SaveLedger ledger
  | RemoveFile string

definition is_message :: "string \<Rightarrow> bool" where
  "is_message name \<longleftrightarrow> ends_with ''.json'' name \<and> \<not> starts_with ''.'' name"

definition pending_files :: "inbox \<Rightarrow> string list" where
  "pending_files b = sort_strs (filter is_message (map fst (ib_files b)))"

definition arrivals :: "inbox \<Rightarrow> (string \<times> report) list" where
  "arrivals b = List.map_filter (\<lambda>name. case map_of (ib_files b) name of
     Some (Some r) \<Rightarrow> Some (name, r) | _ \<Rightarrow> None) (pending_files b)"

definition post :: "report \<Rightarrow> nat \<Rightarrow> inbox \<Rightarrow> inbox" where
  "post r seq b =
     (let name = inbox_file_name r seq
      in b\<lparr>ib_files := (name, Some r) # filter (\<lambda>(n, c). n \<noteq> name) (ib_files b)\<rparr>)"

fun write_disk :: "disk_write \<Rightarrow> inbox \<Rightarrow> inbox" where
  "write_disk (AppendDrop e) b = b\<lparr>ib_drops := ib_drops b @ [e]\<rparr>"
| "write_disk (SaveLedger l) b = b\<lparr>ib_ledger := l\<rparr>"
| "write_disk (RemoveFile name) b = b\<lparr>ib_files := filter (\<lambda>(n, c). n \<noteq> name) (ib_files b)\<rparr>"

definition ledger_now :: "inbox \<Rightarrow> ledger" where
  "ledger_now b = ingest (ib_ledger b) (arrivals b)"

definition sync :: "(ledger \<Rightarrow> 'v \<times> disk_write list \<times> ledger \<times> bool) \<Rightarrow> inbox \<Rightarrow> 'v \<times> disk_write list" where
  "sync act b =
     (case act (ledger_now b) of (v, before, l, changed) \<Rightarrow>
        (v, before @ (if pending_files b \<noteq> [] \<or> changed then [SaveLedger l] else []) @ map RemoveFile (pending_files b)))"

definition peek :: "inbox \<Rightarrow> report list \<times> disk_write list" where
  "peek = sync (\<lambda>l. (map ie_report l, [], l, False))"

definition unread_count :: "inbox \<Rightarrow> nat" where
  "unread_count b = length (ib_ledger b) + length (pending_files b)"

definition drain :: "selection \<Rightarrow> inbox \<Rightarrow> report list \<times> disk_write list" where
  "drain sel = sync (\<lambda>l. case ledger_take sel l of (rs, l') \<Rightarrow> (rs, [], l', rs \<noteq> []))"

definition drop_report :: "string option \<Rightarrow> position \<Rightarrow> inbox \<Rightarrow> inbox_entry option result \<times> disk_write list" where
  "drop_report log_error p = sync (\<lambda>l. case ledger_get l p of
     None \<Rightarrow> (Inr None, [], l, False)
   | Some e \<Rightarrow>
       (case log_error of
          None \<Rightarrow> (Inr (Some e), [AppendDrop e], snd (ledger_remove l p), True)
        | Some err \<Rightarrow> (Inl err, [], l, False)))"

subsection \<open>The calls and their ends\<close>

text \<open>
  Every call but a post comes with the number of its writes that happen before the process ends or a
  write fails. Reports that a drain has taken out of the saved ledger, but not handed over, are lost
  in its hands.
\<close>

datatype inbox_call =
    CPost report nat
  | CPeek nat
  | CDrain selection nat
  | CDrop "string option" position nat

datatype inbox_output =
    Delivered "report list"
  | LostInHand "report list"

definition after_writes :: "nat \<Rightarrow> disk_write list \<Rightarrow> inbox \<Rightarrow> inbox" where
  "after_writes k ws b = foldl (\<lambda>b w. write_disk w b) b (take k ws)"

fun inbox_step :: "inbox_call \<Rightarrow> inbox \<Rightarrow> inbox_output list \<times> inbox" where
  "inbox_step (CPost r seq) b = ([], post r seq b)"
| "inbox_step (CPeek k) b = ([], after_writes k (snd (peek b)) b)"
| "inbox_step (CDrain sel k) b =
     (case drain sel b of (rs, ws) \<Rightarrow>
        (if length ws \<le> k then [Delivered rs] else if 0 < k then [LostInHand rs] else [], after_writes k ws b))"
| "inbox_step (CDrop log_error p k) b = ([], after_writes k (snd (drop_report log_error p b)) b)"

subsection \<open>What the inbox promises\<close>

definition sources :: "ledger \<Rightarrow> string list" where
  "sources = map ie_source"

definition unread :: "inbox \<Rightarrow> report multiset" where
  "unread b = mset (map ie_report (ledger_now b))"

definition entry_of :: "string \<times> report \<Rightarrow> inbox_entry" where
  "entry_of a = \<lparr>ie_source = fst a, ie_report = snd a\<rparr>"

lemma list_ex_sources: "list_ex (\<lambda>e. ie_source e = s) l \<longleftrightarrow> s \<in> set (sources l)"
  by (auto simp: list_ex_iff sources_def)

lemma ingest_distinct:
  "distinct (map fst as) \<Longrightarrow> ingest l as = l @ map entry_of (filter (\<lambda>a. fst a \<notin> set (sources l)) as)"
proof (induction l as rule: ingest.induct)
  case (2 l source r as)
  have "filter (\<lambda>a. fst a \<noteq> source \<and> fst a \<notin> set (sources l)) as = filter (\<lambda>a. fst a \<notin> set (sources l)) as"
    using 2(3) by (intro filter_cong) force+
  then show ?case using 2 by (auto simp: list_ex_sources entry_of_def sources_def)
qed simp

lemma ingest_prefix: "\<exists>es. ingest l as = l @ es"
proof (induction l as rule: ingest.induct)
  case (2 l source r as)
  then show ?case by (cases "list_ex (\<lambda>e. ie_source e = source) l") auto
qed simp

lemma ingest_known: "fst ` set as \<subseteq> set (sources l) \<Longrightarrow> ingest l as = l"
  by (induction l as rule: ingest.induct) (auto simp: list_ex_sources)

lemma ingest_sources: "set (sources (ingest l as)) = set (sources l) \<union> fst ` set as"
  by (induction l as rule: ingest.induct) (auto simp: list_ex_sources sources_def)

lemma mset_insert_str [simp]: "mset (insert_str x xs) = add_mset x (mset xs)"
  by (induction xs) auto

lemma mset_sort_strs [simp]: "mset (sort_strs xs) = mset xs"
  by (induction xs) (simp_all add: sort_strs_def)

lemma ledger_remove_mset:
  "ledger_remove l p = (e, l') \<Longrightarrow>
     mset (case e of Some x \<Rightarrow> [ie_report x] | None \<Rightarrow> []) + mset (map ie_report l') = mset (map ie_report l)"
proof -
  assume r: "ledger_remove l p = (e, l')"
  show ?thesis
  proof (cases "p - 1 < length l")
    case True
    then have "l = take (p - 1) l @ l ! (p - 1) # drop (Suc (p - 1)) l" by (rule id_take_nth_drop)
    then have "mset (map ie_report l) = mset (map ie_report (take (p - 1) l @ l ! (p - 1) # drop (Suc (p - 1)) l))" by metis
    then show ?thesis using r True by (auto simp: ledger_remove_def)
  qed (use r in \<open>auto simp: ledger_remove_def\<close>)
qed

lemma ledger_take_mset: "ledger_take sel l = (rs, l') \<Longrightarrow> mset rs + mset (map ie_report l') = mset (map ie_report l)"
  by (cases sel) (auto split: prod.splits dest: ledger_remove_mset)

lemma ledger_take_none: "ledger_take sel l = ([], l') \<Longrightarrow> l' = l"
  by (cases sel) (auto simp: ledger_remove_def split: prod.splits option.splits if_splits)

lemma ledger_in_unread: "mset (map ie_report (ib_ledger b)) \<subseteq># unread b"
  using ingest_prefix [of "ib_ledger b" "arrivals b"] by (auto simp: unread_def ledger_now_def)

lemma removes_keep:
  "ib_ledger (foldl (\<lambda>b w. write_disk w b) b (map RemoveFile ns)) = ib_ledger b \<and>
   ib_drops (foldl (\<lambda>b w. write_disk w b) b (map RemoveFile ns)) = ib_drops b \<and>
   ib_files (foldl (\<lambda>b w. write_disk w b) b (map RemoveFile ns)) = filter (\<lambda>(n, c). n \<notin> set ns) (ib_files b)"
proof (induction ns arbitrary: b)
  case (Cons n ns)
  then show ?case by (auto intro: filter_cong)
qed (simp add: filter_True)

fun drops_of :: "disk_write list \<Rightarrow> inbox_entry list" where
  "drops_of [AppendDrop e] = [e]"
| "drops_of _ = []"

text \<open>A call that is cut short has either not saved its ledger, or it has and what it kept is still there.\<close>

lemma sync_after [case_names not_saved saved]:
  assumes act: "act (ledger_now b) = (v, before, l, changed)" "before = [] \<or> (\<exists>e. before = [AppendDrop e])"
    and same: "\<not> changed \<Longrightarrow> l = ledger_now b \<and> before = []"
  obtains "unread (after_writes k (snd (sync act b)) b) = unread b"
      "mset (ib_drops b) \<subseteq># mset (ib_drops (after_writes k (snd (sync act b)) b))" "k = 0 \<or> before \<noteq> [] \<or> \<not> changed"
  | "0 < k" "mset (map ie_report l) \<subseteq># unread (after_writes k (snd (sync act b)) b)"
      "ib_drops (after_writes k (snd (sync act b)) b) = ib_drops b @ drops_of before"
proof -
  let ?ws = "snd (sync act b)"
  have ws: "?ws = before @ (if pending_files b \<noteq> [] \<or> changed then [SaveLedger l] else []) @ map RemoveFile (pending_files b)"
    using act(1) by (simp add: sync_def)
  show ?thesis
  proof (cases "k \<le> length before \<or> pending_files b = [] \<and> \<not> changed")
    case True
    then have "k = 0 \<or> before = [] \<and> \<not> changed \<and> pending_files b = [] \<or> k = 1 \<and> (\<exists>e. before = [AppendDrop e])" using act(2) same by auto
    then show ?thesis
      by (elim disjE exE conjE; intro that(1))
        (auto simp: after_writes_def ws unread_def ledger_now_def arrivals_def pending_files_def)
  next
    case False
    define n where "n = k - length before - 1"
    have k: "k = length before + Suc n" "pending_files b \<noteq> [] \<or> changed"
      subgoal using False by (simp add: n_def)
      subgoal using False by blast
      done
    have "?ws = before @ SaveLedger l # map RemoveFile (pending_files b)" using ws k(2) by auto
    then have w: "take k ?ws = before @ SaveLedger l # map RemoveFile (take n (pending_files b))" by (simp add: k(1) take_map)
    have l: "ib_ledger (after_writes k ?ws b) = l"
      using removes_keep [of _ "take n (pending_files b)"] by (simp add: after_writes_def w)
    have "ib_drops (after_writes k ?ws b) = ib_drops b @ drops_of before"
      using removes_keep [of _ "take n (pending_files b)"] act(2) by (auto simp: after_writes_def w)
    then show ?thesis using that(2) ledger_in_unread [of "after_writes k ?ws b"] l k(1) by simp
  qed
qed

lemma map_of_filter_keys: "map_of (filter (\<lambda>(n, c). n \<notin> S) kvs) x = (if x \<in> S then None else map_of kvs x)"
  by (induction kvs) auto

lemma peek_keeps: "unread (after_writes k (snd (peek b)) b) = unread b \<and> ib_drops (after_writes k (snd (peek b)) b) = ib_drops b"
proof -
  have ws: "snd (peek b) = (if pending_files b \<noteq> [] then [SaveLedger (ledger_now b)] else []) @ map RemoveFile (pending_files b)"
    by (simp add: peek_def sync_def)
  show ?thesis
  proof (cases "k = 0 \<or> pending_files b = []")
    case True
    then show ?thesis by (auto simp: after_writes_def ws)
  next
    case False
    then obtain n where n: "k = Suc n" "pending_files b \<noteq> []" using not0_implies_Suc by auto
    define b' where "b' = after_writes k (snd (peek b)) b"
    have w: "take k (snd (peek b)) = SaveLedger (ledger_now b) # map RemoveFile (take n (pending_files b))"
      by (simp add: ws n take_map)
    have b': "ib_ledger b' = ledger_now b" "ib_drops b' = ib_drops b"
      "ib_files b' = filter (\<lambda>(x, c). x \<notin> set (take n (pending_files b))) (ib_files b)"
      using removes_keep [of "b\<lparr>ib_ledger := ledger_now b\<rparr>" "take n (pending_files b)"] by (simp_all add: b'_def after_writes_def w)
    have "fst ` set (arrivals b') \<subseteq> fst ` set (arrivals b)"
    proof
      fix x assume "x \<in> fst ` set (arrivals b')"
      then obtain r where r: "x \<in> set (pending_files b')" "map_of (ib_files b') x = Some (Some r)"
        by (auto simp: arrivals_def List.map_filter_def split: option.splits)
      then have "map_of (ib_files b) x = Some (Some r)" "x \<in> set (pending_files b)"
        by (auto simp: b'(3) pending_files_def map_of_filter_keys split: if_splits)
      then show "x \<in> fst ` set (arrivals b)" by (force simp: arrivals_def List.map_filter_def)
    qed
    then have "ledger_now b' = ledger_now b"
      unfolding ledger_now_def b'(1) by (intro ingest_known) (auto simp: ingest_sources)
    then show ?thesis using b'(2) by (simp add: unread_def b'_def)
  qed
qed

end
