(* ===== verification/Inbox_Facts.thy ===== *)
theory Inbox_Facts
  imports Inbox
begin

section \<open>What becomes of a report\<close>

text \<open>
  The entries an inbox holds, in its ledger and in its files, seen as a set: the ledger that a call
  works on lists each of them once. From this follows what every call keeps, at whichever write it ends.
\<close>

subsection \<open>The entries of an inbox\<close>

definition inbox_ok :: "inbox \<Rightarrow> bool" where
  "inbox_ok b \<longleftrightarrow> distinct (map fst (ib_files b)) \<and> distinct (sources (ib_ledger b)) \<and>
     (\<forall>e \<in> set (ib_ledger b). \<forall>c. (ie_source e, c) \<in> set (ib_files b) \<longrightarrow> c = Some (ie_report e))"

definition entries :: "inbox \<Rightarrow> inbox_entry set" where
  "entries b = set (ib_ledger b) \<union> {e. (ie_source e, Some (ie_report e)) \<in> set (ib_files b) \<and> is_message (ie_source e)}"

lemma distinct_sort_strs [simp]: "distinct (sort_strs xs) = distinct xs"
  by (metis mset_eq_imp_distinct_iff mset_sort_strs)

lemma in_map_filter: "y \<in> set (List.map_filter f xs) \<longleftrightarrow> (\<exists>x \<in> set xs. f x = Some y)"
  by (induction xs) (auto simp: List.map_filter_simps split: option.splits)

lemma map_fst_map_filter:
  "(\<And>n a. f n = Some a \<Longrightarrow> fst a = n) \<Longrightarrow> map fst (List.map_filter f xs) = filter (\<lambda>n. f n \<noteq> None) xs"
  by (induction xs) (auto simp: List.map_filter_simps split: option.splits)

lemma set_arrivals:
  assumes "distinct (map fst (ib_files b))"
  shows "a \<in> set (arrivals b) \<longleftrightarrow> (fst a, Some (snd a)) \<in> set (ib_files b) \<and> is_message (fst a)"
proof -
  have f: "(case map_of (ib_files b) n of Some (Some r) \<Rightarrow> Some (n, r) | _ \<Rightarrow> None) = Some a \<longleftrightarrow>
      n = fst a \<and> map_of (ib_files b) n = Some (Some (snd a))" for n
    by (cases a) (auto split: option.splits)
  have "a \<in> set (arrivals b) \<longleftrightarrow> fst a \<in> set (pending_files b) \<and> map_of (ib_files b) (fst a) = Some (Some (snd a))"
    unfolding arrivals_def in_map_filter f by blast
  moreover have "map_of (ib_files b) (fst a) = Some (Some (snd a)) \<longleftrightarrow> (fst a, Some (snd a)) \<in> set (ib_files b)"
    using assms by simp
  moreover have "fst a \<in> set (pending_files b)" if "(fst a, Some (snd a)) \<in> set (ib_files b)" "is_message (fst a)"
    using that by (force simp: pending_files_def)
  ultimately show ?thesis by (auto simp: pending_files_def)
qed

lemma set_pending: "x \<in> set (pending_files b) \<longleftrightarrow> is_message x \<and> x \<in> fst ` set (ib_files b)"
  by (auto simp: pending_files_def)

lemma distinct_arrivals: "distinct (map fst (ib_files b)) \<Longrightarrow> distinct (map fst (arrivals b))"
  unfolding arrivals_def by (subst map_fst_map_filter) (auto simp: pending_files_def split: option.splits)

lemma entry_of_inj: "entry_of a = e \<longleftrightarrow> a = (ie_source e, ie_report e)"
  by (cases a; cases e) (auto simp: entry_of_def)

lemma set_ledger_now:
  assumes "inbox_ok b"
  shows "set (ledger_now b) = entries b"
proof -
  have d: "distinct (map fst (ib_files b))" using assms by (simp add: inbox_ok_def)
  have "entry_of a \<in> set (ib_ledger b)" if a: "a \<in> set (arrivals b)" "fst a \<in> set (sources (ib_ledger b))" for a
  proof -
    obtain e where e: "e \<in> set (ib_ledger b)" "ie_source e = fst a" using a(2) by (auto simp: sources_def)
    then have "ie_report e = snd a" using assms a(1) by (fastforce simp: set_arrivals [OF d] inbox_ok_def)
    then have "entry_of a = e" using e(2) by (simp add: entry_of_inj prod_eq_iff)
    then show ?thesis using e(1) by simp
  qed
  moreover have "set (ledger_now b) = set (ib_ledger b) \<union> entry_of ` {a \<in> set (arrivals b). fst a \<notin> set (sources (ib_ledger b))}"
    by (simp add: ledger_now_def ingest_distinct [OF distinct_arrivals [OF d]])
  ultimately have "set (ledger_now b) = set (ib_ledger b) \<union> entry_of ` set (arrivals b)" by auto
  also have "entry_of ` set (arrivals b) = {e. (ie_source e, Some (ie_report e)) \<in> set (ib_files b) \<and> is_message (ie_source e)}"
  proof (intro set_eqI iffI)
    fix e :: inbox_entry assume "e \<in> {e. (ie_source e, Some (ie_report e)) \<in> set (ib_files b) \<and> is_message (ie_source e)}"
    then have "(ie_source e, ie_report e) \<in> set (arrivals b)" by (simp add: set_arrivals [OF d])
    then show "e \<in> entry_of ` set (arrivals b)" by (rule rev_image_eqI) (simp add: entry_of_def)
  qed (auto simp: set_arrivals [OF d] entry_of_def)
  finally show ?thesis by (simp add: entries_def)
qed

lemma distinct_ledger_now:
  assumes "inbox_ok b"
  shows "distinct (sources (ledger_now b))"
proof -
  have d: "distinct (map fst (ib_files b))" "distinct (sources (ib_ledger b))" using assms by (simp_all add: inbox_ok_def)
  have "map (ie_source \<circ> entry_of) as = map fst as" for as by (simp add: entry_of_def)
  moreover have "distinct (map fst (filter P (arrivals b)))" for P
    using distinct_arrivals [OF d(1)] by (rule distinct_map_filter)
  ultimately show ?thesis using d(2)
    by (auto simp: ledger_now_def ingest_distinct [OF distinct_arrivals [OF d(1)]] sources_def entry_of_def comp_def)
qed

lemma distinct_sources: "distinct (sources l) \<Longrightarrow> distinct l"
  by (simp add: sources_def distinct_map)

lemma unread_entries: "inbox_ok b \<Longrightarrow> unread b = image_mset ie_report (mset_set (entries b))"
  using set_ledger_now [of b] mset_set_set [OF distinct_sources [OF distinct_ledger_now], of b] by (simp add: unread_def)

lemma finite_entries: "inbox_ok b \<Longrightarrow> finite (entries b)"
  using set_ledger_now [of b] by (metis List.finite_set)

lemma unread_mono: "inbox_ok b \<Longrightarrow> inbox_ok b' \<Longrightarrow> entries b' \<subseteq> entries b \<Longrightarrow> unread b' \<subseteq># unread b"
  by (simp add: unread_entries image_mset_subseteq_mono finite_entries msubset_mset_set_iff finite_subset)

definition names :: "inbox \<Rightarrow> string set" where
  "names b = fst ` set (ib_files b) \<union> ie_source ` set (ib_ledger b)"

lemma entries_names: "e \<in> entries b \<Longrightarrow> ie_source e \<in> names b"
  by (force simp: entries_def names_def)

text \<open>What a write may do: nothing comes in.\<close>

definition shrinks :: "inbox \<Rightarrow> inbox \<Rightarrow> bool" where
  "shrinks b b' \<longleftrightarrow> inbox_ok b' \<and> entries b' \<subseteq> entries b \<and> names b' \<subseteq> names b"

lemma shrinks_refl: "inbox_ok b \<Longrightarrow> shrinks b b"
  by (simp add: shrinks_def)

lemma shrinks_trans: "shrinks b b' \<Longrightarrow> shrinks b' b'' \<Longrightarrow> shrinks b b''"
  by (auto simp: shrinks_def)

subsection \<open>The writes\<close>

definition save_ok :: "disk_write \<Rightarrow> inbox \<Rightarrow> bool" where
  "save_ok w b \<longleftrightarrow> (\<forall>l. w = SaveLedger l \<longrightarrow> set l \<subseteq> entries b \<and> distinct (sources l))"

lemma write_shrinks:
  assumes "inbox_ok b" and "save_ok w b"
  shows "shrinks b (write_disk w b)"
proof (cases w)
  case (SaveLedger l)
  have f: "c = Some r" if "(n, c) \<in> set (ib_files b)" "(n, Some r) \<in> set (ib_files b)" for n c r
    using assms(1) that by (auto simp: inbox_ok_def dest: eq_key_imp_eq_value)
  have "ie_source ` set l \<subseteq> names b" using assms(2) SaveLedger entries_names by (auto simp: save_ok_def)
  then show ?thesis using assms SaveLedger
    by (auto simp: shrinks_def names_def inbox_ok_def save_ok_def entries_def dest: f)
next
  case (RemoveFile n)
  then show ?thesis using assms(1) by (auto simp: shrinks_def names_def inbox_ok_def entries_def distinct_map_filter)
qed (use assms in \<open>auto simp: shrinks_def names_def inbox_ok_def entries_def\<close>)

lemma removes_shrink:
  "inbox_ok b \<Longrightarrow> shrinks b (foldl (\<lambda>b w. write_disk w b) b (map RemoveFile ns))"
proof (induction ns arbitrary: b)
  case (Cons n ns)
  have s: "shrinks b (write_disk (RemoveFile n) b)" using Cons(2) by (rule write_shrinks) (simp add: save_ok_def)
  then have "inbox_ok (write_disk (RemoveFile n) b)" by (simp add: shrinks_def)
  then show ?case using shrinks_trans [OF s Cons(1)] by (simp del: write_disk.simps)
qed (simp add: shrinks_refl)

lemma ledger_remove_sub:
  assumes "ledger_remove l p = (e, l')"
  shows "set l' \<subseteq> set l \<and> (distinct (sources l) \<longrightarrow> distinct (sources l'))"
proof (cases "p - 1 < length l")
  case True
  then have l: "l = take (p - 1) l @ l ! (p - 1) # drop (Suc (p - 1)) l" by (rule id_take_nth_drop)
  have "distinct (sources (xs @ x # ys)) \<Longrightarrow> distinct (sources (xs @ ys))" for xs x ys by (auto simp: sources_def)
  then have "distinct (sources l) \<Longrightarrow> distinct (sources (take (p - 1) l @ drop (Suc (p - 1)) l))" using l by metis
  moreover have "l' = take (p - 1) l @ drop (Suc (p - 1)) l" using True assms by (simp add: ledger_remove_def)
  ultimately show ?thesis by (auto dest: in_set_takeD in_set_dropD)
qed (use assms in \<open>simp add: ledger_remove_def\<close>)

lemma ledger_take_sub: "ledger_take sel l = (rs, l') \<Longrightarrow> set l' \<subseteq> set l \<and> (distinct (sources l) \<longrightarrow> distinct (sources l'))"
  by (cases sel) (auto split: prod.splits dest: ledger_remove_sub simp: sources_def)

lemma sync_shrinks:
  assumes "inbox_ok b" and act: "act (ledger_now b) = (v, before, l, changed)" "before = [] \<or> (\<exists>e. before = [AppendDrop e])"
    and l: "set l \<subseteq> set (ledger_now b)" "distinct (sources (ledger_now b)) \<longrightarrow> distinct (sources l)"
  shows "shrinks b (after_writes k (snd (sync act b)) b)"
proof -
  define save where "save = (if pending_files b \<noteq> [] \<or> changed then [SaveLedger l] else [])"
  define b1 where "b1 = after_writes k before b"
  define b2 where "b2 = after_writes (k - length before) save b1"
  have "take k before = [] \<or> (\<exists>e. take k before = [AppendDrop e])" using act(2) by (cases k) auto
  then have b1: "shrinks b b1" "entries b1 = entries b"
    using assms(1) write_shrinks [OF assms(1), of "AppendDrop _"]
    by (auto simp: b1_def after_writes_def shrinks_refl save_ok_def entries_def)
  have ok: "save_ok (SaveLedger l) b1"
    using l distinct_ledger_now [OF assms(1)] set_ledger_now [OF assms(1)] b1(2) by (simp add: save_ok_def)
  have "take n save = [] \<or> take n save = [SaveLedger l]" for n by (cases n) (auto simp: save_def)
  then have "shrinks b1 b2"
    using b1(1) write_shrinks [OF _ ok] by (metis b2_def after_writes_def foldl_Cons foldl_Nil shrinks_def shrinks_refl)
  then have s2: "shrinks b b2" using b1(1) shrinks_trans by blast
  have ws: "snd (sync act b) = before @ save @ map RemoveFile (pending_files b)" using act(1) by (simp add: sync_def save_def)
  have "after_writes k (snd (sync act b)) b = foldl (\<lambda>b w. write_disk w b) b2 (map RemoveFile (take (k - length before - length save) (pending_files b)))"
    using ws by (simp add: after_writes_def b1_def b2_def take_map)
  then show ?thesis using shrinks_trans [OF s2 removes_shrink] s2 by (simp add: shrinks_def)
qed

lemma drain_done:
  assumes "inbox_ok b" and t: "ledger_take sel (ledger_now b) = (rs, l)" and "length (snd (drain sel b)) \<le> k"
  shows "unread (after_writes k (snd (drain sel b)) b) = mset (map ie_report l)"
proof -
  define b' where "b' = after_writes k (snd (drain sel b)) b"
  have ws: "snd (drain sel b) = (if pending_files b \<noteq> [] \<or> rs \<noteq> [] then [SaveLedger l] else []) @ map RemoveFile (pending_files b)"
    using t by (simp add: drain_def sync_def)
  then have b': "b' = foldl (\<lambda>b w. write_disk w b)
      (if pending_files b \<noteq> [] \<or> rs \<noteq> [] then b\<lparr>ib_ledger := l\<rparr> else b) (map RemoveFile (pending_files b))"
    using assms(3) by (simp add: b'_def after_writes_def)
  have "ledger_now b = ib_ledger b" if "pending_files b = []" using that by (simp add: ledger_now_def arrivals_def List.map_filter_simps)
  then have "pending_files b = [] \<Longrightarrow> rs = [] \<Longrightarrow> ib_ledger b = l" using t ledger_take_none by fastforce
  then have l: "ib_ledger b' = l" using removes_keep by (auto simp: b')
  have "ib_files b' = filter (\<lambda>(n, c). n \<notin> set (pending_files b)) (ib_files b)" using removes_keep by (auto simp: b')
  then have "fst ` set (ib_files b') \<subseteq> fst ` set (ib_files b) - set (pending_files b)" by auto
  then have "\<forall>x. x \<notin> set (pending_files b')" using set_pending by blast
  then have "set (pending_files b') = {}" by auto
  then have "pending_files b' = []" by simp
  then show ?thesis using l by (simp add: unread_def ledger_now_def b'_def arrivals_def List.map_filter_simps)
qed

subsection \<open>The calls\<close>

fun posted :: "inbox_call \<Rightarrow> report list" where
  "posted (CPost r seq) = [r]"
| "posted _ = []"

fun posted_name :: "inbox_call \<Rightarrow> string list" where
  "posted_name (CPost r seq) = [inbox_file_name r seq]"
| "posted_name _ = []"

fun delivered :: "inbox_output \<Rightarrow> report list" where
  "delivered (Delivered rs) = rs"
| "delivered (LostInHand rs) = []"

fun handed :: "inbox_output \<Rightarrow> report list" where
  "handed (Delivered rs) = rs"
| "handed (LostInHand rs) = rs"

definition dropped :: "inbox \<Rightarrow> report multiset" where
  "dropped b = mset (map ie_report (ib_drops b))"

lemma inbox_file_name_is_message: "is_message (inbox_file_name r seq)"
proof -
  have "inbox_file_name r seq = (filter is_digit (rp_at r) @ ''-'' @ pad6 seq @ ''-'' @ map safe_char (chars_of (rp_worker r))) @ ''.json''"
    by (simp add: inbox_file_name_def)
  then have "ends_with ''.json'' (inbox_file_name r seq)" by (simp add: ends_with_def)
  moreover have "\<not> starts_with ''.'' (filter is_digit (rp_at r) @ CHR ''-'' # s)" for s
    by (cases "filter is_digit (rp_at r)") (auto simp: starts_with_def is_digit_def filter_eq_Cons_iff)
  then have "\<not> starts_with ''.'' (inbox_file_name r seq)" by (simp add: inbox_file_name_def)
  ultimately show ?thesis by (simp add: is_message_def)
qed

lemma post_adds:
  assumes "inbox_ok b" and "inbox_file_name r seq \<notin> names b"
  shows "inbox_ok (post r seq b) \<and> unread (post r seq b) = add_mset r (unread b) \<and>
    names (post r seq b) = insert (inbox_file_name r seq) (names b)"
proof -
  let ?e = "\<lparr>ie_source = inbox_file_name r seq, ie_report = r\<rparr>"
  have f: "filter (\<lambda>(n, c). n \<noteq> inbox_file_name r seq) (ib_files b) = ib_files b"
    using assms(2) by (force simp: names_def filter_id_conv)
  have n: "inbox_file_name r seq \<notin> fst ` set (ib_files b)" "e \<in> set (ib_ledger b) \<Longrightarrow> ie_source e \<noteq> inbox_file_name r seq" for e
    using assms(2) by (force simp: names_def)+
  have ok: "inbox_ok (post r seq b)"
    using assms(1) n by (auto simp: inbox_ok_def post_def Let_def f)
  have "entries (post r seq b) = insert ?e (entries b)"
    using inbox_file_name_is_message by (auto simp: entries_def post_def Let_def f)
  moreover have "?e \<notin> entries b" using assms(2) entries_names by fastforce
  ultimately have "unread (post r seq b) = add_mset r (unread b)"
    using finite_entries [OF assms(1)] by (simp add: unread_entries ok assms(1))
  then show ?thesis using ok by (auto simp: post_def Let_def f names_def)
qed

lemma subset_mset_addI: "(A :: 'a multiset) \<subseteq># A' \<Longrightarrow> B \<subseteq># B' \<Longrightarrow> A + B \<subseteq># A' + B'"
  by (rule subset_mset.add_mono)

lemma drain_step:
  assumes "inbox_ok b" and r: "inbox_step (CDrain sel k) b = (outs, b')"
  shows "shrinks b b' \<and> unread b + dropped b \<subseteq># unread b' + dropped b' + mset (concat (map handed outs)) \<and>
    unread b' + mset (concat (map delivered outs)) \<subseteq># unread b"
proof -
  obtain rs l where t: "ledger_take sel (ledger_now b) = (rs, l)" by (metis prod.collapse)
  define ws where "ws = snd (drain sel b)"
  have d: "drain sel b = (rs, ws)" using t by (simp add: ws_def drain_def sync_def)
  have b': "b' = after_writes k ws b" "outs = (if length ws \<le> k then [Delivered rs] else if 0 < k then [LostInHand rs] else [])"
    using r d by auto
  let ?act = "\<lambda>l. case ledger_take sel l of (rs, l') \<Rightarrow> (rs, [], l', rs \<noteq> [])"
  have act: "?act (ledger_now b) = (rs, [], l, rs \<noteq> [])" using t by simp
  have w: "ws = snd (sync ?act b)" by (simp add: ws_def drain_def)
  have s: "shrinks b b'"
    unfolding b'(1) w using ledger_take_sub [OF t] by (intro sync_shrinks [OF assms(1), of ?act, OF act]) auto
  have u: "unread b = mset rs + mset (map ie_report l)" using ledger_take_mset [OF t] by (simp add: unread_def)
  have low: "unread b + dropped b \<subseteq># unread b' + dropped b' + mset (concat (map handed outs))"
  proof (rule sync_after [of ?act b rs "[]" l "rs \<noteq> []" k, OF act])
    show "unread b + dropped b \<subseteq># unread b' + dropped b' + mset (concat (map handed outs))"
      if "unread (after_writes k (snd (sync ?act b)) b) = unread b"
        "mset (ib_drops b) \<subseteq># mset (ib_drops (after_writes k (snd (sync ?act b)) b))"
    proof -
      have "unread b + dropped b \<subseteq># unread b' + dropped b'"
        using that by (intro subset_mset_addI) (simp_all add: b'(1) w dropped_def image_mset_subseteq_mono)
      then show ?thesis by (rule subset_mset.order_trans) simp
    qed
    show "unread b + dropped b \<subseteq># unread b' + dropped b' + mset (concat (map handed outs))"
      if "0 < k" "mset (map ie_report l) \<subseteq># unread (after_writes k (snd (sync ?act b)) b)"
        "ib_drops (after_writes k (snd (sync ?act b)) b) = ib_drops b @ drops_of []"
    proof -
      have "mset (concat (map handed outs)) = mset rs" using that(1) by (simp add: b'(2))
      moreover have "dropped b' = dropped b" using that(3) by (simp add: dropped_def b'(1) w)
      ultimately show ?thesis using that(2) u by (simp add: b'(1) w add.commute add.left_commute subset_mset.add_mono)
    qed
  qed (use ledger_take_none t in auto)
  have "unread b' + mset (concat (map delivered outs)) \<subseteq># unread b"
  proof (cases "length ws \<le> k")
    case True
    then have "unread b' = mset (map ie_report l)" using drain_done [OF assms(1) t] by (simp add: b'(1) ws_def)
    then show ?thesis using True u by (simp add: b'(2))
  next
    case False
    then have "mset (concat (map delivered outs)) = {#}" by (simp add: b'(2))
    then show ?thesis using s unread_mono [OF assms(1)] by (simp add: shrinks_def del: concat_eq_Nil_conv mset_zero_iff)
  qed
  then show ?thesis using s low by blast
qed

lemma peek_step:
  assumes "inbox_ok b" and "inbox_step (CPeek k) b = (outs, b')"
  shows "shrinks b b' \<and> outs = [] \<and> unread b' = unread b \<and> dropped b' = dropped b"
proof -
  have b': "b' = after_writes k (snd (peek b)) b" "outs = []" using assms(2) by auto
  have "shrinks b b'"
    unfolding b'(1) peek_def
    by (rule sync_shrinks [OF assms(1), where v = "map ie_report (ledger_now b)" and before = "[]" and l = "ledger_now b" and changed = False]) auto
  then show ?thesis using peek_keeps [of k b] by (simp add: b' dropped_def)
qed

lemma drop_step:
  assumes "inbox_ok b" and r: "inbox_step (CDrop log_error p k) b = (outs, b')"
  shows "shrinks b b' \<and> outs = [] \<and> unread b + dropped b \<subseteq># unread b' + dropped b'"
proof -
  let ?act = "\<lambda>l. case ledger_get l p of None \<Rightarrow> (Inr None, [], l, False)
     | Some e \<Rightarrow> (case log_error of
         None \<Rightarrow> (Inr (Some e), [AppendDrop e], snd (ledger_remove l p), True) | Some err \<Rightarrow> (Inl err, [], l, False))"
  have b': "b' = after_writes k (snd (sync ?act b)) b" "outs = []" using r by (auto simp: drop_report_def)
  obtain v before l changed where act: "?act (ledger_now b) = (v, before, l, changed)"
    by (cases "?act (ledger_now b)") auto
  have cases: "before = [] \<and> l = ledger_now b \<and> \<not> changed \<or>
      (\<exists>e. before = [AppendDrop e] \<and> changed \<and> ledger_remove (ledger_now b) p = (Some e, l))"
    using act by (auto simp: ledger_get_def ledger_remove_def split: option.splits if_splits)
  then have before: "before = [] \<or> (\<exists>e. before = [AppendDrop e])" by blast
  have sub: "set l \<subseteq> set (ledger_now b)" "distinct (sources (ledger_now b)) \<longrightarrow> distinct (sources l)"
    using cases ledger_remove_sub by (auto dest: ledger_remove_sub)
  have s: "shrinks b b'" unfolding b'(1) by (rule sync_shrinks [OF assms(1), of ?act, OF act before sub])
  have "mset (map ie_report l) + mset (map ie_report (drops_of before)) = unread b"
    using cases ledger_remove_mset [of "ledger_now b" p _ l] by (fastforce simp: unread_def)
  then have u: "unread b + dropped b = mset (map ie_report l) + mset (map ie_report (ib_drops b @ drops_of before))"
    by (simp add: dropped_def add.commute add.left_commute)
  have "unread b + dropped b \<subseteq># unread b' + dropped b'"
  proof (rule sync_after [of ?act b v before l changed k, OF act before])
    show "unread b + dropped b \<subseteq># unread b' + dropped b'"
      if "unread (after_writes k (snd (sync ?act b)) b) = unread b"
        "mset (ib_drops b) \<subseteq># mset (ib_drops (after_writes k (snd (sync ?act b)) b))"
      using that by (intro subset_mset_addI) (simp_all add: b'(1) dropped_def image_mset_subseteq_mono)
    show "unread b + dropped b \<subseteq># unread b' + dropped b'"
      if "mset (map ie_report l) \<subseteq># unread (after_writes k (snd (sync ?act b)) b)"
        "ib_drops (after_writes k (snd (sync ?act b)) b) = ib_drops b @ drops_of before"
      unfolding u using that by (intro subset_mset_addI) (simp_all add: b'(1) dropped_def)
  qed (use cases in auto)
  then show ?thesis using s b'(2) by blast
qed

lemma inbox_step_keeps:
  assumes ok: "inbox_ok b" and fresh: "set (posted_name c) \<inter> names b = {}" and r: "inbox_step c b = (outs, b')"
  shows "inbox_ok b' \<and> names b' \<subseteq> names b \<union> set (posted_name c) \<and>
    unread b + dropped b + mset (posted c) \<subseteq># unread b' + dropped b' + mset (concat (map handed outs)) \<and>
    unread b' + mset (concat (map delivered outs)) \<subseteq># unread b + mset (posted c)"
proof (cases c)
  case (CPost rep seq)
  then have "b' = post rep seq b" "outs = []" "inbox_file_name rep seq \<notin> names b" using r fresh by auto
  then show ?thesis using post_adds [OF ok, of rep seq] CPost by (simp add: dropped_def post_def Let_def)
next
  case (CPeek k)
  then show ?thesis using peek_step [OF ok, of k outs b'] r unread_mono [OF ok, of b'] by (simp add: shrinks_def del: inbox_step.simps)
next
  case (CDrain sel k)
  then show ?thesis using drain_step [OF ok, of sel k outs b'] r by (simp add: shrinks_def del: inbox_step.simps)
next
  case (CDrop log_error p k)
  then show ?thesis using drop_step [OF ok, of log_error p k outs b'] r unread_mono [OF ok, of b']
    by (simp add: shrinks_def del: inbox_step.simps)
qed

definition inbox_new :: inbox where
  "inbox_new = \<lparr>ib_files = [], ib_ledger = [], ib_drops = []\<rparr>"

lemma inbox_run:
  assumes "inbox_ok b" and "distinct (concat (map posted_name cs))" and "set (concat (map posted_name cs)) \<inter> names b = {}"
    and "run_machine inbox_step cs b = (outs, b')"
  shows "unread b + dropped b + mset (concat (map posted cs)) \<subseteq># unread b' + dropped b' + mset (concat (map handed outs)) \<and>
    unread b' + mset (concat (map delivered outs)) \<subseteq># unread b + mset (concat (map posted cs))"
  using assms
proof (induction cs arbitrary: b outs)
  case (Cons c cs)
  obtain o1 b1 where s: "inbox_step c b = (o1, b1)" by (metis prod.collapse)
  obtain o2 where r: "run_machine inbox_step cs b1 = (o2, b')" "outs = o1 @ o2" using Cons.prems(4) s by (auto simp: run_machine.simps(2) split: prod.splits)
  have k: "inbox_ok b1" "names b1 \<subseteq> names b \<union> set (posted_name c)"
    "unread b + dropped b + mset (posted c) \<subseteq># unread b1 + dropped b1 + mset (concat (map handed o1))"
    "unread b1 + mset (concat (map delivered o1)) \<subseteq># unread b + mset (posted c)"
    using inbox_step_keeps [OF Cons.prems(1) _ s] Cons.prems(3) by auto
  have i: "unread b1 + dropped b1 + mset (concat (map posted cs)) \<subseteq># unread b' + dropped b' + mset (concat (map handed o2))"
    "unread b' + mset (concat (map delivered o2)) \<subseteq># unread b1 + mset (concat (map posted cs))"
    using Cons.IH [OF k(1) _ _ r(1)] Cons.prems(2,3) k(2) by auto
  have "unread b + dropped b + mset (concat (map posted (c # cs))) \<subseteq>#
      unread b1 + dropped b1 + mset (concat (map posted cs)) + mset (concat (map handed o1))"
    using subset_mset_addI [OF k(3) subset_mset.order_refl, of "mset (concat (map posted cs))"] by (simp add: ac_simps)
  also have "\<dots> \<subseteq># unread b' + dropped b' + mset (concat (map handed outs))"
    using subset_mset_addI [OF i(1) subset_mset.order_refl, of "mset (concat (map handed o1))"] r(2) by (simp add: ac_simps)
  finally have lower: "unread b + dropped b + mset (concat (map posted (c # cs))) \<subseteq># unread b' + dropped b' + mset (concat (map handed outs))" .
  have "unread b' + mset (concat (map delivered outs)) \<subseteq># unread b1 + mset (concat (map delivered o1)) + mset (concat (map posted cs))"
    using subset_mset_addI [OF i(2) subset_mset.order_refl, of "mset (concat (map delivered o1))"] r(2) by (simp add: ac_simps)
  also have "\<dots> \<subseteq># unread b + mset (concat (map posted (c # cs)))"
    using subset_mset_addI [OF k(4) subset_mset.order_refl, of "mset (concat (map posted cs))"] by (simp add: ac_simps)
  finally show ?case using lower by blast
qed simp



end
