(* ===== verification/Retry.thy ===== *)
theory Retry
  imports Rust_Str
begin

section \<open>Retries after an outage\<close>

text \<open>
  \<open>core/src/retry.rs\<close> and \<open>retry_on_outage\<close> of \<open>ralph/src/backoff.rs\<close>: a failed call of a model is
  classified by its exit code and its text, and repeated after a wait when the service was out. The
  call and the wait are closures: here functions of the number of the attempt.
\<close>

definition OUTAGE_BACKOFF_SECS :: "nat list" where
  "OUTAGE_BACKOFF_SECS = [2, 8]"

definition OUTAGE_MARKERS :: "string list" where
  "OUTAGE_MARKERS =
     [''overloaded'', ''api error: 5'', ''api error: 429'', ''rate limit'', ''rate_limit'', ''529'', ''503'', ''502'',
      ''500 internal'', ''econnreset'', ''econnrefused'', ''etimedout'', ''socket hang up'', ''connection error'',
      ''network error'', ''request timed out'']"

datatype failure_kind = Timeout | Outage | Refusal

fun failure_label :: "failure_kind \<Rightarrow> string" where
  "failure_label Timeout = ''timeout''"
| "failure_label Outage = ''outage''"
| "failure_label Refusal = ''refusal''"

record failure_input =
  fi_timed_out :: bool
  fi_exit_code :: int
  fi_text :: string

definition classify :: "failure_input \<Rightarrow> failure_kind" where
  "classify f =
     (if fi_timed_out f then Timeout
      else if fi_exit_code f = 0 then Refusal
      else if list_ex (\<lambda>m. contains m (to_lowercase (fi_text f))) OUTAGE_MARKERS then Outage
      else Refusal)"

definition backoff :: "nat \<Rightarrow> nat option" where
  "backoff attempt = (if attempt < length OUTAGE_BACKOFF_SECS then Some (OUTAGE_BACKOFF_SECS ! attempt) else None)"

definition retry_delay :: "failure_kind \<Rightarrow> nat \<Rightarrow> nat option" where
  "retry_delay kind attempt = (if kind = Outage then backoff attempt else None)"

datatype 'v attempt = Done 'v | Failed 'v failure_input

fun attempt_value :: "'v attempt \<Rightarrow> 'v" where
  "attempt_value (Done v) = v"
| "attempt_value (Failed v f) = v"

text \<open>The loop returns its value and the seconds it has asked to wait.\<close>

function retry_loop :: "(nat \<Rightarrow> 'v attempt) \<Rightarrow> (nat \<Rightarrow> bool) \<Rightarrow> nat \<Rightarrow> 'v \<times> nat list" where
  "retry_loop call wait retries = (case call retries of
     Done v \<Rightarrow> (v, [])
   | Failed v f \<Rightarrow>
       (case retry_delay (classify f) retries of
          None \<Rightarrow> (v, [])
        | Some secs \<Rightarrow>
            if \<not> wait retries then (v, [secs])
            else (case retry_loop call wait (retries + 1) of (r, waits) \<Rightarrow> (r, secs # waits))))"
  by pat_completeness auto
termination
  by (relation "measure (\<lambda>(call, wait, retries). length OUTAGE_BACKOFF_SECS - retries)")
    (auto simp: retry_delay_def backoff_def split: if_splits)

declare retry_loop.simps [simp del]

definition retry_on_outage :: "(nat \<Rightarrow> 'v attempt) \<Rightarrow> (nat \<Rightarrow> bool) \<Rightarrow> 'v \<times> nat list" where
  "retry_on_outage call wait = retry_loop call wait 0"

subsection \<open>What the loop promises\<close>

text \<open>The attempt whose value is returned: the first that ends the loop.\<close>

definition outage_at :: "(nat \<Rightarrow> 'v attempt) \<Rightarrow> nat \<Rightarrow> bool" where
  "outage_at call k = (case call k of Done v \<Rightarrow> False | Failed v f \<Rightarrow> classify f = Outage)"

lemma retry_loop_ends:
  obtains n where "fst (retry_loop call wait k) = attempt_value (call (k + n))"
    and "\<forall>i < n. outage_at call (k + i) \<and> wait (k + i)"
    and "n \<le> length OUTAGE_BACKOFF_SECS - k"
    and "\<not> outage_at call (k + n) \<or> length OUTAGE_BACKOFF_SECS \<le> k + n \<or> \<not> wait (k + n)"
    and "snd (retry_loop call wait k) = take (n + (if outage_at call (k + n) \<and> k + n < length OUTAGE_BACKOFF_SECS then 1 else 0))
      (drop k OUTAGE_BACKOFF_SECS)"
proof (induction call wait k arbitrary: thesis rule: retry_loop.induct)
  case (1 call wait k)
  show ?case
  proof (cases "outage_at call k \<and> k < length OUTAGE_BACKOFF_SECS")
    case False
    then show ?thesis
      by (intro "1.prems" [of 0])
        (auto simp: retry_loop.simps [of call wait k] outage_at_def retry_delay_def backoff_def split: attempt.splits)
  next
    case True
    then obtain v f where c: "call k = Failed v f" "classify f = Outage" by (auto simp: outage_at_def split: attempt.splits)
    then have d: "retry_delay (classify f) k = Some (OUTAGE_BACKOFF_SECS ! k)" using True by (simp add: retry_delay_def backoff_def)
    have drop: "drop k OUTAGE_BACKOFF_SECS = OUTAGE_BACKOFF_SECS ! k # drop (Suc k) OUTAGE_BACKOFF_SECS"
      using True by (simp add: Cons_nth_drop_Suc)
    show ?thesis
    proof (cases "wait k")
      case False
      then show ?thesis using True c d drop
        by (intro "1.prems" [of 0]) (simp_all add: retry_loop.simps [of call wait k])
    next
      case w: True
      show ?thesis
      proof (rule "1.IH" [OF c(1) d])
        show "\<not> \<not> wait k" using w by simp
        fix n
        assume n: "fst (retry_loop call wait (k + 1)) = attempt_value (call (k + 1 + n))"
          "\<forall>i<n. outage_at call (k + 1 + i) \<and> wait (k + 1 + i)" "n \<le> length OUTAGE_BACKOFF_SECS - (k + 1)"
          "\<not> outage_at call (k + 1 + n) \<or> length OUTAGE_BACKOFF_SECS \<le> k + 1 + n \<or> \<not> wait (k + 1 + n)"
          "snd (retry_loop call wait (k + 1)) = take (n + (if outage_at call (k + 1 + n) \<and> k + 1 + n < length OUTAGE_BACKOFF_SECS then 1 else 0))
            (drop (k + 1) OUTAGE_BACKOFF_SECS)"
        have e: "fst (retry_loop call wait k) = fst (retry_loop call wait (k + 1))"
          "snd (retry_loop call wait k) = OUTAGE_BACKOFF_SECS ! k # snd (retry_loop call wait (k + 1))"
          using c d w by (simp_all add: retry_loop.simps [of call wait k] split: prod.split)
        have "\<forall>i < Suc n. outage_at call (k + i) \<and> wait (k + i)"
          using n(2) w True by (auto simp: less_Suc_eq_0_disj)
        then show ?thesis using n e True drop by (intro "1.prems" [of "Suc n"]) auto
      qed
    qed
  qed
qed

text \<open>C36: a call is repeated only after an outage and a wait that was not broken off, at most twice, after
  two and then eight seconds; the value returned is that of the last attempt, and the loop stops early
  only at an attempt that was no outage, or when the wait was broken off.\<close>

theorem outages_are_retried:
  "\<exists>n \<le> 2. fst (retry_on_outage call wait) = attempt_value (call n) \<and>
    list_all (\<lambda>i. outage_at call i \<and> wait i) [0..<n] \<and>
    (if outage_at call n \<and> wait n then n = 2 else True) \<and>
    snd (retry_on_outage call wait) = take (if outage_at call n \<and> n < 2 then n + 1 else n) [2, 8]"
proof -
  have l: "length OUTAGE_BACKOFF_SECS = 2" by (simp add: OUTAGE_BACKOFF_SECS_def)
  obtain n where n: "fst (retry_loop call wait 0) = attempt_value (call n)" "\<forall>i < n. outage_at call i \<and> wait i" "n \<le> 2"
    "\<not> outage_at call n \<or> 2 \<le> n \<or> \<not> wait n"
    "snd (retry_loop call wait 0) = take (n + (if outage_at call n \<and> n < 2 then 1 else 0)) OUTAGE_BACKOFF_SECS"
    by (rule retry_loop_ends [of call wait 0]) (auto simp: l)
  have "if outage_at call n \<and> wait n then n = 2 else True" using n(3,4) by auto
  moreover have "list_all (\<lambda>i. outage_at call i \<and> wait i) [0..<n]" using n(2) by (simp add: list_all_iff)
  ultimately show ?thesis using n(1,3,5)
    by (intro exI [of _ n]) (simp add: retry_on_outage_def OUTAGE_BACKOFF_SECS_def)
qed

end
