(* ===== verification/Delivery.thy ===== *)
theory Delivery
  imports Rust_Str
begin

section \<open>What becomes of a message to a worker\<close>

text \<open>
  \<open>worker/delivery.rs\<close>, \<open>confirm\<close> of \<open>ralph/src/workers.rs\<close> and \<open>drain_queued\<close> of \<open>workers/headless.rs\<close>: after
  a message was sent, the chat polls until the worker takes it up; messages that wait as files for
  a headless worker are delivered, held or given up. Times are in nanoseconds, as \<open>Duration\<close> keeps
  them; what a probe finds is a function of the number of the poll.
\<close>

datatype uptake = Busy | Reported | Taken | Silent | Lost

definition uptake_settled :: "uptake \<Rightarrow> bool" where
  "uptake_settled u \<longleftrightarrow> u \<in> {Busy, Reported, Lost}"

record probe =
  pb_pane_busy :: "bool option"
  pb_entry_pending :: "bool option"
  pb_running :: bool
  pb_sent :: bool
  pb_lost :: bool

definition uptake_of :: "probe \<Rightarrow> uptake" where
  "uptake_of p =
     (if pb_lost p then Lost
      else if \<not> pb_sent p then Reported
      else if pb_pane_busy p = Some True \<or> pb_running p then Busy
      else if pb_entry_pending p = Some False then Taken
      else Silent)"

definition delivery_line :: "string \<Rightarrow> uptake \<Rightarrow> nat \<Rightarrow> string" where
  "delivery_line i u waited =
     (let secs = (waited + 500000000) div 1000000000
      in case u of
           Busy \<Rightarrow> ''Sent to worker '' @ i @ ''; busy.''
         | Reported \<Rightarrow> ''Sent to worker '' @ i @ ''; reported.''
         | Taken \<Rightarrow> ''Sent to worker '' @ i @ ''; taken, not started after '' @ dec secs @ ''s.''
         | Silent \<Rightarrow> ''Sent to worker '' @ i @ ''; no reaction after '' @ dec secs @ ''s.''
         | Lost \<Rightarrow> ''Not delivered to worker '' @ i @ '': it is not running.'')"

partial_function (option) confirm_from :: "string \<Rightarrow> (nat \<Rightarrow> probe) \<Rightarrow> (nat \<Rightarrow> nat) \<Rightarrow> nat \<Rightarrow> nat \<Rightarrow> string option" where
  "confirm_from i probe elapsed limit n =
     (let found = uptake_of (probe n); waited = elapsed n
      in if uptake_settled found \<or> limit \<le> waited then Some (delivery_line i found waited)
         else confirm_from i probe elapsed limit (n + 1))"

definition confirm :: "string \<Rightarrow> (nat \<Rightarrow> probe) \<Rightarrow> (nat \<Rightarrow> nat) \<Rightarrow> nat \<Rightarrow> string option" where
  "confirm i probe elapsed limit = confirm_from i probe elapsed limit 0"

subsection \<open>Queued messages\<close>

datatype queued_worker = Absent | Alive | Exited
datatype queued_owner = NoOwner | MyOwner | ForeignOwner

record queued_facts =
  qf_worker :: queued_worker
  qf_starting :: bool
  qf_owner :: queued_owner

datatype queued = Deliver | Hold | GiveUp

definition queued_disposition :: "queued_facts \<Rightarrow> queued" where
  "queued_disposition f =
     (if qf_worker f = Alive then Deliver
      else if qf_worker f = Exited \<or> \<not> qf_starting f \<and> qf_owner f = NoOwner then GiveUp
      else Hold)"

definition lost_marker_name :: "string \<Rightarrow> string" where
  "lost_marker_name entry = ''.'' @ entry @ ''.lost''"

text \<open>An entry has a name and a text, \<open>None\<close> when it cannot be read.\<close>

datatype drained =
    Handed string string
  | Unreadable string
  | Refused string string
  | GivenUp string

definition drain_entry ::
  "queued_facts \<Rightarrow> (string \<Rightarrow> string \<Rightarrow> string option) \<Rightarrow> string \<Rightarrow> string option \<Rightarrow> drained option" where
  "drain_entry facts refuse name content = (case queued_disposition facts of
     Hold \<Rightarrow> None
   | GiveUp \<Rightarrow> Some (GivenUp name)
   | Deliver \<Rightarrow>
       (case content of
          None \<Rightarrow> Some (Unreadable name)
        | Some s \<Rightarrow> (case refuse s name of None \<Rightarrow> Some (Handed s name) | Some e \<Rightarrow> Some (Refused name e))))"

fun drain_queued ::
  "queued_facts list \<Rightarrow> (string \<Rightarrow> string \<Rightarrow> string option) \<Rightarrow> (string \<times> string option) list \<Rightarrow>
     drained list \<times> (string \<times> string option) list" where
  "drain_queued (f # fs) refuse ((name, content) # es) =
     (case drain_queued fs refuse es of (ds, held) \<Rightarrow>
        (case drain_entry f refuse name content of
           None \<Rightarrow> (ds, (name, content) # held)
         | Some d \<Rightarrow> (d # ds, held)))"
| "drain_queued _ _ es = ([], es)"

subsection \<open>What delivery promises\<close>

lemma confirm_from_ends:
  assumes "limit \<le> elapsed (n + d)"
  shows "\<exists>k \<le> d. (uptake_settled (uptake_of (probe (n + k))) \<or> limit \<le> elapsed (n + k)) \<and>
    confirm_from i probe elapsed limit n = Some (delivery_line i (uptake_of (probe (n + k))) (elapsed (n + k)))"
  using assms
proof (induction d arbitrary: n)
  case 0
  then show ?case by (simp add: confirm_from.simps [of i probe elapsed limit n])
next
  case (Suc d)
  show ?case
  proof (cases "uptake_settled (uptake_of (probe n)) \<or> limit \<le> elapsed n")
    case True
    then show ?thesis by (intro exI [of _ 0]) (simp add: confirm_from.simps [of i probe elapsed limit n])
  next
    case False
    then have "confirm_from i probe elapsed limit n = confirm_from i probe elapsed limit (n + 1)"
      by (simp add: confirm_from.simps [of i probe elapsed limit n])
    moreover obtain k where "k \<le> d" "uptake_settled (uptake_of (probe (n + 1 + k))) \<or> limit \<le> elapsed (n + 1 + k)"
      "confirm_from i probe elapsed limit (n + 1) = Some (delivery_line i (uptake_of (probe (n + 1 + k))) (elapsed (n + 1 + k)))"
      using Suc.IH [of "n + 1"] Suc.prems by auto
    ultimately show ?thesis by (intro exI [of _ "Suc k"]) simp
  qed
qed

text \<open>The poll for the uptake of a message ends once the clock reaches its limit, with the line for what
  the last probe found: the first one that settled the question, or the first at the limit.\<close>

theorem confirm_ends:
  assumes "limit \<le> elapsed d"
  shows "\<exists>k \<le> d. confirm i probe elapsed limit = Some (delivery_line i (uptake_of (probe k)) (elapsed k)) \<and>
    (uptake_settled (uptake_of (probe k)) \<or> limit \<le> elapsed k)"
  using confirm_from_ends [of limit elapsed 0 d probe i] assms by (auto simp: confirm_def)

theorem confirm_ends_witness:
  "confirm ''w'' (\<lambda>n. \<lparr>pb_pane_busy = None, pb_entry_pending = Some False, pb_running = False, pb_sent = True, pb_lost = False\<rparr>)
     (\<lambda>n. n * 5000000000) 5000000000 = Some ''Sent to worker w; taken, not started after 5s.''"
proof -
  let ?p = "\<lambda>n::nat. \<lparr>pb_pane_busy = None, pb_entry_pending = Some False, pb_running = False, pb_sent = True, pb_lost = False\<rparr>"
  let ?t = "\<lambda>n::nat. n * 5000000000"
  have "\<exists>k \<le> 1. confirm ''w'' ?p ?t 5000000000 = Some (delivery_line ''w'' (uptake_of (?p k)) (?t k)) \<and>
      (uptake_settled (uptake_of (?p k)) \<or> 5000000000 \<le> ?t k)"
    by (rule confirm_ends) simp
  then obtain k where "k \<le> 1" "confirm ''w'' ?p ?t 5000000000 = Some (delivery_line ''w'' (uptake_of (?p k)) (?t k))"
    "uptake_settled (uptake_of (?p k)) \<or> 5000000000 \<le> ?t k" by blast
  moreover have "uptake_of (?p k) = Taken" by (simp add: uptake_of_def)
  moreover have "k = 1" using calculation by (cases k) (auto simp: uptake_settled_def)
  moreover have "dec 5 = ''5''" by code_simp
  ultimately show ?thesis by (simp add: delivery_line_def)
qed

fun drained_name :: "drained \<Rightarrow> string" where
  "drained_name (Handed s name) = name"
| "drained_name (Unreadable name) = name"
| "drained_name (Refused name e) = name"
| "drained_name (GivenUp name) = name"

text \<open>Every entry is settled once, or still there; what is handed over was an entry of a live worker.\<close>

lemma drain_queued_names:
  "length fs = length es \<Longrightarrow> drain_queued fs refuse es = (ds, held) \<Longrightarrow>
     count_list (map drained_name ds) x + count_list (map fst held) x = count_list (map fst es) x"
proof (induction fs refuse es arbitrary: ds held rule: drain_queued.induct)
  case (1 f fs refuse name content es)
  then show ?case
    by (auto simp: drain_entry_def split: prod.splits option.splits queued.splits)
qed auto

lemma drain_queued_handed:
  "drain_queued fs refuse es = (ds, held) \<Longrightarrow> Handed s name \<in> set ds \<Longrightarrow>
     (name, Some s) \<in> set es \<and> refuse s name = None \<and> (\<exists>f \<in> set fs. qf_worker f = Alive)"
proof (induction fs refuse es arbitrary: ds held rule: drain_queued.induct)
  case (1 f fs refuse name content es)
  then show ?case
    by (fastforce simp: drain_entry_def queued_disposition_def split: prod.splits option.splits queued.splits if_splits)
qed auto

end
