(* ===== verification/Stall.thy ===== *)
theory Stall
  imports Headless Machine
begin

section \<open>Workers that stopped on an error\<close>

text \<open>
  \<open>core/src/worker_stall.rs\<close> and \<open>ralph/src/chat/stall.rs\<close>: a worker whose last turn ended on an API
  error is told once to go on, and the person is alerted when it still does not report. A record on disk
  keeps that this was done. The record is not replaced atomically, so a write that fails may leave one
  that cannot be read.
\<close>

record auto_continue =
  ac_at :: nat
  ac_reason :: string
  ac_alerted :: bool

definition REASON_API_ERROR :: string where
  "REASON_API_ERROR = ''api error''"

definition CONTINUE_TEXT :: string where
  "CONTINUE_TEXT = ''Your last turn ended on an API error. Continue: start with git status, then follow the same rules as the last go-ahead.''"

definition ac_new :: "nat \<Rightarrow> string \<Rightarrow> auto_continue" where
  "ac_new at reason = \<lparr>ac_at = at, ac_reason = reason, ac_alerted = False\<rparr>"

definition with_alert :: "auto_continue \<Rightarrow> auto_continue" where
  "with_alert r = r\<lparr>ac_alerted := True\<rparr>"

definition alert_text :: "string \<Rightarrow> string option \<Rightarrow> string" where
  "alert_text i tmux_session =
     (let base = ''Worker '' @ i @ '' is still idle with no report after one auto-continue.''
      in case tmux_session of Some session \<Rightarrow> base @ '' To look: tmux attach -t '' @ session | None \<Rightarrow> base)"

record stall_facts =
  sf_activity :: "activity_mark option"
  sf_reported :: bool
  sf_record :: "auto_continue option"
  sf_sent_at :: "nat option"
  sf_now :: nat
  sf_check_secs :: nat

datatype continue_step = StampRecord | LogContinue | RemoveRecord

record record_gate =
  rg_send :: bool
  rg_warn :: bool

definition gate_send :: "bool \<Rightarrow> bool \<Rightarrow> record_gate" where
  "gate_send written warned = \<lparr>rg_send = written, rg_warn = (\<not> written \<and> \<not> warned)\<rparr>"

definition after_send :: "bool \<Rightarrow> continue_step list" where
  "after_send sent = (if sent then [StampRecord, LogContinue] else [RemoveRecord])"

datatype stall_action = NoAction | Continue | AlertPerson | ResetRecord

definition GRACE_CHECKS :: nat where
  "GRACE_CHECKS = 2"

definition grace_secs :: "nat \<Rightarrow> nat" where
  "grace_secs check_secs = min (check_secs * GRACE_CHECKS) u64_max"

definition went_unanswered :: "auto_continue \<Rightarrow> stall_facts \<Rightarrow> bool" where
  "went_unanswered r f \<longleftrightarrow> saturating_add (ac_at r) (grace_secs (sf_check_secs f)) \<le> sf_now f"

definition reported_since_go_ahead :: "nat option \<Rightarrow> nat option \<Rightarrow> bool" where
  "reported_since_go_ahead sent_at report_at = (case sent_at of
     None \<Rightarrow> True
   | Some sent \<Rightarrow> (case report_at of Some r \<Rightarrow> sent \<le> r | None \<Rightarrow> False))"

definition failed_after_go_ahead :: "activity_mark \<Rightarrow> stall_facts \<Rightarrow> bool" where
  "failed_after_go_ahead m f \<longleftrightarrow> (case sf_sent_at f of None \<Rightarrow> True | Some sent \<Rightarrow> sent \<le> am_at m)"

definition go_ahead_since :: "auto_continue \<Rightarrow> stall_facts \<Rightarrow> bool" where
  "go_ahead_since r f \<longleftrightarrow> (case sf_sent_at f of Some sent \<Rightarrow> ac_at r < sent | None \<Rightarrow> False)"

definition stall_action_of :: "stall_facts \<Rightarrow> stall_action" where
  "stall_action_of f =
     (if (case sf_record f of Some r \<Rightarrow> go_ahead_since r f | None \<Rightarrow> False) then ResetRecord
      else case sf_activity f of
        None \<Rightarrow> NoAction
      | Some m \<Rightarrow>
          if mark_busy m \<or> sf_reported f then NoAction
          else (case sf_record f of
            None \<Rightarrow> if am_state m = AFailed \<and> failed_after_go_ahead m f then Continue else NoAction
          | Some r \<Rightarrow> if \<not> ac_alerted r \<and> (ac_at r < am_at m \<or> went_unanswered r f) then AlertPerson else NoAction))"

subsection \<open>The check of one worker\<close>

text \<open>
  What a check finds on disk: the marks, the clock and the outcome of its writes. \<open>sk_again\<close> is the
  second reading before a message is sent.
\<close>

datatype write_result = Written | WriteFailed bool  \<comment> \<open>whether the file is left unreadable\<close>

record stall_check =
  sk_facts :: stall_facts
  sk_again :: stall_facts
  sk_now :: nat
  sk_record :: write_result
  sk_sent :: bool
  sk_sent_now :: nat
  sk_stamp :: write_result
  sk_alerted :: write_result
  sk_removed :: bool

record stall_state =
  st_record :: "auto_continue option"
  st_unrecorded :: bool

datatype stall_output =
    WarnUnrecorded
  | SentContinue
  | SendFailed
  | Logged
  | PostedAlert
  | Reset
  | WarnWrite
  | BrokeRecord

fun write_record :: "write_result \<Rightarrow> auto_continue \<Rightarrow> stall_state \<Rightarrow> stall_output list \<times> stall_state" where
  "write_record Written r s = ([], s\<lparr>st_record := Some r\<rparr>)"
| "write_record (WriteFailed broken) r s =
     (if broken then ([BrokeRecord], s\<lparr>st_record := None\<rparr>) else ([], s))"

definition warned_write :: "write_result \<Rightarrow> auto_continue \<Rightarrow> stall_state \<Rightarrow> stall_output list \<times> stall_state" where
  "warned_write w r s = (case write_record w r s of (o1, s1) \<Rightarrow> (o1 @ (if w = Written then [] else [WarnWrite]), s1))"

definition remove_record :: "bool \<Rightarrow> stall_state \<Rightarrow> stall_state" where
  "remove_record removed s = (if removed then s\<lparr>st_record := None\<rparr> else s)"

definition record_continue :: "stall_check \<Rightarrow> stall_state \<Rightarrow> bool \<times> stall_output list \<times> stall_state" where
  "record_continue c s =
     (let written = (sk_record c = Written);
          gate = gate_send written (st_unrecorded s);
          (broke, s') = write_record (sk_record c) (ac_new (sk_now c) REASON_API_ERROR) s
      in (rg_send gate, broke @ (if rg_warn gate then [WarnUnrecorded] else []), s'\<lparr>st_unrecorded := \<not> written\<rparr>))"

fun run_step :: "stall_check \<Rightarrow> continue_step \<Rightarrow> stall_state \<Rightarrow> stall_output list \<times> stall_state" where
  "run_step c StampRecord s = warned_write (sk_stamp c) (ac_new (sk_sent_now c) REASON_API_ERROR) s"
| "run_step c RemoveRecord s = ([], remove_record (sk_removed c) s)"
| "run_step c LogContinue s = ([Logged], s)"

fun run_steps :: "stall_check \<Rightarrow> continue_step list \<Rightarrow> stall_state \<Rightarrow> stall_output list \<times> stall_state" where
  "run_steps c [] s = ([], s)"
| "run_steps c (x # xs) s =
     (case run_step c x s of (o1, s1) \<Rightarrow> case run_steps c xs s1 of (o2, s2) \<Rightarrow> (o1 @ o2, s2))"

definition auto_continue_worker :: "stall_check \<Rightarrow> stall_state \<Rightarrow> stall_output list \<times> stall_state" where
  "auto_continue_worker c s =
     (if stall_action_of ((sk_again c)\<lparr>sf_record := st_record s\<rparr>) \<noteq> Continue then ([], s)
      else case record_continue c s of
        (False, o1, s1) \<Rightarrow> (o1, s1)
      | (True, o1, s1) \<Rightarrow>
          (case run_steps c (after_send (sk_sent c)) s1 of (o2, s2) \<Rightarrow>
             (o1 @ (if sk_sent c then [SentContinue] else [SendFailed]) @ o2, s2)))"

definition alert_stalled :: "stall_check \<Rightarrow> auto_continue option \<Rightarrow> stall_state \<Rightarrow> stall_output list \<times> stall_state" where
  "alert_stalled c r s = (case r of
     None \<Rightarrow> ([PostedAlert], s)
   | Some x \<Rightarrow> (case warned_write (sk_alerted c) (with_alert x) s of (o1, s1) \<Rightarrow> (PostedAlert # o1, s1)))"

definition stall_step :: "stall_check \<Rightarrow> stall_state \<Rightarrow> stall_output list \<times> stall_state" where
  "stall_step c s =
     (let found = (sk_facts c)\<lparr>sf_record := st_record s\<rparr>
      in if sf_reported found \<and> sf_record found \<noteq> None then ([Reset], remove_record (sk_removed c) s)
         else case stall_action_of found of
           NoAction \<Rightarrow> ([], s)
         | Continue \<Rightarrow> auto_continue_worker c s
         | ResetRecord \<Rightarrow> ([Reset], remove_record (sk_removed c) s)
         | AlertPerson \<Rightarrow> alert_stalled c (sf_record found) s)"

subsection \<open>What the checks promise\<close>

lemma continue_needs_no_record: "stall_action_of f = Continue \<Longrightarrow> sf_record f = None \<and> \<not> sf_reported f"
  by (auto simp: stall_action_of_def split: option.splits if_splits)

lemma alert_needs_record:
  "stall_action_of f = AlertPerson \<Longrightarrow> (\<exists>r. sf_record f = Some r \<and> \<not> ac_alerted r \<and> \<not> go_ahead_since r f) \<and> \<not> sf_reported f"
  by (auto simp: stall_action_of_def split: option.splits if_splits)

text \<open>Messages to go on: each is paid for by a record that is taken away, or by there being none.\<close>

fun sent_count :: "stall_output \<Rightarrow> nat" where
  "sent_count SentContinue = 1"
| "sent_count _ = 0"

fun frees :: "stall_output \<Rightarrow> nat" where
  "frees Reset = 1"
| "frees BrokeRecord = 1"
| "frees _ = 0"

definition room :: "stall_state \<Rightarrow> nat" where
  "room s = (if st_record s = None then 1 else 0)"

text \<open>Alerts: each is paid for by a record that was made, or by one that could not be marked.\<close>

fun alert_count :: "stall_output \<Rightarrow> nat" where
  "alert_count PostedAlert = 1"
| "alert_count _ = 0"

fun records :: "stall_output \<Rightarrow> nat" where
  "records SentContinue = 1"
| "records SendFailed = 1"
| "records WarnWrite = 1"
| "records _ = 0"

definition unalerted :: "stall_state \<Rightarrow> nat" where
  "unalerted s = (case st_record s of Some r \<Rightarrow> if ac_alerted r then 0 else 1 | None \<Rightarrow> 0)"

lemmas stall_defs = stall_step_def auto_continue_worker_def record_continue_def alert_stalled_def warned_write_def
  remove_record_def gate_send_def after_send_def ac_new_def with_alert_def room_def unalerted_def Let_def

lemma write_record_cases [consumes 1, case_names written kept broken]:
  assumes "write_record w r s = (outs, s')"
  obtains "w = Written" "outs = []" "s' = s\<lparr>st_record := Some r\<rparr>"
  | "w = WriteFailed False" "outs = []" "s' = s"
  | "w = WriteFailed True" "outs = [BrokeRecord]" "s' = s\<lparr>st_record := None\<rparr>"
  using assms by (cases w) (auto split: if_splits)

lemma auto_continue_step:
  assumes "auto_continue_worker c s = (outs, s')"
  shows "sum_list (map sent_count outs) + room s' \<le> room s + sum_list (map frees outs) \<and>
    sum_list (map alert_count outs) + unalerted s' \<le> unalerted s + sum_list (map records outs)"
proof (cases "stall_action_of ((sk_again c)\<lparr>sf_record := st_record s\<rparr>) = Continue")
  case True
  then have n: "st_record s = None" using continue_needs_no_record by fastforce
  show ?thesis
    by (cases "sk_record c"; cases "sk_stamp c"; cases "sk_sent c")
      (use assms True n in \<open>auto simp: stall_defs split: if_splits\<close>)
qed (use assms in \<open>simp add: auto_continue_worker_def\<close>)

lemma alert_stalled_step:
  assumes "alert_stalled c (Some r) s = (outs, s')" and "st_record s = Some r" and "\<not> ac_alerted r"
  shows "sum_list (map sent_count outs) + room s' \<le> room s + sum_list (map frees outs) \<and>
    sum_list (map alert_count outs) + unalerted s' \<le> unalerted s + sum_list (map records outs)"
  by (cases "sk_alerted c") (use assms in \<open>auto simp: stall_defs split: if_splits\<close>)

lemma stall_step_counts:
  "sum_list (map sent_count (fst (stall_step c s))) + room (snd (stall_step c s)) \<le>
     room s + sum_list (map frees (fst (stall_step c s))) \<and>
   sum_list (map alert_count (fst (stall_step c s))) + unalerted (snd (stall_step c s)) \<le>
     unalerted s + sum_list (map records (fst (stall_step c s)))"
proof -
  define found where "found = (sk_facts c)\<lparr>sf_record := st_record s\<rparr>"
  have r: "sum_list (map sent_count [Reset]) + room (remove_record b s) \<le> room s + sum_list (map frees [Reset]) \<and>
      sum_list (map alert_count [Reset]) + unalerted (remove_record b s) \<le> unalerted s + sum_list (map records [Reset])" for b
    by (simp add: stall_defs)
  show ?thesis
  proof (cases "sf_reported found \<and> sf_record found \<noteq> None")
    case True
    then show ?thesis using r by (simp add: stall_step_def found_def [symmetric])
  next
    case False
    show ?thesis
    proof (cases "stall_action_of found")
      case NoAction
      then show ?thesis using False by (auto simp: stall_step_def found_def [symmetric])
    next
      case Continue
      then have "stall_step c s = auto_continue_worker c s" using False by (auto simp: stall_step_def found_def [symmetric])
      then show ?thesis using auto_continue_step [of c s] by (metis prod.collapse)
    next
      case AlertPerson
      then obtain x where "st_record s = Some x" "\<not> ac_alerted x" "stall_step c s = alert_stalled c (Some x) s"
        using False alert_needs_record [of found] by (auto simp: stall_step_def found_def)
      then show ?thesis using alert_stalled_step [of c x s] by (metis prod.collapse)
    next
      case ResetRecord
      then have "stall_step c s = ([Reset], remove_record (sk_removed c) s)" using False
        by (auto simp: stall_step_def found_def [symmetric])
      then show ?thesis using r by simp
    qed
  qed
qed

interpretation continues: paid_outputs stall_step "\<lambda>s. True" "\<lambda>c s. True" sent_count frees room
  by unfold_locales (simp_all add: stall_step_counts)

interpretation alerts: paid_outputs stall_step "\<lambda>s. True" "\<lambda>c s. True" alert_count records unalerted
  by unfold_locales (simp_all add: stall_step_counts)

text \<open>A record is taken away only by a report or by a later go-ahead, or when it cannot be read.\<close>

lemma reset_needs_go_ahead:
  assumes "Reset \<in> set (fst (stall_step c s))"
  shows "\<exists>r. st_record s = Some r \<and> (sf_reported (sk_facts c) \<or> go_ahead_since r ((sk_facts c)\<lparr>sf_record := st_record s\<rparr>))"
proof -
  define found where "found = (sk_facts c)\<lparr>sf_record := st_record s\<rparr>"
  have "Reset \<notin> set (fst (auto_continue_worker c s))"
    by (cases "sk_record c"; cases "sk_stamp c"; cases "sk_sent c") (auto simp: stall_defs split: if_splits)
  moreover have "Reset \<notin> set (fst (alert_stalled c x s))" for x
    by (cases x; cases "sk_alerted c") (auto simp: stall_defs split: if_splits)
  ultimately have "sf_reported found \<and> sf_record found \<noteq> None \<or> stall_action_of found = ResetRecord"
    using assms by (auto simp: stall_step_def found_def [symmetric] split: stall_action.splits if_splits)
  then show ?thesis by (auto simp: found_def stall_action_of_def split: option.splits if_splits)
qed


end
