(* ===== verification/Upgrade.thy ===== *)
theory Upgrade
  imports Worker_Report "HOL-Library.Word"
begin

section \<open>Upgrades of the program\<close>

text \<open>
  \<open>core/src/semver.rs\<close>, \<open>core/src/upgrade.rs\<close> and \<open>ralph/src/upgrade.rs\<close>: versions, the releases that
  GitHub lists, what is to be done about them, the check of a download and the replacement of the program.
  The requests, SHA-256, gzip and tar are parameters.
\<close>

subsection \<open>Versions\<close>

datatype version = Version (major: "64 word") (minor: "64 word") (patch: "64 word")

instantiation version :: linorder
begin

fun less_eq_version :: "version \<Rightarrow> version \<Rightarrow> bool" where
  "less_eq_version (Version a b c) (Version a' b' c') \<longleftrightarrow> a < a' \<or> a = a' \<and> (b < b' \<or> b = b' \<and> c \<le> c')"

fun less_version :: "version \<Rightarrow> version \<Rightarrow> bool" where
  "less_version (Version a b c) (Version a' b' c') \<longleftrightarrow> a < a' \<or> a = a' \<and> (b < b' \<or> b = b' \<and> c < c')"

instance
proof
  fix x y z :: version
  show "x < y \<longleftrightarrow> x \<le> y \<and> \<not> y \<le> x" by (cases x; cases y) auto
  show "x \<le> x" by (cases x) simp
  show "x \<le> y \<Longrightarrow> y \<le> z \<Longrightarrow> x \<le> z" by (cases x; cases y; cases z) auto
  show "x \<le> y \<Longrightarrow> y \<le> x \<Longrightarrow> x = y" by (cases x; cases y) auto
  show "x \<le> y \<or> y \<le> x" by (cases x; cases y) auto
qed

end

text \<open>\<open>patch + 1\<close> wraps in a release build.\<close>

definition bump_patch :: "version \<Rightarrow> version" where
  "bump_patch v = Version (major v) (minor v) (patch v + 1)"

definition version_text :: "version \<Rightarrow> string" where
  "version_text v = dec (unat (major v)) @ ''.'' @ dec (unat (minor v)) @ ''.'' @ dec (unat (patch v))"

definition version_error :: "string \<Rightarrow> string" where
  "version_error s = ''invalid version '' @ [CHR 0x27] @ s @ [CHR 0x27] @ '': expected x.y.z''"

definition parse_component :: "string \<Rightarrow> 64 word option" where
  "parse_component part =
     (if all_digits part \<and> (part = ''0'' \<or> \<not> starts_with ''0'' part)
      then map_option word_of_nat (parse_uint u64_max part) else None)"

definition version_parse :: "string \<Rightarrow> version result" where
  "version_parse s = (case split_on (CHR ''.'') s of
     [a, b, c] \<Rightarrow>
       (case (parse_component a, parse_component b, parse_component c) of
          (Some x, Some y, Some z) \<Rightarrow> Inr (Version x y z)
        | _ \<Rightarrow> Inl (version_error s))
   | _ \<Rightarrow> Inl (version_error s))"

subsection \<open>Releases\<close>

record installed =
  in_version :: version
  in_dev :: bool

definition installed_parse :: "string \<Rightarrow> installed result" where
  "installed_parse display =
     (let (base, suffix) = (case split_once (CHR ''-'') display of Some (b, s) \<Rightarrow> (b, Some s) | None \<Rightarrow> (display, None));
          dev = (case suffix of
            None \<Rightarrow> Some False
          | Some s \<Rightarrow> if s = ''dev'' \<or> starts_with ''dev+'' s then Some True else None)
      in case dev of
           None \<Rightarrow> Inl (''unknown ralph version '' @ [CHR 0x27] @ display @ [CHR 0x27])
         | Some d \<Rightarrow> (case version_parse base of Inl e \<Rightarrow> Inl e | Inr v \<Rightarrow> Inr \<lparr>in_version = v, in_dev = d\<rparr>))"

definition is_older_than :: "installed \<Rightarrow> version \<Rightarrow> bool" where
  "is_older_than i release \<longleftrightarrow> in_version i < release \<or> in_dev i \<and> release = in_version i"

record asset =
  as_name :: string
  as_url :: string

record release =
  re_version :: version
  re_tag :: string
  re_notes :: string
  re_assets :: "asset list"

record raw_release =
  rw_tag :: string
  rw_body :: "string option"
  rw_draft :: bool
  rw_prerelease :: bool
  rw_assets :: "asset list"

definition release_of :: "raw_release \<Rightarrow> release option" where
  "release_of r =
     (if rw_draft r \<or> rw_prerelease r then None
      else case strip_prefix ''v'' (rw_tag r) of
        None \<Rightarrow> None
      | Some s \<Rightarrow> (case version_parse s of
          Inl e \<Rightarrow> None
        | Inr v \<Rightarrow> Some \<lparr>re_version = v, re_tag = rw_tag r,
            re_notes = (case rw_body r of Some b \<Rightarrow> b | None \<Rightarrow> []), re_assets = rw_assets r\<rparr>))"

text \<open>The stable sort by the newest version: of equal versions the one listed first stays first.\<close>

fun insert_release :: "release \<Rightarrow> release list \<Rightarrow> release list" where
  "insert_release r [] = [r]"
| "insert_release r (q # qs) = (if re_version q \<le> re_version r then r # q # qs else q # insert_release r qs)"

definition sort_releases :: "release list \<Rightarrow> release list" where
  "sort_releases rs = foldr insert_release rs []"

definition parse_releases :: "raw_release list \<Rightarrow> release list" where
  "parse_releases raw = sort_releases (List.map_filter release_of raw)"

datatype upgrade_decision = UpToDate | RefuseDev | Install bool

definition upgrade_decide :: "installed \<Rightarrow> version \<Rightarrow> bool \<Rightarrow> upgrade_decision" where
  "upgrade_decide i latest force =
     (let newer = is_older_than i latest
      in if in_dev i then (if force then Install (\<not> newer) else RefuseDev)
         else if newer then Install False else UpToDate)"

definition skipped_notes :: "installed \<Rightarrow> release list \<Rightarrow> string" where
  "skipped_notes i rs = join (newline @ newline)
     (map (\<lambda>r. ''## '' @ re_tag r @ newline @ newline @ (if trim (re_notes r) = [] then ''(no notes)'' else trim (re_notes r)))
       (filter (\<lambda>r. is_older_than i (re_version r)) rs))"

definition target_triple :: "string \<Rightarrow> string \<Rightarrow> string \<Rightarrow> string result" where
  "target_triple arch os env =
     (if arch \<in> {''aarch64'', ''x86_64''} \<and> os = ''linux'' \<and> env = ''musl''
      then Inl (''no musl release is published for '' @ arch @ ''-unknown-linux-musl; build ralph from source'')
      else if arch = ''aarch64'' \<and> os = ''macos'' then Inr ''aarch64-apple-darwin''
      else if arch = ''x86_64'' \<and> os = ''macos'' then Inr ''x86_64-apple-darwin''
      else if arch = ''aarch64'' \<and> os = ''linux'' then Inr ''aarch64-unknown-linux-gnu''
      else if arch = ''x86_64'' \<and> os = ''linux'' then Inr ''x86_64-unknown-linux-gnu''
      else Inl (''no ralph release is built for '' @ arch @ '' '' @ os))"

subsection \<open>The download\<close>

record download =
  do_archive :: asset
  do_checksum :: asset

definition find_asset :: "release \<Rightarrow> string \<Rightarrow> asset result" where
  "find_asset r name = (case find (\<lambda>a. as_name a = name) (re_assets r) of
     Some a \<Rightarrow> Inr a | None \<Rightarrow> Inl (re_tag r @ '' has no '' @ name))"

definition pick_download :: "release \<Rightarrow> string \<Rightarrow> download result" where
  "pick_download r triple =
     (let name = ''ralph-'' @ re_tag r @ ''-'' @ triple @ ''.tar.gz''
      in case find_asset r name of
           Inl e \<Rightarrow> Inl e
         | Inr a \<Rightarrow> (case find_asset r (name @ ''.sha256'') of
             Inl e \<Rightarrow> Inl e
           | Inr c \<Rightarrow> Inr \<lparr>do_archive = a, do_checksum = c\<rparr>))"

definition lower_hex_digit :: "nat \<Rightarrow> char" where
  "lower_hex_digit n = (if n < 10 then char_of (48 + n) else char_of (87 + n))"

definition is_hexdigit :: "char \<Rightarrow> bool" where
  "is_hexdigit c =
     (is_digit c \<or> (let n = (of_char c :: nat) in 65 \<le> n \<and> n \<le> 70 \<or> 97 \<le> n \<and> n \<le> 102))"

definition hex_bytes :: "nat list \<Rightarrow> string" where
  "hex_bytes bs = concat (map (\<lambda>b. [lower_hex_digit (b div 16), lower_hex_digit (b mod 16)]) bs)"

definition verify_checksum :: "(string \<Rightarrow> nat list) \<Rightarrow> string \<Rightarrow> string \<Rightarrow> string \<Rightarrow> unit result" where
  "verify_checksum sha256 text archive_name archive =
     (case split_whitespace text of
        [expected, l] \<Rightarrow>
          if length expected \<noteq> 64 \<or> \<not> list_all is_hexdigit expected
          then Inl (''malformed checksum file for '' @ archive_name)
          else
            let listed = dropWhile (\<lambda>c. c = CHR ''*'') l; actual = hex_bytes (sha256 archive)
            in if listed \<noteq> archive_name
               then Inl (''checksum file names '' @ listed @ '', expected '' @ archive_name)
               else if map ascii_lower actual = map ascii_lower expected then Inr ()
               else Inl (''checksum mismatch for '' @ archive_name @ '': expected '' @ expected @ '', got '' @ actual)
      | _ \<Rightarrow> Inl (''malformed checksum file for '' @ archive_name))"

text \<open>What tar finds in the unpacked archive: the listing fails as a whole, or each entry may.\<close>

record tar_entry =
  te_is_file :: bool
  te_path :: string
  te_content :: "string result"

definition unreadable :: "string \<Rightarrow> string" where
  "unreadable e = ''cannot read release archive: '' @ e"

fun extract_from :: "string option \<Rightarrow> tar_entry result list \<Rightarrow> string result" where
  "extract_from binary [] = (case binary of Some b \<Rightarrow> Inr b | None \<Rightarrow> Inl ''release archive has no ralph binary'')"
| "extract_from binary (Inl e # es) = Inl (unreadable e)"
| "extract_from binary (Inr t # es) =
     (if \<not> (te_is_file t \<and> te_path t = ''ralph'') then extract_from binary es
      else if binary \<noteq> None then Inl ''release archive has more than one ralph binary''
      else case te_content t of
        Inl e \<Rightarrow> Inl (unreadable e)
      | Inr b \<Rightarrow> extract_from (Some b) es)"

definition extract_binary :: "(string \<Rightarrow> tar_entry result list result) \<Rightarrow> string \<Rightarrow> string result" where
  "extract_binary untar archive = (case untar archive of Inl e \<Rightarrow> Inl (unreadable e) | Inr es \<Rightarrow> extract_from None es)"

subsection \<open>The command\<close>

text \<open>
  The program on disk is its bytes. Finding its directory and creating a file there (\<open>ue_stage\<close>), and
  writing, synchronising and renaming that file (\<open>ue_persist\<close>) can fail; the rename comes last.
\<close>

record upgrade_env =
  ue_current :: string
  ue_path :: string
  ue_releases :: "raw_release list result"
  ue_fetch :: "string \<Rightarrow> string result"
  ue_sha256 :: "string \<Rightarrow> nat list"
  ue_untar :: "string \<Rightarrow> tar_entry result list result"
  ue_arch :: string
  ue_os :: string
  ue_env :: string
  ue_stage :: "unit result"
  ue_persist :: "unit result"

definition bind :: "'a result \<Rightarrow> ('a \<Rightarrow> 'b result) \<Rightarrow> 'b result" where
  "bind r f = (case r of Inl e \<Rightarrow> Inl e | Inr x \<Rightarrow> f x)"

definition install :: "upgrade_env \<Rightarrow> release \<Rightarrow> string result" where
  "install env r =
     bind (target_triple (ue_arch env) (ue_os env) (ue_env env)) (\<lambda>triple.
     bind (pick_download r triple) (\<lambda>d.
     bind (ue_stage env) (\<lambda>_.
     bind (ue_fetch env (as_url (do_archive d))) (\<lambda>archive.
     bind (ue_fetch env (as_url (do_checksum d))) (\<lambda>checksum.
     bind (verify_checksum (ue_sha256 env) checksum (as_name (do_archive d)) archive) (\<lambda>_.
     bind (extract_binary (ue_untar env) archive) (\<lambda>binary.
     bind (ue_persist env) (\<lambda>_. Inr binary))))))))"

fun check_summary :: "upgrade_decision \<Rightarrow> string" where
  "check_summary UpToDate = ''Up to date.''"
| "check_summary RefuseDev = ''Dev build: `ralph upgrade` refuses without --force.''"
| "check_summary (Install True) = ''`ralph upgrade` would replace this dev build with an older release.''"
| "check_summary (Install False) = ''Upgrade available: run `ralph upgrade`.''"

definition RESTART_NOTE :: string where
  "RESTART_NOTE = ''Running ralph chats and workers keep the old build until they restart.''"

definition shown_notes :: "string \<Rightarrow> upgrade_decision \<Rightarrow> string list" where
  "shown_notes notes d =
     (case d of Install b \<Rightarrow> if notes \<noteq> [] then [newline @ notes @ newline] else [] | _ \<Rightarrow> [])"

definition run_upgrade :: "upgrade_env \<Rightarrow> bool \<Rightarrow> bool \<Rightarrow> string \<Rightarrow> string list result \<times> string" where
  "run_upgrade env check force exe =
     (case installed_parse (ue_current env) of
        Inl e \<Rightarrow> (Inl e, exe)
      | Inr i \<Rightarrow>
          (case ue_releases env of
             Inl e \<Rightarrow> (Inl e, exe)
           | Inr raw \<Rightarrow>
               (case parse_releases raw of
                  [] \<Rightarrow> (Inr [''No published ralph release found.''], exe)
                | latest # rest \<Rightarrow>
                    let d = upgrade_decide i (re_version latest) force;
                        notes = skipped_notes i (latest # rest)
                    in if check
                       then (Inr ([''ralph '' @ ue_current env @ '' installed; latest release is '' @ re_tag latest @ ''.'',
                               check_summary d] @ shown_notes notes d), exe)
                       else (case d of
                         UpToDate \<Rightarrow> (Inr [''ralph '' @ ue_current env @ '' is up to date (latest release '' @ re_tag latest @ '').''], exe)
                       | RefuseDev \<Rightarrow>
                           (Inl (''ralph '' @ ue_current env @ '' is a dev build; refusing to replace it with release ''
                              @ re_tag latest @ ''. Run `ralph upgrade --force` to replace it anyway.''), exe)
                       | Install downgrade \<Rightarrow>
                           (case install env latest of
                              Inl e \<Rightarrow> (Inl e, exe)
                            | Inr binary \<Rightarrow>
                                (Inr (shown_notes notes d @
                                   [(if downgrade then ''Replaced dev build'' else ''Upgraded'') @ '' ralph '' @ ue_current env
                                      @ '' with '' @ re_tag latest @ '' at '' @ ue_path env @ ''.'', RESTART_NOTE]), binary))))))"

subsection \<open>Versions read back\<close>

lemma dec_0: "dec 0 = ''0''"
  by code_simp

lemma digit_val_0: "digit_val (CHR ''0'') = 0"
  by code_simp

lemma dec_digits_val: "all_digits s \<Longrightarrow> s = ''0'' \<or> \<not> starts_with ''0'' s \<Longrightarrow> dec (digits_val s) = s"
proof (induction s rule: rev_induct)
  case Nil
  then show ?case by (simp add: all_digits_def)
next
  case (snoc c s)
  have c: "is_digit c" "digit_char (digit_val c) = c" "digit_val c < 10"
    using snoc(2) by (auto simp: all_digits_def is_digit_def digit_char_def digit_val_def)
  show ?case
  proof (cases "s = []")
    case True
    then show ?thesis using c by (simp add: digits_val_def dec.simps)
  next
    case False
    then have s: "all_digits s" "\<not> starts_with ''0'' s" "s \<noteq> ''0''"
      using snoc(2,3) by (auto simp: all_digits_def starts_with_def neq_Nil_conv)
    then have d: "dec (digits_val s) = s" using snoc(1) by blast
    then have "digits_val s \<noteq> 0" using s(3) dec_0 by metis
    then show ?thesis using c d by (simp add: digits_val_snoc dec.simps [of "10 * digits_val s + digit_val c"])
  qed
qed

lemma dec_no_leading_zero: "dec n = ''0'' \<or> \<not> starts_with ''0'' (dec n)"
proof (cases "n = 0")
  case False
  then show ?thesis
  proof (induction n rule: less_induct)
    case (less n)
    show ?case
    proof (cases "n < 10")
      case True
      then have "digit_char n \<noteq> CHR ''0''" using less(2) digit_val_digit_char [of n] digit_val_0 by fastforce
      then show ?thesis using True by (simp add: dec.simps [of n] starts_with_def)
    next
      case False
      then have e: "dec n = dec (n div 10) @ [digit_char (n mod 10)]" by (simp add: dec.simps [of n])
      have "n div 10 \<noteq> 0" "n div 10 < n" using False by auto
      then have "\<not> starts_with ''0'' (dec (n div 10))" using less(1) [of "n div 10"] dec_0 dec_inject by metis
      then show ?thesis by (cases "dec (n div 10)") (auto simp: e starts_with_def)
    qed
  qed
qed (simp add: dec_0)

lemma parse_component_iff: "parse_component s = Some w \<longleftrightarrow> s = dec (unat w)"
proof
  assume p: "parse_component s = Some w"
  then have d: "all_digits s" "s = ''0'' \<or> \<not> starts_with ''0'' s" by (auto simp: parse_component_def split: if_splits)
  then obtain n where n: "parse_uint u64_max s = Some n" "w = word_of_nat n" using p by (auto simp: parse_component_def)
  have "CHR ''+'' \<notin> set s" using d(1) by (auto simp: all_digits_def list_all_iff is_digit_def)
  then have "n = digits_val s" "n \<le> u64_max" using n(1) by (auto simp: parse_uint_def Let_def split: list.splits if_splits)
  then have "unat w = digits_val s" using n(2) by (simp add: unat_of_nat u64_max_def take_bit_nat_def)
  then show "s = dec (unat w)" using dec_digits_val [OF d] by simp
next
  assume s: "s = dec (unat w)"
  have "unat w < 2 ^ LENGTH(64)" by (rule unsigned_less)
  then have "unat w \<le> u64_max" by (simp add: u64_max_def)
  then show "parse_component s = Some w" using s dec_no_leading_zero [of "unat w"] by (simp add: parse_component_def)
qed

lemma split_on_absent: "c \<notin> set s \<Longrightarrow> split_on c s = [s]"
  by (induction s) auto

lemma split_on_first: "c \<notin> set a \<Longrightarrow> split_on c (a @ c # s) = a # split_on c s"
  by (induction a) auto

lemma dot_notin_dec: "CHR ''.'' \<notin> set (dec n)"
  by (rule not_digit_notin_dec) (simp add: is_digit_def)

text \<open>C34: exactly the text that a version prints as is read as this version: three numbers of 64 bits without
  sign or leading zeros.\<close>

theorem version_roundtrip: "version_parse s = Inr v \<longleftrightarrow> s = version_text v"
proof
  assume "version_parse s = Inr v"
  then obtain a b c x y z where p: "split_on (CHR ''.'') s = [a, b, c]" "parse_component a = Some x"
    "parse_component b = Some y" "parse_component c = Some z" "v = Version x y z"
    by (auto simp: version_parse_def split: list.splits option.splits)
  have "s = join [CHR ''.''] [a, b, c]" using p(1) join_split_on [of "CHR ''.''" s] by simp
  then show "s = version_text v" using p(2-5) by (simp add: version_text_def parse_component_iff)
next
  assume "s = version_text v"
  then show "version_parse s = Inr v"
    by (cases v) (simp add: version_parse_def version_text_def split_on_first split_on_absent dot_notin_dec
        parse_component_iff [THEN iffD2, OF refl])
qed

subsection \<open>What an upgrade replaces\<close>

lemma set_insert_release: "set (insert_release r qs) = insert r (set qs)"
  by (induction qs) auto

lemma insert_release_sorted:
  "sorted_wrt (\<lambda>r q. re_version q \<le> re_version r) qs \<Longrightarrow> sorted_wrt (\<lambda>r q. re_version q \<le> re_version r) (insert_release x qs)"
  by (induction qs) (auto simp: set_insert_release dest: order_trans)

lemma parse_releases_sorted: "sorted_wrt (\<lambda>r q. re_version q \<le> re_version r) (parse_releases raw)"
proof -
  have "sorted_wrt (\<lambda>r q. re_version q \<le> re_version r) (foldr insert_release rs [])" for rs
    by (induction rs) (simp_all add: insert_release_sorted)
  then show ?thesis by (simp add: parse_releases_def sort_releases_def)
qed

lemma bind_Inr: "bind r f = Inr y \<longleftrightarrow> (\<exists>x. r = Inr x \<and> f x = Inr y)"
  by (auto simp: bind_def split: sum.splits)

lemma verify_checksum_Inr:
  "verify_checksum sha256 text name archive = Inr () \<Longrightarrow>
     \<exists>expected listed. split_whitespace text = [expected, listed] \<and> dropWhile (\<lambda>c. c = CHR ''*'') listed = name \<and>
       map ascii_lower (hex_bytes (sha256 archive)) = map ascii_lower expected"
  by (auto simp: verify_checksum_def Let_def split: list.splits if_splits)

lemma extract_from_Inr:
  "extract_from binary es = Inr b \<Longrightarrow>
     concat (map (\<lambda>e. case e of Inl x \<Rightarrow> [] | Inr t \<Rightarrow> if te_is_file t \<and> te_path t = ''ralph'' then [te_content t] else []) es) =
       (if binary = None then [Inr b] else []) \<and> (binary = None \<or> binary = Some b)"
  by (induction binary es rule: extract_from.induct) (auto split: option.splits sum.splits if_splits)

definition checked_binary :: "upgrade_env \<Rightarrow> release \<Rightarrow> string \<Rightarrow> bool" where
  "checked_binary env r binary \<longleftrightarrow>
     (\<exists>(d :: download) archive text expected listed es.
        find (\<lambda>a. as_name a = as_name (do_archive d)) (re_assets r) = Some (do_archive d) \<and>
        ue_fetch env (as_url (do_archive d)) = Inr archive \<and> ue_fetch env (as_url (do_checksum d)) = Inr text \<and>
        split_whitespace text = [expected, listed] \<and> dropWhile (\<lambda>c. c = CHR ''*'') listed = as_name (do_archive d) \<and>
        map ascii_lower (hex_bytes (ue_sha256 env archive)) = map ascii_lower expected \<and>
        ue_untar env archive = Inr es \<and>
        concat (map (\<lambda>e. case e of Inl x \<Rightarrow> [] | Inr t \<Rightarrow> if te_is_file t \<and> te_path t = ''ralph'' then [te_content t] else []) es) = [Inr binary])"

lemma install_checked:
  assumes "install env r = Inr binary"
  shows "checked_binary env r binary"
proof -
  obtain triple d archive sums where i: "pick_download r triple = Inr d" "ue_fetch env (as_url (do_archive d)) = Inr archive"
    "ue_fetch env (as_url (do_checksum d)) = Inr sums" "verify_checksum (ue_sha256 env) sums (as_name (do_archive d)) archive = Inr ()"
    "extract_binary (ue_untar env) archive = Inr binary"
    using assms by (auto simp: install_def bind_Inr)
  obtain es where es: "ue_untar env archive = Inr es" "extract_from None es = Inr binary"
    using i(5) by (auto simp: extract_binary_def split: sum.splits)
  obtain n where n: "find (\<lambda>a. as_name a = n) (re_assets r) = Some (do_archive d)"
    using i(1) by (auto simp: pick_download_def find_asset_def Let_def split: sum.splits option.splits)
  then have "as_name (do_archive d) = n" by (auto simp: find_Some_iff)
  then have "find (\<lambda>a. as_name a = as_name (do_archive d)) (re_assets r) = Some (do_archive d)" using n by simp
  then show ?thesis
    unfolding checked_binary_def using i(2,3) verify_checksum_Inr [OF i(4)] es(1) extract_from_Inr [OF es(2)] by fastforce
qed


end
