(* ===== verification/Monitor.thy ===== *)
theory Monitor
  imports Headless Machine Memory_Lines
begin

section \<open>The checks on running workers\<close>

text \<open>
  \<open>core/src/worker_check.rs\<close>, \<open>worker/startup.rs\<close>, \<open>ralph/src/chat/check.rs\<close> and \<open>check\<close> of
  \<open>chat/monitor.rs\<close>: every few seconds the chat looks at the marks and the terminal of each worker,
  decides what state it is in, asks a worker that stopped without a report once to report, and
  posts what the person has to know. What is on disk and on the terminals is a parameter of a check.
\<close>

subsection \<open>What a terminal shows\<close>

definition TRUST_ANSWER :: string where
  "TRUST_ANSWER = ''Yes, I trust this folder''"

datatype startup = StartingUp | TrustPrompt | StartedUp

definition startup_state :: "string \<Rightarrow> bool \<Rightarrow> startup" where
  "startup_state pane ready =
     (if ready then StartedUp else if contains TRUST_ANSWER pane then TrustPrompt else StartingUp)"

definition prompt_arrow :: string where
  "prompt_arrow = of_bytes [0xE2, 0x9D, 0xAF]"

definition trust_key :: "string \<Rightarrow> string option \<Rightarrow> string option" where
  "trust_key pane previous =
     (if previous \<noteq> Some pane \<or> \<not> contains TRUST_ANSWER pane then None
      else case find (\<lambda>l. starts_with prompt_arrow (trim_start l)) (lines pane) of
        None \<Rightarrow> None
      | Some selected \<Rightarrow>
          if contains ''No, exit'' selected then Some ''Down''
          else if contains TRUST_ANSWER selected then Some ''Enter''
          else None)"

text \<open>\<open>split\<close> on a non-empty text: left to right, matches do not overlap.\<close>

function split_str :: "string \<Rightarrow> string \<Rightarrow> string \<Rightarrow> string list" where
  "split_str p acc [] = [acc]"
| "split_str p acc (c # cs) =
     (if p \<noteq> [] \<and> starts_with p (c # cs) then acc # split_str p [] (drop (length p) (c # cs))
      else split_str p (acc @ [c]) cs)"
  by pat_completeness auto
termination
  by (relation "measure (\<lambda>(p, acc, s). length s)") (auto simp: less_Suc_eq_le neq_Nil_conv)

definition rule_char :: string where
  "rule_char = of_bytes [0xE2, 0x94, 0x80]"

definition agents_arrow :: string where
  "agents_arrow = of_bytes [0xE2, 0x86, 0x90, 0x20]"

definition pane_footer :: "string \<Rightarrow> string" where
  "pane_footer pane =
     (let ls = lines pane
      in case rposition (starts_with rule_char) ls of
           Some rule \<Rightarrow> join newline (drop (rule + 1) ls)
         | None \<Rightarrow> (case find (\<lambda>l. trim l \<noteq> []) (rev ls) of Some l \<Rightarrow> l | None \<Rightarrow> []))"

definition counts_running_agents :: "string \<Rightarrow> bool" where
  "counts_running_agents footer \<longleftrightarrow>
     list_ex (\<lambda>rest.
       let digits = takeWhile is_digit rest
       in (case parse_uint u64_max digits of Some n \<Rightarrow> 1 \<le> n | None \<Rightarrow> False) \<and>
          starts_with '' agent'' (drop (length digits) rest))
     (drop 1 (split_str agents_arrow [] footer))"

definition pane_busy :: "string \<Rightarrow> bool" where
  "pane_busy pane \<longleftrightarrow> contains ''esc to interrupt'' (pane_footer pane) \<or> counts_running_agents (pane_footer pane)"

subsection \<open>The state of a worker\<close>

definition CHECK_STATUS :: string where
  "CHECK_STATUS = ''check''"

definition NUDGE_TEXT :: string where
  "NUDGE_TEXT = ''You stopped without calling report. Call the report tool now: done, blocked or question.''"

record observation =
  ob_id :: string
  ob_session :: string
  ob_kind :: harness_id
  ob_ready :: bool
  ob_blocked :: bool
  ob_waiting :: bool
  ob_unreported :: bool
  ob_reported :: bool
  ob_pane :: "string option"
  ob_activity :: "activity_state option"
  ob_age_secs :: nat
  ob_auto_continue :: bool

datatype worker_state = Working | WaitingForReport | BlockedPermission | BlockedTrust | UnknownState | ReportedState

datatype check_action = Nudge string | InboxPost string string

record worker_memory =
  wm_state :: worker_state
  wm_nudged :: bool
  wm_unknown_posted :: bool

type_synonym check_memory = "string \<rightharpoonup> worker_memory"

definition last_reports :: "report list \<Rightarrow> (string \<times> string) list" where
  "last_reports rs = map (\<lambda>r. (rp_worker r, rp_at r))
     (filter (\<lambda>r. list_ex (\<lambda>k. status_name k = rp_status r) ALL_STATUSES) rs)"

fun split_once_str :: "string \<Rightarrow> string \<Rightarrow> string \<Rightarrow> (string \<times> string) option" where
  "split_once_str p acc [] = None"
| "split_once_str p acc (c # cs) =
     (if starts_with p (c # cs) then Some (acc, drop (length p) (c # cs)) else split_once_str p (acc @ [c]) cs)"

definition message_header :: "string \<Rightarrow> (string \<times> string) option" where
  "message_header l =
     Option.bind (strip_prefix ''[worker '' l) (\<lambda>s.
     Option.bind (strip_suffix '']'' s) (\<lambda>s. split_once_str middle_dot [] s))"

definition is_report_status :: "string \<Rightarrow> bool" where
  "is_report_status s \<longleftrightarrow> list_ex (\<lambda>k. status_name k = s) ALL_STATUSES"

definition report_header_id :: "string \<Rightarrow> string option" where
  "report_header_id l = (case message_header l of
     Some (i, status) \<Rightarrow> if is_report_status status then Some i else None
   | None \<Rightarrow> None)"

text \<open>Maps filled from the entries of the log, the later ones last.\<close>

definition logged_reports :: "entry list \<Rightarrow> (string \<times> string) list" where
  "logged_reports es = concat (map (\<lambda>e. map (\<lambda>i. (i, e_at e)) (List.map_filter report_header_id (lines (e_text e))))
     (filter (\<lambda>e. e_role e = RoleWorker) es))"

definition logged_states :: "entry list \<Rightarrow> (string \<times> string) list" where
  "logged_states es = filter (\<lambda>(i, status). is_report_status status)
     (concat (map (\<lambda>e. List.map_filter message_header (lines (e_text e))) (filter (\<lambda>e. e_role e = RoleWorker) es)))"

definition reported_since_nudge :: "string option \<Rightarrow> string option option \<Rightarrow> bool" where
  "reported_since_nudge last_report nudge = (case nudge of
     None \<Rightarrow> last_report \<noteq> None
   | Some before \<Rightarrow> last_report \<noteq> None \<and> last_report \<noteq> before)"

text \<open>\<open>poll\<close> in milliseconds; the division rounds up.\<close>

definition check_every_polls :: "nat \<Rightarrow> nat \<Rightarrow> nat" where
  "check_every_polls secs poll =
     (let poll_ms = max 1 (min poll u64_max); ms = min (secs * 1000) u64_max
      in max 1 ((ms + poll_ms - 1) div poll_ms))"

definition stall_owned :: "observation \<Rightarrow> bool" where
  "stall_owned ob \<longleftrightarrow> ob_auto_continue ob \<and> ob_activity ob = Some AFailed"

definition RUNNING_STALE_SECS :: nat where
  "RUNNING_STALE_SECS = 600"

definition BACKGROUND_STALE_SECS :: nat where
  "BACKGROUND_STALE_SECS = 3600"

fun busy_mark_stale :: "activity_state \<Rightarrow> nat \<Rightarrow> bool" where
  "busy_mark_stale ARunning age \<longleftrightarrow> RUNNING_STALE_SECS < age"
| "busy_mark_stale ABackground age \<longleftrightarrow> BACKGROUND_STALE_SECS < age"
| "busy_mark_stale _ age \<longleftrightarrow> False"

definition is_busy :: "observation \<Rightarrow> bool" where
  "is_busy ob \<longleftrightarrow>
     (case ob_activity ob of
        Some st \<Rightarrow> activity_busy st \<and> \<not> (ob_pane ob \<noteq> None \<and> busy_mark_stale st (ob_age_secs ob))
      | None \<Rightarrow> False) \<or>
     (case ob_pane ob of Some pane \<Rightarrow> pane_busy pane | None \<Rightarrow> False)"

definition classify_worker :: "observation \<Rightarrow> worker_state" where
  "classify_worker ob =
     (if ob_blocked ob then BlockedPermission
      else if (case ob_pane ob of Some pane \<Rightarrow> startup_state pane (ob_ready ob) = TrustPrompt | None \<Rightarrow> False) then BlockedTrust
      else if ob_waiting ob then WaitingForReport
      else if ob_reported ob then ReportedState
      else if ob_ready ob \<and> \<not> ob_unreported ob \<and> \<not> is_busy ob \<and> \<not> stall_owned ob \<and> ob_pane ob \<noteq> None then UnknownState
      else Working)"

definition inbox_text :: "worker_state \<Rightarrow> observation \<Rightarrow> string option" where
  "inbox_text st ob =
     (if ob_kind ob \<noteq> Claude then
        (case st of
           WaitingForReport \<Rightarrow> Some (''Worker '' @ ob_id ob @ '' stopped without calling report.'')
         | BlockedPermission \<Rightarrow>
             if ob_kind ob = Opencode
             then Some (''Worker '' @ ob_id ob @ '' is waiting for a permission answer. Answer it with reply, its request id and an optionId; a reply without request lists the pending ids.'')
             else None
         | _ \<Rightarrow> None)
      else
        (case st of
           WaitingForReport \<Rightarrow> Some (''Worker '' @ ob_id ob @ '' stopped without calling report. To look: tmux attach -t '' @ ob_session ob)
         | BlockedPermission \<Rightarrow> Some (''Worker '' @ ob_id ob @ '' is waiting at a permission prompt; ralph does not type into it. To answer: tmux attach -t '' @ ob_session ob)
         | BlockedTrust \<Rightarrow> Some (''Worker '' @ ob_id ob @ '' is waiting at the folder-trust dialog. To answer: tmux attach -t '' @ ob_session ob)
         | UnknownState \<Rightarrow> Some (''ralph can'' @ [CHR 0x27] @ ''t tell what worker '' @ ob_id ob @ '' is waiting on: it is idle and has not reported. To look: tmux attach -t '' @ ob_session ob)
         | _ \<Rightarrow> None))"

text \<open>One worker of a check: its actions and what is remembered of it.\<close>

definition check_worker :: "worker_memory option \<Rightarrow> observation \<Rightarrow> check_action list \<times> worker_memory" where
  "check_worker prev ob =
     (let st = classify_worker ob;
          nudged = ((case prev of Some p \<Rightarrow> wm_nudged p | None \<Rightarrow> False) \<and> \<not> ob_reported ob);
          nudge = (st = WaitingForReport \<and> \<not> nudged);
          was_unknown = (case prev of Some p \<Rightarrow> wm_unknown_posted p | None \<Rightarrow> False);
          repeat_unknown = (st = UnknownState \<and> was_unknown);
          post = (if map_option wm_state prev \<noteq> Some st \<and> \<not> repeat_unknown
                  then (case inbox_text st ob of Some s \<Rightarrow> [InboxPost (ob_id ob) s] | None \<Rightarrow> []) else [])
      in ((if nudge then [Nudge (ob_id ob)] else []) @ post,
          \<lparr>wm_state = st, wm_nudged = (nudged \<or> nudge),
           wm_unknown_posted = (case st of UnknownState \<Rightarrow> True | Working \<Rightarrow> was_unknown | _ \<Rightarrow> False)\<rparr>))"

fun plan_check :: "check_memory \<Rightarrow> observation list \<Rightarrow> check_memory \<Rightarrow> check_action list \<times> check_memory" where
  "plan_check prev [] nxt = ([], nxt)"
| "plan_check prev (ob # obs) nxt =
     (case check_worker (prev (ob_id ob)) ob of (acts, m) \<Rightarrow>
        case plan_check prev obs (nxt(ob_id ob \<mapsto> m)) of (acts', nxt') \<Rightarrow> (acts @ acts', nxt'))"

definition plan :: "check_memory \<Rightarrow> observation list \<Rightarrow> check_action list \<times> check_memory" where
  "plan prev obs = plan_check prev obs Map.empty"

subsection \<open>A check\<close>

record running_worker =
  rn_id :: string
  rn_session :: string
  rn_kind :: harness_id

text \<open>What a check finds: the files of the store, the terminals and the clock.\<close>

record surroundings =
  su_running :: "running_worker list"
  su_ready :: "string list"
  su_blocked :: "string \<Rightarrow> bool"
  su_waiting :: "string \<Rightarrow> bool"
  su_unreported :: "string \<Rightarrow> bool"
  su_sent :: "string \<Rightarrow> bool"
  su_activity :: "string \<Rightarrow> string option"
  su_gone :: "string \<rightharpoonup> string"
  su_pane :: "string \<Rightarrow> string option"
  su_now :: nat
  su_quiet_secs :: nat
  su_auto_continue :: bool
  su_marked :: "string \<Rightarrow> bool"

record check_state =
  cs_memory :: check_memory
  cs_nudges :: "string \<rightharpoonup> string option"
  cs_reports :: "string \<rightharpoonup> string"
  cs_heartbeats :: "string \<rightharpoonup> headless_state"
  cs_alive :: "string set"
  cs_dead :: "string list"

definition check_default :: check_state where
  "check_default = \<lparr>cs_memory = Map.empty, cs_nudges = Map.empty, cs_reports = Map.empty,
     cs_heartbeats = Map.empty, cs_alive = {}, cs_dead = []\<rparr>"

definition extend_reports :: "(string \<times> string) list \<Rightarrow> check_state \<Rightarrow> check_state" where
  "extend_reports rs s = s\<lparr>cs_reports := cs_reports s ++ map_of (rev rs)\<rparr>"

definition seeded :: "entry list \<Rightarrow> check_state" where
  "seeded es = extend_reports (logged_reports es) check_default"

definition observe :: "surroundings \<Rightarrow> check_state \<Rightarrow> running_worker \<Rightarrow> observation" where
  "observe d s w =
     (let i = rn_id w; ready = (i \<in> set (su_ready d)); blocked = su_blocked d i; waiting = su_waiting d i;
          reported = (\<not> su_sent d i \<and> reported_since_nudge (cs_reports s i) (cs_nudges s i));
          pane = (if rn_kind w = Claude \<and> \<not> (blocked \<or> waiting \<or> ready \<and> reported) then su_pane d (rn_session w) else None);
          activity = Option.bind (su_activity d i) mark_parse
      in \<lparr>ob_id = i, ob_session = rn_session w, ob_kind = rn_kind w, ob_ready = ready, ob_blocked = blocked,
          ob_waiting = waiting, ob_unreported = su_unreported d i, ob_reported = reported, ob_pane = pane,
          ob_activity = map_option am_state activity,
          ob_age_secs = (case activity of Some m \<Rightarrow> su_now d - am_at m | None \<Rightarrow> 0),
          ob_auto_continue = su_auto_continue d\<rparr>)"

definition heartbeat :: "surroundings \<Rightarrow> (string \<rightharpoonup> string) \<Rightarrow> string \<Rightarrow> headless_state \<Rightarrow> headless_state \<times> alert option" where
  "heartbeat d gone i old =
     (case marker_state (su_activity d i) (gone i) (su_blocked d i) of (ph, events) \<Rightarrow>
        liveness_tick (foldl (\<lambda>st e. fst (reduce st e)) ((rearm old (gone i \<noteq> None))\<lparr>hs_phase := ph\<rparr>) events)
          (su_now d) (su_quiet_secs d))"

text \<open>
  The heartbeats of the workers without a terminal and of the Claude workers that vanished, in some
  order of the latter; an acknowledged mark that a server is gone is removed.
\<close>

fun run_heartbeats ::
  "surroundings \<Rightarrow> string list \<Rightarrow> (string \<rightharpoonup> string) \<Rightarrow> (string \<rightharpoonup> headless_state) \<Rightarrow>
     (string \<times> alert) list \<times> (string \<rightharpoonup> string) \<times> (string \<rightharpoonup> headless_state)" where
  "run_heartbeats d [] gone hb = ([], gone, hb)"
| "run_heartbeats d (i # is) gone hb =
     (case heartbeat d gone i (case hb i of Some h \<Rightarrow> h | None \<Rightarrow> headless_default) of (h, alert) \<Rightarrow>
        let gone' = (if gone_acknowledged h then gone(i := None) else gone)
        in case run_heartbeats d is gone' (hb(i \<mapsto> h)) of (alerts, gone'', hb') \<Rightarrow>
             ((case alert of Some a \<Rightarrow> [(i, a)] | None \<Rightarrow> []) @ alerts, gone'', hb'))"

definition heartbeats ::
  "surroundings \<Rightarrow> (string \<rightharpoonup> string) \<Rightarrow> check_state \<Rightarrow> check_action list \<times> (string \<rightharpoonup> string) \<times> check_state" where
  "heartbeats d gone s =
     (let ids = map rn_id (su_running d);
          dead = filter (\<lambda>i. gone i \<noteq> None) (cs_dead s);
          hb = (\<lambda>i. if i \<in> set dead \<or> i \<in> set ids then cs_heartbeats s i else None);
          todo = map rn_id (filter (\<lambda>w. rn_kind w \<noteq> Claude) (su_running d)) @ dead
      in case run_heartbeats d todo gone hb of (alerts, gone', hb') \<Rightarrow>
           (map (\<lambda>(workers, s). InboxPost workers s) (group_alerts alerts), gone',
            s\<lparr>cs_dead := dead, cs_heartbeats := hb'\<rparr>))"

fun note_nudges :: "check_action list \<Rightarrow> (string \<rightharpoonup> string) \<Rightarrow> (string \<rightharpoonup> string option) \<Rightarrow> (string \<rightharpoonup> string option)" where
  "note_nudges [] reports nudges = nudges"
| "note_nudges (Nudge i # acts) reports nudges = note_nudges acts reports (nudges(i \<mapsto> reports i))"
| "note_nudges (InboxPost i s # acts) reports nudges = note_nudges acts reports nudges"

definition check :: "surroundings \<Rightarrow> check_state \<Rightarrow> check_action list \<times> (string \<rightharpoonup> string) \<times> check_state" where
  "check d s =
     (let ids = map rn_id (su_running d);
          obs = map (observe d s) (su_running d);
          s1 = s\<lparr>cs_nudges := (\<lambda>i. if i \<in> set ids then cs_nudges s i else None)\<rparr>;
          alive = set (map rn_id (filter (\<lambda>w. rn_kind w = Claude) (su_running d)));
          vanished = vanished_claude (cs_alive s) alive (su_ready d);
          gone = foldl (\<lambda>g i. if su_marked d i then g(i \<mapsto> render_gone ScopeWorker ''tmux session ended'') else g) (su_gone d) vanished;
          s2 = s1\<lparr>cs_dead := cs_dead s1 @ filter (\<lambda>i. i \<notin> set (cs_dead s1)) vanished, cs_alive := alive\<rparr>
      in case plan (cs_memory s2) obs of (acts, memory) \<Rightarrow>
           (case heartbeats d gone (s2\<lparr>cs_memory := memory\<rparr>) of (alerts, gone', s3) \<Rightarrow>
              (acts @ alerts, gone', s3\<lparr>cs_nudges := note_nudges (acts @ alerts) (cs_reports s3) (cs_nudges s3)\<rparr>)))"

subsection \<open>One nudge per report\<close>

text \<open>What changes the state of the checks: reports that come in, and checks.\<close>

datatype monitor_event =
    MReports "report list"
  | MCheck surroundings

fun monitor_step :: "monitor_event \<Rightarrow> check_state \<Rightarrow> check_action list \<times> check_state" where
  "monitor_step (MReports rs) s = ([], extend_reports (last_reports rs) s)"
| "monitor_step (MCheck d) s = (case check d s of (acts, gone, s') \<Rightarrow> (acts, s'))"

fun nudges_of :: "string \<Rightarrow> check_action \<Rightarrow> nat" where
  "nudges_of i (Nudge j) = (if i = j then 1 else 0)"
| "nudges_of i (InboxPost j s) = 0"

definition may_nudge :: "string \<Rightarrow> check_state \<Rightarrow> nat" where
  "may_nudge i s =
     (if (case cs_memory s i of Some m \<Rightarrow> wm_nudged m | None \<Rightarrow> False) \<and> \<not> reported_since_nudge (cs_reports s i) (cs_nudges s i)
      then 0 else 1)"

fun renews :: "string \<Rightarrow> monitor_event \<Rightarrow> nat" where
  "renews i (MReports rs) = (if i \<in> set (map fst (last_reports rs)) then 1 else 0)"
| "renews i (MCheck d) = (if i \<in> set (map rn_id (su_running d)) then 0 else 1)"

fun workers_distinct :: "monitor_event \<Rightarrow> bool" where
  "workers_distinct (MReports rs) = True"
| "workers_distinct (MCheck d) = distinct (map rn_id (su_running d))"

lemma check_worker_nudges:
  "check_worker prev ob = (acts, m) \<Longrightarrow>
     sum_list (map (nudges_of i) acts) = (if i = ob_id ob \<and> classify_worker ob = WaitingForReport \<and>
       \<not> ((case prev of Some p \<Rightarrow> wm_nudged p | None \<Rightarrow> False) \<and> \<not> ob_reported ob) then 1 else 0)"
  by (auto simp: check_worker_def Let_def split: option.splits)

lemma plan_check_other:
  "i \<notin> ob_id ` set obs \<Longrightarrow> plan_check prev obs nxt = (acts, nxt') \<Longrightarrow>
     sum_list (map (nudges_of i) acts) = 0 \<and> nxt' i = nxt i"
proof (induction obs arbitrary: nxt acts)
  case (Cons ob obs)
  obtain a m where w: "check_worker (prev (ob_id ob)) ob = (a, m)" by (metis prod.collapse)
  obtain a' where r: "plan_check prev obs (nxt(ob_id ob \<mapsto> m)) = (a', nxt')" "acts = a @ a'"
    using Cons.prems(2) w by (auto split: prod.splits)
  show ?case using Cons.IH [OF _ r(1)] Cons.prems(1) check_worker_nudges [OF w, of i] r(2) by simp
qed simp

lemma plan_check_one:
  assumes "distinct (map ob_id obs)" and "ob \<in> set obs" and "plan_check prev obs nxt = (acts, nxt')"
    and "check_worker (prev (ob_id ob)) ob = (a, m)"
  shows "sum_list (map (nudges_of (ob_id ob)) acts) = sum_list (map (nudges_of (ob_id ob)) a) \<and> nxt' (ob_id ob) = Some m"
  using assms
proof (induction obs arbitrary: nxt acts)
  case (Cons o1 obs)
  obtain a1 m1 where w: "check_worker (prev (ob_id o1)) o1 = (a1, m1)" by (metis prod.collapse)
  obtain a2 where r: "plan_check prev obs (nxt(ob_id o1 \<mapsto> m1)) = (a2, nxt')" "acts = a1 @ a2"
    using Cons.prems(3) w by (auto split: prod.splits)
  show ?case
  proof (cases "ob = o1")
    case True
    then show ?thesis using plan_check_other [OF _ r(1), of "ob_id ob"] Cons.prems(1,4) w r(2) by auto
  next
    case False
    then have o: "ob \<in> set obs" using Cons.prems(2) by simp
    then have "ob_id ob \<in> ob_id ` set obs" by simp
    then have "ob_id ob \<noteq> ob_id o1" using Cons.prems(1) by auto
    then show ?thesis using o Cons.IH [OF _ _ r(1) Cons.prems(4)] Cons.prems(1) check_worker_nudges [OF w, of "ob_id ob"] r(2) by simp
  qed
qed simp

lemma note_nudges_eq:
  "note_nudges acts reports nudges i = (if sum_list (map (nudges_of i) acts) = 0 then nudges i else Some (reports i))"
proof (induction acts arbitrary: nudges)
  case (Cons a acts)
  then show ?case by (cases a) simp_all
qed simp

lemma heartbeats_keep:
  assumes "heartbeats d gone s = (acts, gone', s')"
  shows "cs_memory s' = cs_memory s \<and> cs_reports s' = cs_reports s \<and> cs_nudges s' = cs_nudges s \<and>
    sum_list (map (nudges_of i) acts) = 0"
proof -
  have "sum_list (map (nudges_of i) (map (\<lambda>(workers, s). InboxPost workers s) xs)) = 0" for xs :: "(string \<times> string) list"
    by (induction xs) auto
  then show ?thesis using assms by (auto simp: heartbeats_def Let_def split: prod.splits)
qed

lemma observe_id [simp]: "ob_id (observe d s w) = rn_id w"
  by (simp add: observe_def Let_def)

lemma observe_reported:
  "ob_reported (observe d s w) \<Longrightarrow> reported_since_nudge (cs_reports s (rn_id w)) (cs_nudges s (rn_id w))"
  by (simp add: observe_def Let_def)

lemma check_budget:
  assumes "distinct (map rn_id (su_running d))" and c: "check d s = (acts, gone, s')"
  shows "sum_list (map (nudges_of i) acts) + may_nudge i s' \<le> may_nudge i s + (if i \<in> set (map rn_id (su_running d)) then 0 else 1)"
proof -
  let ?obs = "map (observe d s) (su_running d)"
  obtain a memory where p: "plan (cs_memory s) ?obs = (a, memory)" by (metis prod.collapse)
  obtain alerts where h: "acts = a @ alerts" "sum_list (map (nudges_of i) alerts) = 0" "cs_memory s' = memory"
    "cs_reports s' = cs_reports s"
    "cs_nudges s' = note_nudges acts (cs_reports s) (\<lambda>i. if i \<in> set (map rn_id (su_running d)) then cs_nudges s i else None)"
    using c p heartbeats_keep [where i = i] by (fastforce simp: check_def Let_def split: prod.splits)
  have n: "cs_nudges s' i = (if sum_list (map (nudges_of i) a) = 0
      then if i \<in> set (map rn_id (su_running d)) then cs_nudges s i else None else Some (cs_reports s i))"
    by (simp add: h(1,2,5) note_nudges_eq)
  have ids: "map ob_id ?obs = map rn_id (su_running d)" by simp
  show ?thesis
  proof (cases "i \<in> set (map rn_id (su_running d))")
    case False
    then have "i \<notin> ob_id ` set ?obs" by (auto simp: image_iff)
    then have "sum_list (map (nudges_of i) a) = 0 \<and> memory i = None"
      using plan_check_other [of i ?obs "cs_memory s" Map.empty a memory] p by (auto simp: plan_def)
    then have z: "sum_list (map (nudges_of i) acts) = 0" using h(1,2) by simp
    show ?thesis unfolding z using False by (simp add: may_nudge_def)
  next
    case True
    then obtain w where w: "w \<in> set (su_running d)" "rn_id w = i" by auto
    obtain aw m where cw: "check_worker (cs_memory s i) (observe d s w) = (aw, m)" by (metis prod.collapse)
    have "sum_list (map (nudges_of i) a) = sum_list (map (nudges_of i) aw) \<and> memory i = Some m"
      using plan_check_one [of ?obs "observe d s w" "cs_memory s" Map.empty a memory aw m] assms(1) w p cw ids
      by (simp add: plan_def comp_def)
    moreover have "wm_nudged m = ((case cs_memory s i of Some p \<Rightarrow> wm_nudged p | None \<Rightarrow> False) \<and> \<not> ob_reported (observe d s w) \<or>
        classify_worker (observe d s w) = WaitingForReport)"
      using cw by (auto simp: check_worker_def Let_def)
    moreover have "reported_since_nudge (cs_reports s i) (Some (cs_reports s i)) = False" by (simp add: reported_since_nudge_def)
    moreover have e: "sum_list (map (nudges_of i) acts) = sum_list (map (nudges_of i) a)" using h(1,2) by simp
    ultimately show ?thesis
      unfolding e using True h(3,4) n check_worker_nudges [OF cw, of i] observe_reported [of d s w] w(2)
      by (auto simp: may_nudge_def)
  qed
qed

lemma extend_reports_other: "i \<notin> set (map fst rs) \<Longrightarrow> cs_reports (extend_reports rs s) i = cs_reports s i"
  by (simp add: extend_reports_def map_add_def map_of_eq_None_iff [THEN iffD2] split: option.split)

interpretation nudging: budget monitor_step "\<lambda>s. True" "\<lambda>e s. workers_distinct e" "renews i" "nudges_of i" "may_nudge i" for i
proof unfold_locales
  fix s e
  assume "workers_distinct e"
  then show "sum_list (map (nudges_of i) (fst (monitor_step e s))) + may_nudge i (snd (monitor_step e s)) \<le> may_nudge i s + renews i e"
  proof (cases e)
    case (MReports rs)
    have "cs_memory (extend_reports x s) = cs_memory s" "cs_nudges (extend_reports x s) = cs_nudges s" for x
      by (simp_all add: extend_reports_def)
    then show ?thesis using MReports extend_reports_other [of i "last_reports rs" s] by (auto simp: may_nudge_def)
  next
    case (MCheck d)
    then obtain acts gone s' where "check d s = (acts, gone, s')" by (metis prod_cases3)
    then show ?thesis using check_budget [of d s acts gone s' i] MCheck \<open>workers_distinct e\<close> by simp
  qed
qed simp

text \<open>C32: a worker is told to report at most once, and once more for each report of it that came in and
  each check at which it did not run.\<close>

theorem one_nudge_per_report:
  assumes "list_all workers_distinct es"
  shows "sum_list (map (nudges_of i) (fst (run_machine monitor_step es s))) \<le> 1 + sum_list (map (renews i) es)"
proof -
  have "may_nudge i s \<le> 1" by (simp add: may_nudge_def)
  then show ?thesis using nudging.run_budget [where s = s and es = es and i = i] assms by (simp add: run_guarded_events)
qed

definition idle_store :: surroundings where
  "idle_store = \<lparr>su_running = [\<lparr>rn_id = ''w'', rn_session = ''s'', rn_kind = Codex\<rparr>], su_ready = [''w''],
     su_blocked = (\<lambda>i. False), su_waiting = (\<lambda>i. True), su_unreported = (\<lambda>i. True), su_sent = (\<lambda>i. True),
     su_activity = (\<lambda>i. None), su_gone = Map.empty, su_pane = (\<lambda>s. None), su_now = 0, su_quiet_secs = 60,
     su_auto_continue = False, su_marked = (\<lambda>i. False)\<rparr>"

theorem one_nudge_per_report_witness:
  "nudges_of ''w'' (hd (fst (check idle_store check_default))) = 1 \<and>
   sum_list (map (nudges_of ''w'') (fst (run_machine monitor_step [MCheck idle_store, MReports [], MCheck idle_store] check_default))) \<le> 1"
  using one_nudge_per_report [of "[MCheck idle_store, MReports [], MCheck idle_store]" "''w''" check_default]
  by (simp add: last_reports_def idle_store_def check_def observe_def check_default_def plan_def check_worker_def
      classify_worker_def vanished_claude_def Let_def split: prod.splits)

end
