(* ===== verification/Guard.thy ===== *)
theory Guard
  imports Closing
begin

section \<open>Scheduled workers never push\<close>

text \<open>
  \<open>core/src/worker/guard.rs\<close> and \<open>ralph/src/workers/guard.rs\<close>: the hooks and the git configuration
  of a scheduled worker's worktree, under which every push is refused. Git itself is a parameter: a
  state, the values it gives for a key, and the effect of a call of \<open>git config\<close>.
\<close>

definition HOOKS_DIR :: string where
  "HOOKS_DIR = ''ralph-schedule-hooks''"

definition DEFAULT_REMOTE :: string where
  "DEFAULT_REMOTE = ''origin''"

definition REFUSED_URL_BASE :: string where
  "REFUSED_URL_BASE = ''ralph-refused://''"

definition REFUSED_PREFIXES :: "string list" where
  "REFUSED_PREFIXES = [''/'', ''./'', ''../'', ''file://'', ''ssh://'', ''git@'', ''git://'', ''http://'', ''https://'']"

definition DISALLOWED_TOOLS :: "string list" where
  "DISALLOWED_TOOLS = [''Bash(git push:*)'', ''Bash(gh pr:*)'', ''Bash(gh api:*)'']"

definition PRE_PUSH_HOOK :: string where
  "PRE_PUSH_HOOK = ''pre-push''"

record hook_script =
  hk_name :: string
  hk_content :: string

definition disallowed_tool_args :: "string list" where
  "disallowed_tool_args = ''--disallowedTools'' # DISALLOWED_TOOLS"

record remote_urls =
  ru_fetch :: "(string \<times> string) list"
  ru_push :: "(string \<times> string) list"

definition hooks_dir_in :: "string \<Rightarrow> string" where
  "hooks_dir_in common_dir = path_join common_dir HOOKS_DIR"

definition remote_line :: "string \<Rightarrow> (bool \<times> string \<times> string) option" where
  "remote_line l = (case split_once (CHR '' '') l of
     None \<Rightarrow> None
   | Some (key, val) \<Rightarrow>
       (case strip_prefix ''remote.'' key of
          None \<Rightarrow> None
        | Some rest \<Rightarrow>
            (case strip_suffix ''.pushurl'' rest of
               Some name \<Rightarrow> Some (True, name, val)
             | None \<Rightarrow> (case strip_suffix ''.url'' rest of Some name \<Rightarrow> Some (False, name, val) | None \<Rightarrow> None))))"

definition parse_remote_urls :: "string \<Rightarrow> remote_urls" where
  "parse_remote_urls listing =
     (let found = List.map_filter remote_line (lines listing)
      in \<lparr>ru_fetch = map snd (filter (\<lambda>(push, r). \<not> push) found), ru_push = map snd (filter (\<lambda>(push, r). push) found)\<rparr>)"

definition refused_push_url :: "string \<Rightarrow> string" where
  "refused_push_url remote = REFUSED_URL_BASE @ remote"

definition guarded_remotes :: "remote_urls \<Rightarrow> string list" where
  "guarded_remotes r = remdups (sort_strs (map fst (ru_fetch r @ ru_push r) @ [DEFAULT_REMOTE]))"

definition shared_push_urls :: "remote_urls \<Rightarrow> string list" where
  "shared_push_urls r = remdups (sort_strs (filter (\<lambda>u. u \<noteq> []) (map snd (ru_push r))))"

fun rewritten_fetch :: "(string \<times> string) list \<Rightarrow> string list \<Rightarrow> string option" where
  "rewritten_fetch [] push_urls = None"
| "rewritten_fetch ((name, url) # fs) push_urls =
     (case find (\<lambda>p. starts_with p url) push_urls of
        Some p \<Rightarrow> Some (''remote '' @ name @ '' fetches from '' @ url @ '', which starts with the shared push url '' @ p
          @ ''; refusing that push url would break fetching'')
      | None \<Rightarrow> rewritten_fetch fs push_urls)"

definition pushurl_key :: "string \<Rightarrow> string" where
  "pushurl_key remote = ''remote.'' @ remote @ ''.pushurl''"

definition instead_of_key :: string where
  "instead_of_key = ''url.'' @ REFUSED_URL_BASE @ ''.insteadOf''"

definition push_instead_of_key :: string where
  "push_instead_of_key = ''url.'' @ REFUSED_URL_BASE @ ''.pushInsteadOf''"

definition HOOKS_PATH_KEY :: string where
  "HOOKS_PATH_KEY = ''core.hooksPath''"

definition UNSET_ALL_FLAG :: string where
  "UNSET_ALL_FLAG = ''--unset-all''"

definition worktree_set :: "string \<Rightarrow> string \<Rightarrow> string list" where
  "worktree_set key val = [''config'', ''--worktree'', key, val]"

definition worktree_add :: "string \<Rightarrow> string \<Rightarrow> string list" where
  "worktree_add key val = [''config'', ''--worktree'', ''--add'', key, val]"

definition worktree_unset :: "string \<Rightarrow> string list" where
  "worktree_unset key = [''config'', ''--worktree'', UNSET_ALL_FLAG, key]"

definition guard_config_steps :: "string \<Rightarrow> remote_urls \<Rightarrow> string list list result" where
  "guard_config_steps hooks_dir r =
     (let push_urls = shared_push_urls r
      in case rewritten_fetch (ru_fetch r) push_urls of
           Some refusal \<Rightarrow> Inl refusal
         | None \<Rightarrow> Inr (
             [[''config'', ''extensions.worktreeConfig'', ''true''],
              worktree_set HOOKS_PATH_KEY (utf8_lossy hooks_dir)] @
             map (\<lambda>remote. worktree_set (pushurl_key remote) (refused_push_url remote)) (guarded_remotes r) @
             [worktree_unset instead_of_key] @
             map (\<lambda>url. worktree_add instead_of_key url) push_urls @
             [worktree_unset push_instead_of_key] @
             map (\<lambda>p. worktree_add push_instead_of_key p) REFUSED_PREFIXES))"

subsection \<open>The hooks\<close>

definition stale_hook_names :: "string list \<Rightarrow> hook_script list \<Rightarrow> string list" where
  "stale_hook_names present scripts = filter (\<lambda>n. \<not> list_ex (\<lambda>s. hk_name s = n) scripts) present"

definition TEMP_HOOK_MIN_AGE_SECS :: nat where
  "TEMP_HOOK_MIN_AGE_SECS = 60"

definition temp_hook_name :: "string \<Rightarrow> nat \<Rightarrow> nat \<Rightarrow> string" where
  "temp_hook_name name pid sequence = ''.'' @ name @ ''.'' @ dec pid @ ''.'' @ dec sequence @ ''.tmp''"

text \<open>\<open>rsplitn(3, '.')\<close>: the last two parts and what is in front of them.\<close>

definition is_temp_hook :: "string \<Rightarrow> bool" where
  "is_temp_hook file_name =
     (case Option.bind (strip_prefix ''.'' file_name) (strip_suffix ''.tmp'') of
        None \<Rightarrow> False
      | Some stem \<Rightarrow>
          (case rev (split_on (CHR ''.'') stem) of
             a # b # rest \<Rightarrow> all_digits a \<and> all_digits b \<and> rest \<noteq> [] \<and> join ''.'' (rev rest) \<noteq> []
           | _ \<Rightarrow> False))"

definition abandoned_temp_hooks :: "(string \<times> nat) list \<Rightarrow> string list" where
  "abandoned_temp_hooks es = map fst (filter (\<lambda>(name, age). is_temp_hook name \<and> TEMP_HOOK_MIN_AGE_SECS \<le> age) es)"

definition refusing_pre_push :: string where
  "refusing_pre_push =
     ''#!/bin/sh'' @ newline @ ''echo '' @ [CHR 0x27] @ ''ralph: a scheduled worker never pushes.'' @ [CHR 0x27] @ '' >&2''
       @ newline @ ''exit 1'' @ newline"

definition shell_quote :: "string \<Rightarrow> string" where
  "shell_quote s = [CHR 0x27] @ replace_all [CHR 0x27] [CHR 0x27, CHR 0x5C, CHR 0x27, CHR 0x27] s @ [CHR 0x27]"

definition forwarder_script :: "string \<Rightarrow> string \<Rightarrow> string" where
  "forwarder_script common_hooks name =
     ''#!/bin/sh'' @ newline @ ''exec '' @ shell_quote (utf8_lossy (path_join common_hooks name))
       @ '' '' @ [CHR 0x22] @ ''$@'' @ [CHR 0x22] @ newline"

definition hook_scripts :: "string \<Rightarrow> string list \<Rightarrow> hook_script list" where
  "hook_scripts common_hooks existing =
     \<lparr>hk_name = PRE_PUSH_HOOK, hk_content = refusing_pre_push\<rparr> #
     map (\<lambda>name. \<lparr>hk_name = name, hk_content = forwarder_script common_hooks name\<rparr>)
       (remdups (sort_strs (filter (\<lambda>name. \<not> ends_with ''.sample'' name \<and> name \<noteq> PRE_PUSH_HOOK) existing)))"

text \<open>
  The hooks directory: its files by name. Writing goes through a temporary file and a rename; files
  that other set-ups left behind are removed when they are old (\<open>age\<close>).
\<close>

type_synonym hooks_dir = "(string \<times> string) list"

definition put_hook :: "hook_script \<Rightarrow> hooks_dir \<Rightarrow> hooks_dir" where
  "put_hook s dir = (hk_name s, hk_content s) # filter (\<lambda>(n, c). n \<noteq> hk_name s) dir"

definition write_hooks :: "(string \<Rightarrow> nat) \<Rightarrow> string \<Rightarrow> string list \<Rightarrow> hooks_dir \<Rightarrow> hooks_dir" where
  "write_hooks age common_hooks existing dir =
     (let scripts = hook_scripts common_hooks existing;
          written = foldl (\<lambda>dir s. put_hook s dir) dir scripts;
          installed = filter (\<lambda>n. \<not> starts_with ''.'' n) (map fst written);
          stale = stale_hook_names installed scripts;
          kept = filter (\<lambda>(n, c). n \<notin> set stale) written
      in filter (\<lambda>(n, c). n \<notin> set (abandoned_temp_hooks (map (\<lambda>(n, c). (n, age n)) kept))) kept)"

text \<open>The calls of git, in order; that a key to unset is absent (exit code 5) is no error.\<close>

fun run_git :: "(string list \<Rightarrow> 'g \<Rightarrow> nat \<times> 'g) \<Rightarrow> string list list \<Rightarrow> 'g \<Rightarrow> unit result \<times> 'g" where
  "run_git git [] g = (Inr (), g)"
| "run_git git (step # steps) g = (case git step g of (code, g') \<Rightarrow>
     if code = 0 \<or> UNSET_ALL_FLAG \<in> set step \<and> code = 5 then run_git git steps g' else (Inl (join '' '' step), g'))"

definition apply_guard ::
  "(string list \<Rightarrow> 'g \<Rightarrow> nat \<times> 'g) \<Rightarrow> (string \<Rightarrow> nat) \<Rightarrow> string \<Rightarrow> string list \<Rightarrow> remote_urls \<Rightarrow> hooks_dir \<Rightarrow> 'g \<Rightarrow>
     unit result \<times> hooks_dir \<times> 'g" where
  "apply_guard git age common existing r dir g =
     (case guard_config_steps (hooks_dir_in common) r of
        Inl e \<Rightarrow> (Inl e, dir, g)
      | Inr steps \<Rightarrow>
          (case run_git git steps g of (out, g') \<Rightarrow>
             (out, write_hooks age (path_join common ''hooks'') existing dir, g')))"

subsection \<open>Quoting for the shell\<close>

text \<open>
  How sh reads one word, as far as quotes and backslashes go: \<open>None\<close> where a quote is not closed or an
  unquoted character would end the word or be expanded.
\<close>

fun sh_word :: "bool \<Rightarrow> string \<Rightarrow> string option" where
  "sh_word True [] = None"
| "sh_word True (c # cs) = (if c = CHR 0x27 then sh_word False cs else map_option ((#) c) (sh_word True cs))"
| "sh_word False [] = Some []"
| "sh_word False [c] = (if is_ascii_alnum c then Some [c] else None)"
| "sh_word False (c # d # cs) =
     (if c = CHR 0x27 then sh_word True (d # cs)
      else if c = CHR 0x5C then map_option ((#) d) (sh_word False cs)
      else if is_ascii_alnum c then map_option ((#) c) (sh_word False (d # cs))
      else None)"

lemma sh_word_quote [simp]: "x \<noteq> [] \<Longrightarrow> sh_word False (CHR 0x27 # x) = sh_word True x"
  by (cases x) simp_all

lemma sh_word_quoted:
  "sh_word True (replace_all [CHR 0x27] [CHR 0x27, CHR 0x5C, CHR 0x27, CHR 0x27] s @ [CHR 0x27]) = Some s"
proof (induction s)
  case (Cons c s)
  then show ?case by (cases "c = CHR 0x27") (simp_all add: starts_with_def)
qed simp

lemma shell_quote_word: "sh_word False (shell_quote s) = Some s"
  by (simp add: shell_quote_def sh_word_quoted)

subsection \<open>What the configuration refuses\<close>

text \<open>
  What \<open>git config\<close> documents of the calls made here, on a set of keys: a call that succeeds sets the
  value of its key, adds a value to those of its key, or removes all values, and leaves the other
  keys as they are. \<open>get\<close> is what \<open>git config --worktree --get-all\<close> reads.
\<close>

definition git_config_laws ::
  "(string list \<Rightarrow> 'g \<Rightarrow> nat \<times> 'g) \<Rightarrow> ('g \<Rightarrow> string \<Rightarrow> string list) \<Rightarrow> string set \<Rightarrow> bool" where
  "git_config_laws git get K \<longleftrightarrow>
     (\<forall>g. \<forall>k\<in>K. get (snd (git [''config'', ''extensions.worktreeConfig'', ''true''] g)) k = get g k) \<and>
     (\<forall>g v. \<forall>k\<in>K. fst (git (worktree_set k v) g) = 0 \<longrightarrow>
        (\<forall>l\<in>K. get (snd (git (worktree_set k v) g)) l = ((get g)(k := [v])) l)) \<and>
     (\<forall>g v. \<forall>k\<in>K. fst (git (worktree_add k v) g) = 0 \<longrightarrow>
        (\<forall>l\<in>K. get (snd (git (worktree_add k v) g)) l = ((get g)(k := get g k @ [v])) l)) \<and>
     (\<forall>g. \<forall>k\<in>K. fst (git (worktree_unset k) g) \<in> {0, 5} \<longrightarrow>
        (\<forall>l\<in>K. get (snd (git (worktree_unset k) g)) l = ((get g)(k := [])) l))"

definition guard_keys :: "remote_urls \<Rightarrow> string set" where
  "guard_keys r = {HOOKS_PATH_KEY, instead_of_key, push_instead_of_key} \<union> pushurl_key ` set (guarded_remotes r)"

lemma run_git_append:
  "fst (run_git git (xs @ ys) g) = Inr u \<Longrightarrow>
     fst (run_git git xs g) = Inr () \<and> run_git git (xs @ ys) g = run_git git ys (snd (run_git git xs g))"
  by (induction xs arbitrary: g) (auto split: prod.splits if_splits)

lemma set_not_unset: "k \<in> guard_keys r \<Longrightarrow> UNSET_ALL_FLAG \<noteq> k"
  by (auto simp: guard_keys_def UNSET_ALL_FLAG_def HOOKS_PATH_KEY_def instead_of_key_def push_instead_of_key_def
      pushurl_key_def)

lemma shared_law:
  "git_config_laws git get K \<Longrightarrow> git [''config'', ''extensions.worktreeConfig'', ''true''] g = (c, g') \<Longrightarrow> k \<in> K \<Longrightarrow>
     get g' k = get g k"
  unfolding git_config_laws_def by (metis snd_conv)

lemma set_law:
  "git_config_laws git get K \<Longrightarrow> git (worktree_set k v) g = (0, g') \<Longrightarrow> k \<in> K \<Longrightarrow> l \<in> K \<Longrightarrow>
     get g' l = (if l = k then [v] else get g l)"
  unfolding git_config_laws_def by (metis fst_conv snd_conv fun_upd_apply)

lemma add_law:
  "git_config_laws git get K \<Longrightarrow> git (worktree_add k v) g = (0, g') \<Longrightarrow> k \<in> K \<Longrightarrow> l \<in> K \<Longrightarrow>
     get g' l = (if l = k then get g k @ [v] else get g l)"
  unfolding git_config_laws_def by (metis fst_conv snd_conv fun_upd_apply)

lemma unset_law:
  "git_config_laws git get K \<Longrightarrow> git (worktree_unset k) g = (c, g') \<Longrightarrow> c \<in> {0, 5} \<Longrightarrow> k \<in> K \<Longrightarrow> l \<in> K \<Longrightarrow>
     get g' l = (if l = k then [] else get g l)"
  unfolding git_config_laws_def by (metis fst_conv snd_conv fun_upd_apply)

lemma flag_in_step [simp]:
  "UNSET_ALL_FLAG \<in> set (worktree_set k v) \<longleftrightarrow> k = UNSET_ALL_FLAG \<or> v = UNSET_ALL_FLAG"
  "UNSET_ALL_FLAG \<in> set (worktree_add k v) \<longleftrightarrow> k = UNSET_ALL_FLAG \<or> v = UNSET_ALL_FLAG"
  "UNSET_ALL_FLAG \<in> set (worktree_unset k)"
  by (auto simp: worktree_set_def worktree_add_def worktree_unset_def UNSET_ALL_FLAG_def)

lemma run_sets:
  assumes laws: "git_config_laws git get K"
      and "\<forall>x\<in>set xs. key x \<in> K \<and> key x \<noteq> UNSET_ALL_FLAG \<and> val x \<noteq> UNSET_ALL_FLAG" "distinct (map key xs)" "l \<in> K"
      and "fst (run_git git (map (\<lambda>x. worktree_set (key x) (val x)) xs) g) = Inr u"
  shows "get (snd (run_git git (map (\<lambda>x. worktree_set (key x) (val x)) xs) g)) l =
     (case find (\<lambda>x. key x = l) xs of Some x \<Rightarrow> [val x] | None \<Rightarrow> get g l)"
  using assms(2-)
proof (induction xs arbitrary: g)
  case (Cons x xs)
  obtain c g' where git: "git (worktree_set (key x) (val x)) g = (c, g')"
    by fastforce
  have c: "c = 0"
    using Cons.prems git by (auto split: if_splits)
  have "get g' l = ((get g)(key x := [val x])) l"
    using set_law [OF laws git [unfolded c]] Cons.prems(1,3) by auto
  moreover have "find (\<lambda>y. key y = key x) xs = None"
    using Cons.prems(2) by (auto simp: find_None_iff image_iff)
  ultimately show ?case
    using Cons.IH [of g'] Cons.prems git c by (auto split: option.splits)
qed simp

lemma run_adds:
  assumes laws: "git_config_laws git get K"
      and "UNSET_ALL_FLAG \<notin> set vs" "k \<in> K" "k \<noteq> UNSET_ALL_FLAG" "l \<in> K"
      and "fst (run_git git (map (\<lambda>v. worktree_add k v) vs) g) = Inr u"
  shows "get (snd (run_git git (map (\<lambda>v. worktree_add k v) vs) g)) l =
     (if l = k then get g k @ vs else get g l)"
  using assms(2-)
proof (induction vs arbitrary: g)
  case (Cons v vs)
  obtain c g' where git: "git (worktree_add k v) g = (c, g')"
    by fastforce
  have c: "c = 0"
    using Cons.prems git by (auto split: if_splits)
  have "\<forall>l\<in>K. get g' l = ((get g)(k := get g k @ [v])) l"
    using add_law [OF laws git [unfolded c]] Cons.prems(2) by auto
  then show ?case
    using Cons.IH [of g'] Cons.prems git c by auto
qed simp

lemma run_unset_add:
  assumes laws: "git_config_laws git get K"
      and "UNSET_ALL_FLAG \<notin> set vs" "k \<in> K" "k \<noteq> UNSET_ALL_FLAG" "l \<in> K"
      and "fst (run_git git (worktree_unset k #
              map (\<lambda>v. worktree_add k v) vs) g) = Inr u"
  shows "get (snd (run_git git (worktree_unset k #
              map (\<lambda>v. worktree_add k v) vs) g)) l =
     (if l = k then vs else get g l)"
proof -
  obtain c g' where git: "git (worktree_unset k) g = (c, g')"
    by fastforce
  have c: "c \<in> {0, 5}"
    using assms(6) git by (auto split: if_splits)
  have "\<forall>l\<in>K. get g' l = ((get g)(k := [])) l"
    using unset_law [OF laws git c] assms(3) by auto
  then show ?thesis
    using run_adds [OF laws assms(2-5), of g' u] assms(3,5,6) git c by (auto split: if_splits)
qed

lemma pushurl_key_inject [simp]: "pushurl_key a = pushurl_key b \<longleftrightarrow> a = b"
  by (simp add: pushurl_key_def)

lemma keys_differ [simp]:
  "pushurl_key a \<noteq> HOOKS_PATH_KEY" "pushurl_key a \<noteq> instead_of_key" "pushurl_key a \<noteq> push_instead_of_key"
  "HOOKS_PATH_KEY \<noteq> pushurl_key a" "instead_of_key \<noteq> pushurl_key a" "push_instead_of_key \<noteq> pushurl_key a"
  "HOOKS_PATH_KEY \<noteq> instead_of_key" "HOOKS_PATH_KEY \<noteq> push_instead_of_key" "instead_of_key \<noteq> push_instead_of_key"
  "instead_of_key \<noteq> HOOKS_PATH_KEY" "push_instead_of_key \<noteq> HOOKS_PATH_KEY" "push_instead_of_key \<noteq> instead_of_key"
  by (simp_all add: pushurl_key_def HOOKS_PATH_KEY_def instead_of_key_def push_instead_of_key_def REFUSED_URL_BASE_def)

definition refused_sets :: "string \<Rightarrow> remote_urls \<Rightarrow> (string \<times> string) list" where
  "refused_sets hooks_dir r =
     (HOOKS_PATH_KEY, utf8_lossy hooks_dir) # map (\<lambda>m. (pushurl_key m, refused_push_url m)) (guarded_remotes r)"

lemma find_refused [simp]:
  "find (\<lambda>x. fst x = HOOKS_PATH_KEY) (refused_sets d r) = Some (HOOKS_PATH_KEY, utf8_lossy d)"
  "find (\<lambda>x. fst x = instead_of_key) (refused_sets d r) = None"
  "find (\<lambda>x. fst x = push_instead_of_key) (refused_sets d r) = None"
  by (auto simp: refused_sets_def find_None_iff)

lemma find_refused_remote [simp]:
  assumes "m \<in> set (guarded_remotes r)"
  shows "find (\<lambda>x. fst x = pushurl_key m) (refused_sets d r) = Some (pushurl_key m, refused_push_url m)"
proof -
  have "m \<in> set xs \<Longrightarrow> find (\<lambda>x. fst x = pushurl_key m) (map (\<lambda>m. (pushurl_key m, refused_push_url m)) xs) =
      Some (pushurl_key m, refused_push_url m)" for xs
    by (induction xs) auto
  then show ?thesis using assms by (simp add: refused_sets_def)
qed

lemma distinct_refused: "distinct (map fst (refused_sets d r))"
  by (auto simp: refused_sets_def guarded_remotes_def comp_def distinct_map inj_on_def)

lemma set_shared_push_urls: "set (shared_push_urls r) \<subseteq> snd ` set (ru_push r)"
  by (auto simp: shared_push_urls_def)

lemma guard_steps_split:
  assumes "guard_config_steps hooks_dir r = Inr steps"
  shows "rewritten_fetch (ru_fetch r) (shared_push_urls r) = None"
    and "steps = [''config'', ''extensions.worktreeConfig'', ''true''] #
      map (\<lambda>x. worktree_set (fst x) (snd x)) (refused_sets hooks_dir r) @
      (worktree_unset instead_of_key # map (worktree_add instead_of_key) (shared_push_urls r)) @
      (worktree_unset push_instead_of_key # map (worktree_add push_instead_of_key) REFUSED_PREFIXES)"
  using assms by (auto simp: guard_config_steps_def refused_sets_def Let_def comp_def split: option.splits)

lemma not_flag [simp]:
  "HOOKS_PATH_KEY \<noteq> UNSET_ALL_FLAG" "pushurl_key m \<noteq> UNSET_ALL_FLAG" "instead_of_key \<noteq> UNSET_ALL_FLAG"
  "push_instead_of_key \<noteq> UNSET_ALL_FLAG" "refused_push_url m \<noteq> UNSET_ALL_FLAG" "UNSET_ALL_FLAG \<notin> set REFUSED_PREFIXES"
  "[''config'', ''extensions.worktreeConfig'', ''true''] \<noteq> worktree_unset k"
  by (simp_all add: HOOKS_PATH_KEY_def UNSET_ALL_FLAG_def pushurl_key_def instead_of_key_def push_instead_of_key_def
      refused_push_url_def REFUSED_URL_BASE_def REFUSED_PREFIXES_def worktree_unset_def)

lemma guard_config_holds:
  assumes laws: "git_config_laws git get (guard_keys r)"
      and steps: "guard_config_steps hooks_dir r = Inr steps"
      and run: "run_git git steps g = (Inr (), g')"
      and urls: "UNSET_ALL_FLAG \<notin> snd ` set (ru_push r)" "utf8_lossy hooks_dir \<noteq> UNSET_ALL_FLAG"
      and l: "l \<in> guard_keys r"
  shows "get g' l =
    (if l = push_instead_of_key then REFUSED_PREFIXES
     else if l = instead_of_key then shared_push_urls r
     else case find (\<lambda>x. fst x = l) (refused_sets hooks_dir r) of Some x \<Rightarrow> [snd x] | None \<Rightarrow> [])"
proof -
  let ?sets = "map (\<lambda>x. worktree_set (fst x) (snd x)) (refused_sets hooks_dir r)"
  let ?shared = "worktree_unset instead_of_key # map (worktree_add instead_of_key) (shared_push_urls r)"
  let ?prefixes = "worktree_unset push_instead_of_key # map (worktree_add push_instead_of_key) REFUSED_PREFIXES"
  note split = guard_steps_split [OF steps]
  obtain c g1 where git: "git [''config'', ''extensions.worktreeConfig'', ''true''] g = (c, g1)"
    by fastforce
  have "run_git git (?sets @ ?shared @ ?prefixes) g1 = (Inr (), g')"
    using run git unfolding split(2) by (simp add: UNSET_ALL_FLAG_def split: if_splits)
  then have "fst (run_git git ?sets g1) = Inr ()"
      "run_git git (?shared @ ?prefixes) (snd (run_git git ?sets g1)) = (Inr (), g')"
    using run_git_append [of git ?sets "?shared @ ?prefixes" g1 "()"] by simp_all
  moreover define g2 where "g2 = snd (run_git git ?sets g1)"
  ultimately have g2: "fst (run_git git ?sets g1) = Inr ()" "fst (run_git git ?shared g2) = Inr ()"
      "run_git git ?prefixes (snd (run_git git ?shared g2)) = (Inr (), g')"
    using run_git_append [of git ?shared ?prefixes g2 "()"] by simp_all
  have keys: "\<forall>x\<in>set (refused_sets hooks_dir r). fst x \<in> guard_keys r \<and> fst x \<noteq> UNSET_ALL_FLAG \<and> snd x \<noteq> UNSET_ALL_FLAG"
      "instead_of_key \<in> guard_keys r" "push_instead_of_key \<in> guard_keys r"
    using urls by (auto simp: refused_sets_def guard_keys_def)
  have "UNSET_ALL_FLAG \<notin> set (shared_push_urls r)"
    using urls(1) set_shared_push_urls by blast
  moreover have "l \<noteq> instead_of_key \<Longrightarrow> l \<noteq> push_instead_of_key \<Longrightarrow> find (\<lambda>x. fst x = l) (refused_sets hooks_dir r) \<noteq> None"
    using l by (auto simp: guard_keys_def)
  ultimately show ?thesis
    using run_unset_add [OF laws not_flag(6) keys(3) not_flag(4) l, of "snd (run_git git ?shared g2)" "()"]
      run_unset_add [OF laws _ keys(2) not_flag(3) l, of "shared_push_urls r" g2 "()"]
      run_sets [OF laws keys(1) distinct_refused l g2(1)] g2
    by (auto simp: g2_def split: option.splits)
qed

subsection \<open>What the hooks directory holds\<close>

lemma map_of_filter_names: "map_of (filter (\<lambda>(n, c). P n) dir) n = (if P n then map_of dir n else None)"
  by (induction dir) auto

lemma map_of_put_hook [simp]: "map_of (put_hook s dir) = (map_of dir)(hk_name s \<mapsto> hk_content s)"
  by (rule ext) (simp add: put_hook_def map_of_filter_names [of "\<lambda>n. n \<noteq> hk_name s"])

lemma put_hooks_other:
  "n \<notin> hk_name ` set ss \<Longrightarrow> map_of (foldl (\<lambda>dir s. put_hook s dir) dir ss) n = map_of dir n"
  by (induction ss arbitrary: dir) auto

lemma pre_push_not_temp [simp]: "\<not> is_temp_hook PRE_PUSH_HOOK"
  by (simp add: is_temp_hook_def PRE_PUSH_HOOK_def strip_prefix_def starts_with_def)

lemma abandoned_names: "n \<in> set (abandoned_temp_hooks es) \<Longrightarrow> is_temp_hook n"
  by (auto simp: abandoned_temp_hooks_def)

lemma pre_push_not_abandoned: "PRE_PUSH_HOOK \<notin> set (abandoned_temp_hooks es)"
  using abandoned_names pre_push_not_temp by blast

lemma hooks_after_pre_push: "PRE_PUSH_HOOK \<notin> hk_name ` set (tl (hook_scripts common_hooks existing))"
  by (auto simp: hook_scripts_def)

lemma write_hooks_pre_push: "map_of (write_hooks age common_hooks existing dir) PRE_PUSH_HOOK = Some refusing_pre_push"
proof -
  define scripts where "scripts = hook_scripts common_hooks existing"
  have "scripts = \<lparr>hk_name = PRE_PUSH_HOOK, hk_content = refusing_pre_push\<rparr> # tl scripts"
    by (simp add: scripts_def hook_scripts_def)
  then have written: "map_of (foldl (\<lambda>dir s. put_hook s dir) dir scripts) PRE_PUSH_HOOK = Some refusing_pre_push"
    by (metis foldl_Cons fun_upd_same hook_script.select_convs hooks_after_pre_push map_of_put_hook put_hooks_other scripts_def)
  have "PRE_PUSH_HOOK \<notin> set (stale_hook_names names scripts)" for names
    by (simp add: stale_hook_names_def scripts_def hook_scripts_def)
  then show ?thesis
    using written pre_push_not_abandoned
    by (auto simp: write_hooks_def Let_def map_of_filter_names simp flip: scripts_def simp del: filter_filter)
qed

lemma write_hooks_names:
  "(n, c) \<in> set (write_hooks age common_hooks existing dir) \<Longrightarrow>
     starts_with ''.'' n \<or> n \<in> hk_name ` set (hook_scripts common_hooks existing)"
  by (force simp: write_hooks_def Let_def stale_hook_names_def list_ex_iff)

lemma rewritten_fetch_None:
  "rewritten_fetch fs ps = None \<longleftrightarrow> (\<forall>(name, url)\<in>set fs. \<forall>p\<in>set ps. \<not> starts_with p url)"
  by (induction fs ps rule: rewritten_fetch.induct) (auto simp: find_None_iff find_Some_iff split: option.splits)

text \<open>
  A git whose configuration is a map from keys to values: the calls of the guard on it.
\<close>

definition map_git :: "string list \<Rightarrow> (string \<Rightarrow> string list) \<Rightarrow> nat \<times> (string \<Rightarrow> string list)" where
  "map_git step g = (case step of
     [_, f, k, v] \<Rightarrow>
       if k = UNSET_ALL_FLAG then (if g v = [] then 5 else 0, g(v := [])) else (0, g(k := [v]))
   | [_, _, _, k, v] \<Rightarrow> (0, g(k := g k @ [v]))
   | _ \<Rightarrow> (0, g))"

lemma map_git_laws: "git_config_laws map_git id (guard_keys r)"
  by (auto simp: git_config_laws_def map_git_def worktree_set_def worktree_add_def worktree_unset_def set_not_unset
      dest!: set_not_unset split: if_splits)



end
