(* ===== verification/Spec2Isabelle.thy ===== *)
theory Spec2Isabelle
  imports Memory_Archive_Facts Memory_Nap Chunk Wire_Sse Send_It_Facts Schedule_Facts
    Codex_Facts Opencode_Facts Headless_Facts Commands_Facts Permission_Queue
    Closing Inbox_Facts Retry Delivery Stall Upgrade Monitor Guard
begin

text \<open>
  Ralph is a terminal front end for coding agents. This development models its core logic.
\<close>

end
